(* ===== verification/Prelude.thy ===== *)
theory Prelude
  imports Main "HOL-Library.Word"
begin

text \<open>
  The vocabulary every other theory of the development shares.
  \<^item> The C integer types of a 64-bit kernel build (\<open>int\<close> is 32 bits, \<open>unsigned long\<close>
    and \<open>sector_t\<close> are 64 bits) as words; a C \<open>int\<close> is a \<open>32 word\<close> whose value is
    read with \<open>sint\<close>.
  \<^item> The error numbers the code returns and the outcome of a kernel function: a value, a
    \<open>BUG()\<close> (or another trap such as a division by zero), or a loop that never ends.
  \<^item> The loop \<open>for (i = n; i--; )\<close>, which the RAID-5 code uses for every pass over the
    member disks.
  \<^item> Lemmas on words, bits and lists that several components use; the collection
    \<open>bit_flags\<close> holds the facts about flag words.
\<close>

unbundle bit_operations_syntax

section \<open>Machine integers\<close>

type_synonym u8 = "8 word"
type_synonym u32 = "32 word"
type_synonym u64 = "64 word"
type_synonym cint = "32 word"
type_synonym sector_t = "64 word"

named_theorems bit_flags \<open>facts about flag words\<close>

declare bit_set_bit_iff [bit_flags] bit_unset_bit_iff [bit_flags]

lemma unat_of_nat_small: "n < 2 ^ LENGTH('a::len) \<Longrightarrow> unat (of_nat n :: 'a word) = n"
  by (simp add: unat_of_nat take_bit_nat_eq_self)

lemma unat_ucast_small:
  "unat (w :: 'a::len word) < 2 ^ LENGTH('b::len) \<Longrightarrow> unat (ucast w :: 'b word) = unat w"
  by (simp add: unsigned_ucast_eq take_bit_nat_eq_self)

lemma u64_less: "unat (w :: u64) < 2 ^ 64"
  using unsigned_less [of w, where 'a = nat] by simp

lemma u32_less: "unat (w :: u32) < 2 ^ 32"
  using unsigned_less [of w, where 'a = nat] by simp

lemma unat_inject: "unat (a :: 'a::len word) = unat b \<longleftrightarrow> a = b"
  by (rule word_unat_eq_iff [symmetric])

lemma of_nat_unat_eq: "unat (w :: 'a::len word) = n \<Longrightarrow> w = of_nat n"
  by auto

lemma unat_ucast_32_64 [simp]: "unat (ucast (w :: u32) :: u64) = unat w"
  by (rule unat_ucast_small) (rule less_trans [OF unsigned_less], simp)

text \<open>A non-negative C \<open>int\<close>: sign extension is zero extension.\<close>

definition nonneg :: "cint \<Rightarrow> bool" where
  "nonneg w \<longleftrightarrow> unat w < 2 ^ 31"

lemma sint_nonneg:
  assumes "nonneg w" shows "sint w = int (unat w)"
proof -
  have eq: "int (unat w) = uint w" by simp
  have "int (unat w) < 2 ^ 31"
    using assms unfolding nonneg_def by (simp only: of_nat_less_numeral_power_cancel_iff)
  then have less: "uint w < 2 ^ 31" by simp
  have "- (2 ^ 31) \<le> uint w" by (rule order_trans [of _ 0]) simp_all
  then have "signed_take_bit 31 (uint w) = uint w"
    using less by (rule signed_take_bit_int_eq_self)
  then show ?thesis
    using eq by (simp add: sint_uint)
qed

lemma scast_nonneg:
  assumes "nonneg w" shows "(scast w :: u64) = ucast w"
proof -
  have "(scast w :: u64) = word_of_int (sint w)" by (simp only: scast_eq)
  also have "\<dots> = word_of_int (uint w)" using sint_nonneg [OF assms] by simp
  also have "\<dots> = ucast w" by (simp only: ucast_eq)
  finally show ?thesis .
qed

lemma unat_scast_nonneg [simp]: "nonneg w \<Longrightarrow> unat (scast w :: u64) = unat w"
  by (simp add: scast_nonneg)

lemma unat_add_no_wrap:
  "unat (a :: 'a::len word) + unat b < 2 ^ LENGTH('a) \<Longrightarrow> unat (a + b) = unat a + unat b"
  by (simp add: unat_word_ariths)

lemma unat_mult_no_wrap:
  "unat (a :: 'a::len word) * unat b < 2 ^ LENGTH('a) \<Longrightarrow> unat (a * b) = unat a * unat b"
  by (simp add: unat_word_ariths)

lemma unat_mult_add_no_wrap:
  "unat (a :: 'a::len word) * unat b + unat c < 2 ^ LENGTH('a) \<Longrightarrow>
   unat (a * b + c) = unat a * unat b + unat c"
  by (simp add: unat_word_ariths mod_simps)

lemma unat_sub_no_wrap: "unat b \<le> unat (a :: 'a::len word) \<Longrightarrow> unat (a - b) = unat a - unat b"
  by (simp add: unat_sub word_le_nat_alt)

lemma div_mod_eqI: "a div d = b div d \<Longrightarrow> a mod d = b mod d \<Longrightarrow> a = (b :: nat)"
  by (metis div_mult_mod_eq)

section \<open>Outcomes\<close>

datatype errno = ENOMEM | EINVAL | EIO | EBUSY | EEXIST | ENODEV | EINTR | ERESTARTSYS | ENOTTY

datatype 'a outcome = Ret 'a | Bug | Hang

primrec bind_outcome :: "'a outcome \<Rightarrow> ('a \<Rightarrow> 'b outcome) \<Rightarrow> 'b outcome" where
  "bind_outcome (Ret x) f = f x"
| "bind_outcome Bug f = Bug"
| "bind_outcome Hang f = Hang"

primrec of_option_bug :: "'a option \<Rightarrow> 'a outcome" where
  "of_option_bug None = Bug"
| "of_option_bug (Some x) = Ret x"

primrec of_option_hang :: "'a option \<Rightarrow> 'a outcome" where
  "of_option_hang None = Hang"
| "of_option_hang (Some x) = Ret x"

lemma bind_outcome_Ret_iff:
  "bind_outcome m f = Ret y \<longleftrightarrow> (\<exists>x. m = Ret x \<and> f x = Ret y)"
  by (cases m) auto

lemma of_option_bug_Ret_iff [simp]: "of_option_bug m = Ret y \<longleftrightarrow> m = Some y"
  by (cases m) auto

lemma of_option_hang_Ret_iff [simp]: "of_option_hang m = Ret y \<longleftrightarrow> m = Some y"
  by (cases m) auto

section \<open>The descending loop\<close>

primrec for_down :: "nat \<Rightarrow> (nat \<Rightarrow> 's \<Rightarrow> 's) \<Rightarrow> 's \<Rightarrow> 's" where
  "for_down 0 f s = s"
| "for_down (Suc n) f s = for_down n f (f n s)"

lemma for_down_invariant:
  assumes "P s" and "\<And>i s. i < n \<Longrightarrow> P s \<Longrightarrow> P (f i s)"
  shows "P (for_down n f s)"
  using assms by (induction n arbitrary: s) (auto simp: less_Suc_eq)

lemma for_down_cong:
  "(\<And>i s. i < n \<Longrightarrow> f i s = g i s) \<Longrightarrow> for_down n f s = for_down n g s"
  by (induction n arbitrary: s) (auto simp: less_Suc_eq)

section \<open>Lists\<close>

lemma distinct_remove1_set: "distinct xs \<Longrightarrow> set (remove1 x xs) = set xs - {x}"
  by (rule set_remove1_eq)

end
