(* ===== verification/Jraid5_Types.thy ===== *)
theory Jraid5_Types
  imports Prelude
begin

text \<open>
  The data of the RAID-5 personality, \<^verbatim>\<open>src/src/jraid5.h\<close>, and the part of
  \<^verbatim>\<open>struct jmd_thread\<close> (\<^verbatim>\<open>src/src/jmd_k.h\<close>) the personality uses.

  Pointers to stripes are numbers (\<open>sid\<close>) into the \<open>heap\<close> of the array's configuration;
  \<open>live\<close> lists the stripes that are allocated. The hash links \<open>hash_next\<close> and
  \<open>hash_pprev\<close> are kept as the pointers they are. A stripe's \<open>lru\<close> link is represented by
  the two kernel lists it can be on: \<open>list_empty(&sh->lru)\<close> is membership in neither
  \<open>inactive_list\<close> nor \<open>handle_list\<close>. A chain of bios through \<open>bi_next\<close> is a list.
  Fields of the 2.4 code that no compiled path reads (the \<open>buffer_head\<close> arrays, \<open>spare\<close>,
  \<open>wait_for_overlap\<close>, \<open>preread_active_stripes\<close>) are left out, and so are the locks: an
  operation of the model is one critical section.
\<close>

unbundle bit_operations_syntax

section \<open>Constants\<close>

definition MD_SB_DISKS :: nat where "MD_SB_DISKS = 27"

definition PAGE_SIZE :: nat where "PAGE_SIZE = 4096"

definition STRIPE_SIZE :: nat where "STRIPE_SIZE = PAGE_SIZE"

definition STRIPE_SECTORS :: nat where "STRIPE_SECTORS = STRIPE_SIZE div 2 ^ 9"

definition NR_STRIPES :: nat where "NR_STRIPES = 1024"

definition NR_HASH :: nat where "NR_HASH = 1 * PAGE_SIZE div 8"

definition HASH_MASK :: nat where "HASH_MASK = NR_HASH - 1"

lemmas stripe_consts = PAGE_SIZE_def STRIPE_SIZE_def STRIPE_SECTORS_def NR_HASH_def HASH_MASK_def

text \<open>Bits of \<open>r5dev.flags\<close>.\<close>

definition R5_UPTODATE :: nat where "R5_UPTODATE = 0"
definition R5_LOCKED :: nat where "R5_LOCKED = 1"
definition R5_OVERWRITE :: nat where "R5_OVERWRITE = 2"
definition R5_Insync :: nat where "R5_Insync = 3"
definition R5_Wantread :: nat where "R5_Wantread = 4"
definition R5_Wantwrite :: nat where "R5_Wantwrite = 5"
definition R5_Syncio :: nat where "R5_Syncio = 6"
definition R5_Overlap :: nat where "R5_Overlap = 7"

lemmas r5_flag_defs = R5_UPTODATE_def R5_LOCKED_def R5_OVERWRITE_def R5_Insync_def
  R5_Wantread_def R5_Wantwrite_def R5_Syncio_def R5_Overlap_def

text \<open>Bits of \<open>stripe_head.state\<close>.\<close>

definition STRIPE_ERROR :: nat where "STRIPE_ERROR = 1"
definition STRIPE_HANDLE :: nat where "STRIPE_HANDLE = 2"
definition STRIPE_SYNCING :: nat where "STRIPE_SYNCING = 3"
definition STRIPE_INSYNC :: nat where "STRIPE_INSYNC = 4"
definition STRIPE_PREREAD_ACTIVE :: nat where "STRIPE_PREREAD_ACTIVE = 5"
definition STRIPE_DELAYED :: nat where "STRIPE_DELAYED = 6"

lemmas stripe_state_defs = STRIPE_ERROR_def STRIPE_HANDLE_def STRIPE_SYNCING_def
  STRIPE_INSYNC_def STRIPE_PREREAD_ACTIVE_def STRIPE_DELAYED_def

text \<open>Parity placement.\<close>

definition ALGORITHM_LEFT_ASYMMETRIC :: cint where "ALGORITHM_LEFT_ASYMMETRIC = 0"
definition ALGORITHM_RIGHT_ASYMMETRIC :: cint where "ALGORITHM_RIGHT_ASYMMETRIC = 1"
definition ALGORITHM_LEFT_SYMMETRIC :: cint where "ALGORITHM_LEFT_SYMMETRIC = 2"
definition ALGORITHM_RIGHT_SYMMETRIC :: cint where "ALGORITHM_RIGHT_SYMMETRIC = 3"

lemmas algorithm_defs = ALGORITHM_LEFT_ASYMMETRIC_def ALGORITHM_RIGHT_ASYMMETRIC_def
  ALGORITHM_LEFT_SYMMETRIC_def ALGORITHM_RIGHT_SYMMETRIC_def

section \<open>Structures\<close>

type_synonym sid = nat

text \<open>The bio of a caller, as a link of a \<open>toread\<close> / \<open>towrite\<close> chain.\<close>

record bio =
  bi_ptr :: nat
  bi_sector :: sector_t
  bi_size :: u32

datatype end_io = raid5_end_read | raid5_end_write

text \<open>The bio embedded in an \<open>r5dev\<close>, as it is handed to \<open>generic_make_request\<close>.\<close>

record req_bio =
  rq_rw :: cint
  rq_sector :: sector_t
  rq_size :: u32
  rq_idx :: u32
  rq_vcnt :: u32
  rq_max_vecs :: u32
  rq_vec_len :: u32
  rq_vec_offset :: u32
  rq_bdev :: "nat option"
  rq_end_io :: "end_io option"
  rq_uptodate :: bool

record r5dev =
  req :: req_bio
  page :: "nat option"
  toread :: "bio list"
  towrite :: "bio list"
  written :: "bio list"
  dev_sector :: sector_t
  dev_flags :: u32

datatype hash_link = Bucket nat | Next_of sid

record stripe_head =
  hash_next :: "sid option"
  hash_pprev :: "hash_link option"
  sector :: sector_t
  pd_idx :: cint
  sh_state :: u64
  sh_count :: int
  dev :: "r5dev list"

text \<open>A device number is the pair of its major and minor number.\<close>

type_synonym dev_t = "u32 \<times> u32"

record disk_info =
  di_dev :: dev_t
  operational :: bool
  di_number :: u32
  di_raid_disk :: u32
  write_only :: bool
  spare :: bool
  used_slot :: bool
  di_jrdev :: "nat option"

definition THREAD_WAKEUP :: nat where "THREAD_WAKEUP = 0"

record jmd_thread =
  th_run :: "string option"
  th_name :: string
  th_flags :: u64

record jraid5_conf =
  heap :: "sid \<Rightarrow> stripe_head"
  live :: "sid list"
  stripe_hashtbl :: "nat \<Rightarrow> sid option"
  thread :: "jmd_thread option"
  resync_thread :: "jmd_thread option"
  disks :: "disk_info list"
  buffer_size :: cint
  chunk_size :: cint
  level :: cint
  algorithm :: cint
  raid_disks :: cint
  working_disks :: cint
  failed_disks :: cint
  resync_parity :: cint
  max_nr_stripes :: cint
  handle_list :: "sid list"
  active_stripes :: int
  inactive_list :: "sid list"
  stripe_wakeups :: nat
  jraid_disks :: cint

text \<open>
  Zeroed memory: a member device and a stripe as \<open>memset\<close> leaves them in \<open>grow_stripes\<close>,
  and the configuration \<open>jraid5_run\<close> starts from.
\<close>

definition zero_req :: req_bio where
  "zero_req = \<lparr>rq_rw = 0, rq_sector = 0, rq_size = 0, rq_idx = 0, rq_vcnt = 0, rq_max_vecs = 0,
     rq_vec_len = 0, rq_vec_offset = 0, rq_bdev = None, rq_end_io = None, rq_uptodate = False\<rparr>"

definition zero_dev :: r5dev where
  "zero_dev = \<lparr>req = zero_req, page = None, toread = [], towrite = [], written = [],
     dev_sector = 0, dev_flags = 0\<rparr>"

definition zero_stripe :: "nat \<Rightarrow> stripe_head" where
  "zero_stripe devs = \<lparr>hash_next = None, hash_pprev = None, sector = 0, pd_idx = 0,
     sh_state = 0, sh_count = 0, dev = replicate devs zero_dev\<rparr>"

definition zero_disk_info :: disk_info where
  "zero_disk_info = \<lparr>di_dev = (0, 0), operational = False, di_number = 0, di_raid_disk = 0,
     write_only = False, spare = False, used_slot = False, di_jrdev = None\<rparr>"

definition zero_conf :: jraid5_conf where
  "zero_conf = \<lparr>heap = (\<lambda>_. zero_stripe 0), live = [], stripe_hashtbl = (\<lambda>_. None), thread = None,
     resync_thread = None, disks = replicate MD_SB_DISKS zero_disk_info, buffer_size = 0,
     chunk_size = 0, level = 0, algorithm = 0, raid_disks = 0, working_disks = 0,
     failed_disks = 0, resync_parity = 0, max_nr_stripes = 0, handle_list = [],
     active_stripes = 0, inactive_list = [], stripe_wakeups = 0, jraid_disks = 0\<rparr>"

text \<open>Update one stripe in place.\<close>

definition upd_stripe :: "sid \<Rightarrow> (stripe_head \<Rightarrow> stripe_head) \<Rightarrow> jraid5_conf \<Rightarrow> jraid5_conf" where
  "upd_stripe i f conf = conf\<lparr>heap := (heap conf)(i := f (heap conf i))\<rparr>"

text \<open>Update one member device of a stripe in place.\<close>

definition upd_dev :: "nat \<Rightarrow> (r5dev \<Rightarrow> r5dev) \<Rightarrow> stripe_head \<Rightarrow> stripe_head" where
  "upd_dev k f sh = sh\<lparr>dev := (dev sh)[k := f (dev sh ! k)]\<rparr>"

lemma upd_stripe_simps [simp]:
  "heap (upd_stripe i f conf) = (heap conf)(i := f (heap conf i))"
  "live (upd_stripe i f conf) = live conf"
  "stripe_hashtbl (upd_stripe i f conf) = stripe_hashtbl conf"
  "thread (upd_stripe i f conf) = thread conf"
  "resync_thread (upd_stripe i f conf) = resync_thread conf"
  "disks (upd_stripe i f conf) = disks conf"
  "buffer_size (upd_stripe i f conf) = buffer_size conf"
  "chunk_size (upd_stripe i f conf) = chunk_size conf"
  "level (upd_stripe i f conf) = level conf"
  "algorithm (upd_stripe i f conf) = algorithm conf"
  "raid_disks (upd_stripe i f conf) = raid_disks conf"
  "handle_list (upd_stripe i f conf) = handle_list conf"
  "active_stripes (upd_stripe i f conf) = active_stripes conf"
  "inactive_list (upd_stripe i f conf) = inactive_list conf"
  "stripe_wakeups (upd_stripe i f conf) = stripe_wakeups conf"
  by (simp_all add: upd_stripe_def)

lemma upd_dev_simps [simp]:
  "hash_next (upd_dev k f sh) = hash_next sh"
  "hash_pprev (upd_dev k f sh) = hash_pprev sh"
  "sector (upd_dev k f sh) = sector sh"
  "pd_idx (upd_dev k f sh) = pd_idx sh"
  "sh_state (upd_dev k f sh) = sh_state sh"
  "sh_count (upd_dev k f sh) = sh_count sh"
  "length (dev (upd_dev k f sh)) = length (dev sh)"
  by (simp_all add: upd_dev_def)

definition jmd_wakeup_thread :: "jmd_thread \<Rightarrow> jmd_thread" where
  "jmd_wakeup_thread th = th\<lparr>th_flags := set_bit THREAD_WAKEUP (th_flags th)\<rparr>"

end
