(* ===== verification/Stripe_Hash.thy ===== *)
theory Stripe_Hash
  imports Jraid5_Types
begin

text \<open>
  The stripe hash table of \<^verbatim>\<open>src/src/jraid5.c\<close>: \<open>stripe_hash\<close>, \<open>remove_hash\<close>,
  \<open>insert_hash\<close>, \<open>__find_stripe\<close> and \<open>shrink_stripe_cache\<close>, at the level of the pointers
  \<open>hash_next\<close> and \<open>hash_pprev\<close>.

  A link cell is a bucket or the \<open>hash_next\<close> field of a stripe (\<open>hash_link\<close>); a stripe's
  \<open>hash_pprev\<close> names the cell that points to it. \<open>chain\<close> says that a list of stripes is what
  hangs off a link cell with all back pointers right, and \<open>hash_rep\<close> that the whole table
  represents a family of bucket lists. The operations are shown to be insertion, removal and
  search on those lists. The locale \<open>stripe_index\<close> is what the stripe cache needs from the
  table; it is interpreted on the pointer operations.
\<close>

unbundle bit_operations_syntax

section \<open>The code\<close>

definition stripe_hash :: "jraid5_conf \<Rightarrow> sector_t \<Rightarrow> nat" where
  "stripe_hash conf sect =
     unat ((sect div scast (signed_drop_bit 9 (buffer_size conf))) AND of_nat HASH_MASK)"

primrec read_link :: "jraid5_conf \<Rightarrow> hash_link \<Rightarrow> sid option" where
  "read_link conf (Bucket b) = stripe_hashtbl conf b"
| "read_link conf (Next_of i) = hash_next (heap conf i)"

primrec store_link :: "hash_link \<Rightarrow> sid option \<Rightarrow> jraid5_conf \<Rightarrow> jraid5_conf" where
  "store_link (Bucket b) v conf = conf\<lparr>stripe_hashtbl := (stripe_hashtbl conf)(b := v)\<rparr>"
| "store_link (Next_of i) v conf = upd_stripe i (\<lambda>sh. sh\<lparr>hash_next := v\<rparr>) conf"

definition remove_hash :: "sid \<Rightarrow> jraid5_conf \<Rightarrow> jraid5_conf" where
  "remove_hash i conf =
     (case hash_pprev (heap conf i) of
        None \<Rightarrow> conf
      | Some pprev \<Rightarrow>
          let conf1 = (case hash_next (heap conf i) of
                         None \<Rightarrow> conf
                       | Some j \<Rightarrow> upd_stripe j (\<lambda>sh. sh\<lparr>hash_pprev := Some pprev\<rparr>) conf);
              conf2 = store_link pprev (hash_next (heap conf1 i)) conf1
          in upd_stripe i (\<lambda>sh. sh\<lparr>hash_pprev := None\<rparr>) conf2)"

definition insert_hash :: "sid \<Rightarrow> jraid5_conf \<Rightarrow> jraid5_conf" where
  "insert_hash i conf =
     (let shp = stripe_hash conf (sector (heap conf i));
          first = stripe_hashtbl conf shp;
          conf1 = upd_stripe i (\<lambda>sh. sh\<lparr>hash_next := first\<rparr>) conf;
          conf2 = (case first of
                     None \<Rightarrow> conf1
                   | Some j \<Rightarrow> upd_stripe j (\<lambda>sh. sh\<lparr>hash_pprev := Some (Next_of i)\<rparr>) conf1);
          conf3 = store_link (Bucket shp) (Some i) conf2
      in upd_stripe i (\<lambda>sh. sh\<lparr>hash_pprev := Some (Bucket shp)\<rparr>) conf3)"

partial_function (option) find_from ::
    "jraid5_conf \<Rightarrow> sector_t \<Rightarrow> sid option \<Rightarrow> sid option option" where
  "find_from conf sect q =
     (case q of
        None \<Rightarrow> Some None
      | Some i \<Rightarrow> if sector (heap conf i) = sect then Some (Some i)
                  else find_from conf sect (hash_next (heap conf i)))"

definition find_stripe :: "jraid5_conf \<Rightarrow> sector_t \<Rightarrow> sid option option" where
  "find_stripe conf sect = find_from conf sect (stripe_hashtbl conf (stripe_hash conf sect))"

text \<open>
  \<open>shrink_stripe_cache\<close>: the inner \<open>while\<close> empties one bucket, the outer loop visits all of
  them.
\<close>

partial_function (option) empty_bucket :: "nat \<Rightarrow> jraid5_conf \<Rightarrow> jraid5_conf option" where
  "empty_bucket b conf =
     (case stripe_hashtbl conf b of
        None \<Rightarrow> Some conf
      | Some i \<Rightarrow> empty_bucket b (remove_hash i conf))"

primrec empty_buckets :: "nat list \<Rightarrow> jraid5_conf \<Rightarrow> jraid5_conf option" where
  "empty_buckets [] conf = Some conf"
| "empty_buckets (b # bs) conf = Option.bind (empty_bucket b conf) (empty_buckets bs)"

definition shrink_stripe_cache :: "jraid5_conf \<Rightarrow> jraid5_conf outcome" where
  "shrink_stripe_cache conf =
     (if active_stripes conf \<noteq> 0 then Bug
      else of_option_hang (empty_buckets [0..<NR_HASH] conf))"

section \<open>What the operations change\<close>

lemma stripe_hash_less: "stripe_hash conf sect < NR_HASH"
proof -
  have "unat (x AND 511 :: u64) \<le> 511" for x
    using word_and_le1 [of x 511] by (simp add: word_le_nat_alt)
  then have "stripe_hash conf sect \<le> 511" unfolding stripe_hash_def stripe_consts by simp
  then show ?thesis by (simp add: stripe_consts)
qed

lemma stripe_hash_buffer:
  "buffer_size c = buffer_size conf \<Longrightarrow> stripe_hash c = stripe_hash conf"
  by (simp add: stripe_hash_def fun_eq_iff)

lemma store_link_frame [simp]:
  "live (store_link l v conf) = live conf"
  "thread (store_link l v conf) = thread conf"
  "resync_thread (store_link l v conf) = resync_thread conf"
  "disks (store_link l v conf) = disks conf"
  "buffer_size (store_link l v conf) = buffer_size conf"
  "chunk_size (store_link l v conf) = chunk_size conf"
  "level (store_link l v conf) = level conf"
  "algorithm (store_link l v conf) = algorithm conf"
  "raid_disks (store_link l v conf) = raid_disks conf"
  "handle_list (store_link l v conf) = handle_list conf"
  "active_stripes (store_link l v conf) = active_stripes conf"
  "inactive_list (store_link l v conf) = inactive_list conf"
  "stripe_wakeups (store_link l v conf) = stripe_wakeups conf"
  "sector (heap (store_link l v conf) i) = sector (heap conf i)"
  "pd_idx (heap (store_link l v conf) i) = pd_idx (heap conf i)"
  "sh_state (heap (store_link l v conf) i) = sh_state (heap conf i)"
  "sh_count (heap (store_link l v conf) i) = sh_count (heap conf i)"
  "dev (heap (store_link l v conf) i) = dev (heap conf i)"
  "hash_pprev (heap (store_link l v conf) i) = hash_pprev (heap conf i)"
  by (cases l; simp)+

lemma read_store_link [simp]:
  "read_link (store_link l v conf) l' = (if l' = l then v else read_link conf l')"
  by (cases l; cases l') auto

lemma read_upd_pprev [simp]:
  "read_link (upd_stripe i (hash_pprev_update f) conf) l = read_link conf l"
  by (cases l) auto

lemma remove_hash_unhashed [simp]: "hash_pprev (heap conf i) = None \<Longrightarrow> remove_hash i conf = conf"
  by (simp add: remove_hash_def)

lemma read_remove_hash:
  assumes "hash_pprev (heap conf i) = Some p"
  shows "read_link (remove_hash i conf) l =
    (if l = p then read_link conf (Next_of i) else read_link conf l)"
  using assms by (cases "hash_next (heap conf i)") (auto simp: remove_hash_def Let_def)

lemma pprev_remove_hash:
  assumes "hash_pprev (heap conf i) = Some p"
  shows "hash_pprev (heap (remove_hash i conf) x) =
    (if x = i then None else if hash_next (heap conf i) = Some x then Some p
     else hash_pprev (heap conf x))"
  using assms by (cases "hash_next (heap conf i)") (auto simp: remove_hash_def Let_def)

lemma remove_hash_frame [simp]:
  "live (remove_hash i conf) = live conf"
  "thread (remove_hash i conf) = thread conf"
  "resync_thread (remove_hash i conf) = resync_thread conf"
  "disks (remove_hash i conf) = disks conf"
  "buffer_size (remove_hash i conf) = buffer_size conf"
  "chunk_size (remove_hash i conf) = chunk_size conf"
  "level (remove_hash i conf) = level conf"
  "algorithm (remove_hash i conf) = algorithm conf"
  "raid_disks (remove_hash i conf) = raid_disks conf"
  "handle_list (remove_hash i conf) = handle_list conf"
  "active_stripes (remove_hash i conf) = active_stripes conf"
  "inactive_list (remove_hash i conf) = inactive_list conf"
  "stripe_wakeups (remove_hash i conf) = stripe_wakeups conf"
  "sector (heap (remove_hash i conf) x) = sector (heap conf x)"
  "pd_idx (heap (remove_hash i conf) x) = pd_idx (heap conf x)"
  "sh_state (heap (remove_hash i conf) x) = sh_state (heap conf x)"
  "sh_count (heap (remove_hash i conf) x) = sh_count (heap conf x)"
  "dev (heap (remove_hash i conf) x) = dev (heap conf x)"
  by (simp_all add: remove_hash_def Let_def split: option.splits)

lemma read_insert_hash:
  "read_link (insert_hash i conf) l =
    (let b = stripe_hash conf (sector (heap conf i)) in
     if l = Bucket b then Some i else if l = Next_of i then stripe_hashtbl conf b
     else read_link conf l)"
  by (cases l) (auto simp: insert_hash_def Let_def split: option.splits)

lemma pprev_insert_hash:
  "hash_pprev (heap (insert_hash i conf) x) =
    (let b = stripe_hash conf (sector (heap conf i)) in
     if x = i then Some (Bucket b)
     else if stripe_hashtbl conf b = Some x then Some (Next_of i)
     else hash_pprev (heap conf x))"
  by (auto simp: insert_hash_def Let_def split: option.splits)

lemma insert_hash_frame [simp]:
  "live (insert_hash i conf) = live conf"
  "thread (insert_hash i conf) = thread conf"
  "resync_thread (insert_hash i conf) = resync_thread conf"
  "disks (insert_hash i conf) = disks conf"
  "buffer_size (insert_hash i conf) = buffer_size conf"
  "chunk_size (insert_hash i conf) = chunk_size conf"
  "level (insert_hash i conf) = level conf"
  "algorithm (insert_hash i conf) = algorithm conf"
  "raid_disks (insert_hash i conf) = raid_disks conf"
  "handle_list (insert_hash i conf) = handle_list conf"
  "active_stripes (insert_hash i conf) = active_stripes conf"
  "inactive_list (insert_hash i conf) = inactive_list conf"
  "stripe_wakeups (insert_hash i conf) = stripe_wakeups conf"
  "sector (heap (insert_hash i conf) x) = sector (heap conf x)"
  "pd_idx (heap (insert_hash i conf) x) = pd_idx (heap conf x)"
  "sh_state (heap (insert_hash i conf) x) = sh_state (heap conf x)"
  "sh_count (heap (insert_hash i conf) x) = sh_count (heap conf x)"
  "dev (heap (insert_hash i conf) x) = dev (heap conf x)"
  by (simp_all add: insert_hash_def Let_def split: option.splits)

section \<open>Chains\<close>

primrec chain :: "jraid5_conf \<Rightarrow> hash_link \<Rightarrow> sid list \<Rightarrow> bool" where
  "chain conf p [] \<longleftrightarrow> read_link conf p = None"
| "chain conf p (x # xs) \<longleftrightarrow>
     read_link conf p = Some x \<and> hash_pprev (heap conf x) = Some p \<and> chain conf (Next_of x) xs"

lemma chain_cong:
  assumes "chain conf p xs" and "read_link conf' p = read_link conf p"
    and "\<And>x. x \<in> set xs \<Longrightarrow> read_link conf' (Next_of x) = read_link conf (Next_of x) \<and>
           hash_pprev (heap conf' x) = hash_pprev (heap conf x)"
  shows "chain conf' p xs"
  using assms by (induction xs arbitrary: p) auto

lemma chain_hashed: "chain conf p xs \<Longrightarrow> x \<in> set xs \<Longrightarrow> hash_pprev (heap conf x) \<noteq> None"
  by (induction xs arbitrary: p) auto

lemma chain_prev_in:
  "chain conf p (xs @ x # ys) \<Longrightarrow>
   hash_pprev (heap conf x) = Some (if xs = [] then p else Next_of (last xs))"
  by (induction xs arbitrary: p) auto

lemma chain_next_in:
  "chain conf p (xs @ x # ys) \<Longrightarrow> hash_next (heap conf x) = (case ys of [] \<Rightarrow> None | y # _ \<Rightarrow> Some y)"
  by (induction xs arbitrary: p) (auto split: list.splits)

lemma chain_remove:
  assumes "chain conf p (xs @ i # ys)" and "distinct (xs @ i # ys)"
    and "p \<notin> Next_of ` set (xs @ i # ys)"
  shows "chain (remove_hash i conf) p (xs @ ys)"
  using assms
proof (induction xs arbitrary: p)
  case Nil
  then have p: "hash_pprev (heap conf i) = Some p" and i: "i \<notin> set ys"
    and tail: "chain conf (Next_of i) ys" by auto
  show ?case
  proof (cases ys)
    case Nil
    then show ?thesis using tail by (simp add: read_remove_hash [OF p])
  next
    case (Cons y zs)
    have "hash_next (heap conf i) = Some y" using tail Cons by simp
    have "chain (remove_hash i conf) (Next_of y) zs"
    proof (rule chain_cong)
      show "chain conf (Next_of y) zs" using tail Cons by simp
    qed (use Nil.prems Cons tail p \<open>hash_next (heap conf i) = Some y\<close> in
        \<open>auto simp: read_remove_hash [OF p] pprev_remove_hash [OF p] simp del: read_link.simps\<close>)
    then show ?thesis using tail Cons Nil.prems
      by (auto simp: read_remove_hash [OF p] pprev_remove_hash [OF p])
  qed
next
  case (Cons x xs)
  define q where "q = (if xs = [] then Next_of x else Next_of (last xs))"
  have q: "hash_pprev (heap conf i) = Some q"
    using chain_prev_in [of conf "Next_of x" xs i ys] Cons.prems by (simp add: q_def)
  have "q \<noteq> p" using Cons.prems by (auto simp: q_def split: if_splits)
  moreover have "hash_next (heap conf i) \<noteq> Some x"
    using chain_next_in [of conf "Next_of x" xs i ys] Cons.prems by (auto split: list.splits)
  moreover have "chain (remove_hash i conf) (Next_of x) (xs @ ys)"
    using Cons.prems by (intro Cons.IH) auto
  ultimately show ?case
    using Cons.prems by (auto simp: read_remove_hash [OF q] pprev_remove_hash [OF q])
qed

lemma chain_untouched_by_remove:
  assumes "chain conf p xs" "chain conf q (us @ i # vs)" "p \<noteq> q"
    and "p \<notin> Next_of ` set (us @ i # vs)" "set xs \<inter> set (us @ i # vs) = {}"
    and "q \<notin> Next_of ` set xs"
  shows "chain (remove_hash i conf) p xs"
proof -
  define r where "r = (if us = [] then q else Next_of (last us))"
  have r: "hash_pprev (heap conf i) = Some r"
    using chain_prev_in [OF assms(2)] by (simp add: r_def)
  have next_i: "hash_next (heap conf i) \<noteq> Some x" if "x \<in> set xs" for x
    using chain_next_in [OF assms(2)] assms(5) that by (auto split: list.splits)
  have "r \<noteq> p" "\<And>x. x \<in> set xs \<Longrightarrow> r \<noteq> Next_of x"
    using assms(3-6) by (auto simp: r_def split: if_splits)
  then show ?thesis
    using assms(5) next_i
    by (intro chain_cong [OF assms(1)])
       (auto simp: read_remove_hash [OF r] pprev_remove_hash [OF r] simp del: read_link.simps)
qed

section \<open>The table as bucket lists\<close>

definition hashed :: "jraid5_conf \<Rightarrow> sid \<Rightarrow> bool" where
  "hashed conf i \<longleftrightarrow> hash_pprev (heap conf i) \<noteq> None"

definition hash_rep :: "jraid5_conf \<Rightarrow> (nat \<Rightarrow> sid list) \<Rightarrow> bool" where
  "hash_rep conf bs \<longleftrightarrow>
     (\<forall>b. chain conf (Bucket b) (bs b) \<and> distinct (bs b) \<and>
          (\<forall>i \<in> set (bs b). stripe_hash conf (sector (heap conf i)) = b)) \<and>
     (\<forall>i. hashed conf i \<longrightarrow> (\<exists>b. i \<in> set (bs b)))"

lemma hash_repD:
  assumes "hash_rep conf bs"
  shows "chain conf (Bucket b) (bs b)" "distinct (bs b)"
    "i \<in> set (bs b) \<Longrightarrow> stripe_hash conf (sector (heap conf i)) = b"
    "hashed conf i \<Longrightarrow> \<exists>b. i \<in> set (bs b)"
  using assms by (auto simp: hash_rep_def)

lemma hash_rep_hashed:
  assumes "hash_rep conf bs"
  shows "hashed conf i \<longleftrightarrow> i \<in> set (bs (stripe_hash conf (sector (heap conf i))))"
  using hash_repD [OF assms] chain_hashed by (metis hashed_def)

lemma hash_rep_disjoint:
  "hash_rep conf bs \<Longrightarrow> b \<noteq> b' \<Longrightarrow> set (bs b) \<inter> set (bs b') = {}"
  by (auto dest: hash_repD(3))

lemma hash_rep_remove:
  assumes rep: "hash_rep conf bs"
  shows "hash_rep (remove_hash i conf) (\<lambda>b. remove1 i (bs b))"
proof (cases "hash_pprev (heap conf i)")
  case None
  then have "i \<notin> set (bs b)" for b using chain_hashed hash_repD(1) [OF rep] by fastforce
  then show ?thesis using rep None by (simp add: remove1_idem)
next
  case (Some p)
  then obtain b0 where "i \<in> set (bs b0)" using hash_repD(4) [OF rep] by (auto simp: hashed_def)
  then obtain us vs where split: "bs b0 = us @ i # vs" by (auto dest: split_list)
  have d: "distinct (us @ i # vs)" and c: "chain conf (Bucket b0) (us @ i # vs)"
    using hash_repD(1,2) [OF rep, of b0] by (auto simp: split)
  have other: "i \<notin> set (bs b)" if "b \<noteq> b0" for b
    using hash_rep_disjoint [OF rep that] by (auto simp: split)
  have chain: "chain (remove_hash i conf) (Bucket b) (remove1 i (bs b))" for b
  proof (cases "b = b0")
    case True
    then show ?thesis using chain_remove [OF c d] d by (auto simp: split remove1_append)
  next
    case False
    have "chain (remove_hash i conf) (Bucket b) (bs b)"
    proof (rule chain_untouched_by_remove [OF hash_repD(1) [OF rep] c])
      show "set (bs b) \<inter> set (us @ i # vs) = {}"
        using hash_rep_disjoint [OF rep False] by (simp add: split)
    qed (use False in auto)
    then show ?thesis using other [OF False] by (simp add: remove1_idem)
  qed
  have still: "\<exists>b. x \<in> set (remove1 i (bs b))" if "hashed (remove_hash i conf) x" for x
  proof -
    have "x \<noteq> i" using that by (auto simp: hashed_def pprev_remove_hash [OF Some])
    moreover have "hashed conf x"
    proof (cases "hash_next (heap conf i) = Some x")
      case True
      then have "x \<in> set vs" using chain_next_in [OF c] by (auto split: list.splits)
      then show ?thesis using chain_hashed [OF c] by (simp add: hashed_def)
    qed (use that \<open>x \<noteq> i\<close> in \<open>simp add: hashed_def pprev_remove_hash [OF Some]\<close>)
    ultimately show ?thesis using hash_repD(4) [OF rep] by auto
  qed
  show ?thesis
    unfolding hash_rep_def
    using chain still hash_repD [OF rep] stripe_hash_buffer [of "remove_hash i conf" conf]
    by (auto dest: notin_set_remove1)
qed

lemma hash_rep_insert:
  assumes rep: "hash_rep conf bs" and new: "\<not> hashed conf i"
  defines "h \<equiv> stripe_hash conf (sector (heap conf i))"
  shows "hash_rep (insert_hash i conf) (bs(h := i # bs h))"
proof -
  have notin: "i \<notin> set (bs b)" for b
    using new chain_hashed hash_repD(1) [OF rep] by (fastforce simp: hashed_def)
  have tail: "chain (insert_hash i conf) (Next_of i) (bs h)"
  proof (cases "bs h")
    case Nil
    then show ?thesis using hash_repD(1) [OF rep, of h]
      by (simp add: read_insert_hash Let_def h_def del: read_link.simps(2))
  next
    case (Cons y ys)
    have c: "stripe_hashtbl conf h = Some y" "chain conf (Next_of y) ys"
      using hash_repD(1) [OF rep, of h] Cons by auto
    have "chain (insert_hash i conf) (Next_of y) ys"
      using c hash_repD(2) [OF rep, of h] notin [of h] Cons
      by (intro chain_cong [OF c(2)])
         (auto simp: read_insert_hash pprev_insert_hash Let_def simp del: read_link.simps
           simp flip: h_def)
    then show ?thesis using c notin [of h] Cons
      by (auto simp: read_insert_hash pprev_insert_hash Let_def simp del: read_link.simps(2)
           simp flip: h_def)
  qed
  have "chain (insert_hash i conf) (Bucket b) ((bs(h := i # bs h)) b)" for b
  proof (cases "b = h")
    case True
    then show ?thesis using tail
      by (simp add: read_insert_hash pprev_insert_hash Let_def h_def del: read_link.simps)
  next
    case False
    have "stripe_hashtbl conf h \<noteq> Some x" if "x \<in> set (bs b)" for x
    proof
      assume "stripe_hashtbl conf h = Some x"
      then have "x \<in> set (bs h)" using hash_repD(1) [OF rep, of h] by (cases "bs h") auto
      then show False using hash_rep_disjoint [OF rep False] that by auto
    qed
    then have "chain (insert_hash i conf) (Bucket b) (bs b)"
      using False notin [of b]
      by (intro chain_cong [OF hash_repD(1) [OF rep]])
         (auto simp: read_insert_hash pprev_insert_hash Let_def simp del: read_link.simps
           simp flip: h_def)
    then show ?thesis using False by simp
  qed
  moreover have "\<exists>b. x \<in> set ((bs(h := i # bs h)) b)" if "hashed (insert_hash i conf) x" for x
  proof (cases "x = i")
    case True
    then show ?thesis by (intro exI [of _ h]) simp
  next
    case False
    have "hashed conf x \<or> x \<in> set (bs h)"
      using that False hash_repD(1) [OF rep, of h]
      by (cases "bs h") (auto simp: hashed_def pprev_insert_hash Let_def split: if_splits
          simp flip: h_def)
    then show ?thesis using hash_repD(4) [OF rep, of x] by (auto simp: fun_upd_def)
  qed
  ultimately show ?thesis
    unfolding hash_rep_def
    using hash_repD [OF rep] notin stripe_hash_buffer [of "insert_hash i conf" conf]
    by (auto simp: h_def)
qed

lemma find_from_chain:
  "chain conf p xs \<Longrightarrow>
   find_from conf sect (read_link conf p) = Some (find (\<lambda>i. sector (heap conf i) = sect) xs)"
proof (induction xs arbitrary: p)
  case Nil
  then show ?case by (simp add: find_from.simps)
next
  case (Cons x xs)
  from Cons.prems have "find_from conf sect (hash_next (heap conf x))
      = Some (find (\<lambda>i. sector (heap conf i) = sect) xs)"
    using Cons.IH [of "Next_of x"] by simp
  then show ?case using Cons.prems by (subst find_from.simps) simp
qed

lemma find_stripe_rep:
  "hash_rep conf bs \<Longrightarrow>
   find_stripe conf sect = Some (find (\<lambda>i. sector (heap conf i) = sect) (bs (stripe_hash conf sect)))"
  using find_from_chain [OF hash_repD(1) [of conf bs "stripe_hash conf sect"]]
  by (simp add: find_stripe_def)

lemma empty_bucket_rep:
  assumes "hash_rep conf bs"
  shows "\<exists>conf'. empty_bucket b conf = Some conf' \<and> hash_rep conf' (bs(b := [])) \<and>
           active_stripes conf' = active_stripes conf"
  using assms
proof (induction "bs b" arbitrary: conf bs)
  case Nil
  then have "stripe_hashtbl conf b = None" using hash_repD(1) [OF Nil.prems, of b] by simp
  moreover have "bs(b := []) = bs" using Nil.hyps by (simp add: fun_upd_idem)
  ultimately show ?case using Nil.prems by (subst empty_bucket.simps) simp
next
  case (Cons i xs)
  have first: "stripe_hashtbl conf b = Some i"
    using hash_repD(1) [OF Cons.prems, of b] by (simp flip: Cons.hyps(2))
  let ?bs = "\<lambda>b. remove1 i (bs b)"
  have rep: "hash_rep (remove_hash i conf) ?bs" using Cons.prems by (rule hash_rep_remove)
  have "xs = ?bs b" by (simp flip: Cons.hyps(2))
  then obtain conf' where conf': "empty_bucket b (remove_hash i conf) = Some conf'"
    "hash_rep conf' (?bs(b := []))" "active_stripes conf' = active_stripes (remove_hash i conf)"
    using Cons.hyps(1) [OF _ rep] by blast
  have "i \<notin> set (bs c)" if "c \<noteq> b" for c
    using hash_rep_disjoint [OF Cons.prems that] by (auto simp flip: Cons.hyps(2))
  then have "?bs(b := []) = bs(b := [])" by (auto simp: fun_eq_iff remove1_idem)
  then show ?case using conf' first by (subst empty_bucket.simps) simp
qed

lemma empty_buckets_rep:
  assumes "hash_rep conf bs"
  shows "\<exists>conf'. empty_buckets cs conf = Some conf' \<and>
           hash_rep conf' (\<lambda>b. if b \<in> set cs then [] else bs b)"
  using assms
proof (induction cs arbitrary: conf bs)
  case (Cons c cs)
  obtain conf' where one: "empty_bucket c conf = Some conf'" "hash_rep conf' (bs(c := []))"
    using empty_bucket_rep [OF Cons.prems] by blast
  have eq: "(\<lambda>b. if b \<in> set cs then [] else (bs(c := [])) b)
      = (\<lambda>b. if b \<in> set (c # cs) then [] else bs b)" by auto
  show ?case using Cons.IH [OF one(2), unfolded eq] one(1) by simp
qed simp

section \<open>What the stripe cache needs of the table\<close>

text \<open>
  An index of objects by a key each object carries. \<open>lookup\<close> may not return
  (\<open>None\<close>), which the laws exclude.
\<close>

locale stripe_index =
  fixes lookup :: "'c \<Rightarrow> 'k \<Rightarrow> 'i option option"
    and add :: "'i \<Rightarrow> 'c \<Rightarrow> 'c"
    and drop :: "'i \<Rightarrow> 'c \<Rightarrow> 'c"
    and key :: "'c \<Rightarrow> 'i \<Rightarrow> 'k"
    and mem :: "'c \<Rightarrow> 'i \<Rightarrow> bool"
    and inv :: "'c \<Rightarrow> bool"
  assumes lookup_returns: "inv c \<Longrightarrow> lookup c k \<noteq> None"
    and lookup_sound: "inv c \<Longrightarrow> lookup c k = Some (Some i) \<Longrightarrow> mem c i \<and> key c i = k"
    and lookup_complete: "inv c \<Longrightarrow> lookup c k = Some None \<Longrightarrow> mem c i \<Longrightarrow> key c i \<noteq> k"
    and inv_add: "inv c \<Longrightarrow> \<not> mem c i \<Longrightarrow> inv (add i c)"
    and mem_add: "inv c \<Longrightarrow> \<not> mem c i \<Longrightarrow> mem (add i c) j \<longleftrightarrow> j = i \<or> mem c j"
    and key_add: "inv c \<Longrightarrow> key (add i c) j = key c j"
    and inv_drop: "inv c \<Longrightarrow> inv (drop i c)"
    and mem_drop: "inv c \<Longrightarrow> mem (drop i c) j \<longleftrightarrow> j \<noteq> i \<and> mem c j"
    and key_drop: "inv c \<Longrightarrow> key (drop i c) j = key c j"
begin

definition unique :: "'c \<Rightarrow> bool" where
  "unique c \<longleftrightarrow> (\<forall>i j. mem c i \<longrightarrow> mem c j \<longrightarrow> key c i = key c j \<longrightarrow> i = j)"

lemma lookup_iff:
  assumes "inv c" "unique c"
  shows "lookup c k = Some (Some i) \<longleftrightarrow> mem c i \<and> key c i = k"
proof
  assume i: "mem c i \<and> key c i = k"
  then obtain j where "lookup c k = Some (Some j)"
    using lookup_returns lookup_complete assms(1) by (metis not_None_eq)
  with i show "lookup c k = Some (Some i)"
    using lookup_sound assms by (metis unique_def)
qed (use lookup_sound assms in blast)

lemma unique_add:
  assumes "inv c" "unique c" "\<not> mem c i" "lookup c (key c i) = Some None"
  shows "unique (add i c)"
  using assms lookup_complete by (auto simp: unique_def mem_add key_add) metis+

lemma unique_drop: "inv c \<Longrightarrow> unique c \<Longrightarrow> unique (drop i c)"
  by (auto simp: unique_def mem_drop key_drop)

lemma lookup_add_same:
  assumes "inv c" "unique c" "\<not> mem c i" "lookup c (key c i) = Some None"
  shows "lookup (add i c) (key c i) = Some (Some i)"
  using assms unique_add [OF assms] by (subst lookup_iff) (auto simp: inv_add mem_add key_add)

lemma lookup_drop_same:
  assumes "inv c" "unique c" "mem c i"
  shows "lookup (drop i c) (key c i) = Some None"
proof -
  have "lookup (drop i c) (key c i) \<noteq> Some (Some j)" for j
    using assms unique_drop [OF assms(1,2)] lookup_sound [OF inv_drop [OF assms(1)], of i "key c i" j]
    by (auto simp: mem_drop key_drop unique_def)
  then show ?thesis using lookup_returns [OF inv_drop [OF assms(1)]] by (metis not_None_eq)
qed

end

definition hash_ok :: "jraid5_conf \<Rightarrow> bool" where
  "hash_ok conf \<longleftrightarrow> (\<exists>bs. hash_rep conf bs)"

interpretation stripes: stripe_index find_stripe insert_hash remove_hash
  "\<lambda>conf i. sector (heap conf i)" hashed hash_ok
proof
  fix conf :: jraid5_conf and k :: sector_t and i j :: sid
  assume "hash_ok conf"
  then obtain bs where rep: "hash_rep conf bs" by (auto simp: hash_ok_def)
  let ?h = "stripe_hash conf k"
  show "find_stripe conf k \<noteq> None" using find_stripe_rep [OF rep] by simp
  show "hashed conf i \<and> sector (heap conf i) = k" if "find_stripe conf k = Some (Some i)"
    using that find_stripe_rep [OF rep, of k] hash_rep_hashed [OF rep, of i]
    by (auto simp: find_Some_iff)
  show "sector (heap conf i) \<noteq> k" if "find_stripe conf k = Some None" "hashed conf i"
    using that find_stripe_rep [OF rep, of k] hash_rep_hashed [OF rep, of i]
    by (auto simp: find_None_iff)
  show "sector (heap (insert_hash i conf) j) = sector (heap conf j)"
    "sector (heap (remove_hash i conf) j) = sector (heap conf j)" by simp_all
  show "hash_ok (remove_hash i conf)" using hash_rep_remove [OF rep] by (auto simp: hash_ok_def)
  show "hashed (remove_hash i conf) j \<longleftrightarrow> j \<noteq> i \<and> hashed conf j"
    using hash_rep_hashed [OF rep, of j] hash_rep_hashed [OF hash_rep_remove [OF rep], of i j]
      hash_repD(2) [OF rep] stripe_hash_buffer [of "remove_hash i conf" conf]
    by (auto simp: set_remove1_eq)
  assume new: "\<not> hashed conf i"
  show "hash_ok (insert_hash i conf)" using hash_rep_insert [OF rep new] by (auto simp: hash_ok_def)
  show "hashed (insert_hash i conf) j \<longleftrightarrow> j = i \<or> hashed conf j"
    using hash_rep_hashed [OF rep, of j] hash_rep_hashed [OF hash_rep_insert [OF rep new], of j]
      stripe_hash_buffer [of "insert_hash i conf" conf]
    by auto
qed

section \<open>Properties\<close>

definition hash_example :: jraid5_conf where
  "hash_example = insert_hash 1 (insert_hash 0 (zero_conf\<lparr>buffer_size := 4096,
     heap := (\<lambda>i. (zero_stripe 3)\<lparr>sector := (if i = 0 then 8 else if i = 1 then 4104 else 16)\<rparr>)\<rparr>))"

lemma hash_rep_zero:
  "stripe_hashtbl conf = (\<lambda>_. None) \<Longrightarrow> (\<And>i. \<not> hashed conf i) \<Longrightarrow> hash_rep conf (\<lambda>_. [])"
  by (simp add: hash_rep_def)

lemma stripe_hash_4096: "buffer_size conf = 4096 \<Longrightarrow> stripe_hash conf s = unat (s div 8 AND 511)"
  by (simp add: stripe_hash_def stripe_consts)

lemma hash_rep_example: "hash_rep hash_example ((\<lambda>_. [])(1 := [1, 0]))"
proof -
  let ?c = "zero_conf\<lparr>buffer_size := 4096,
     heap := (\<lambda>i. (zero_stripe 3)\<lparr>sector := (if i = 0 then 8 else if i = 1 then 4104 else 16)\<rparr>)\<rparr>"
  have 0: "hash_rep ?c (\<lambda>_. [])"
    by (rule hash_rep_zero) (simp_all add: zero_conf_def hashed_def zero_stripe_def)
  have 1: "hash_rep (insert_hash 0 ?c) ((\<lambda>_. [])(1 := [0]))"
    using hash_rep_insert [OF 0, of 0] by (simp add: hashed_def zero_stripe_def stripe_hash_4096)
  have "\<not> hashed (insert_hash 0 ?c) 1"
    by (simp add: hashed_def pprev_insert_hash zero_stripe_def zero_conf_def)
  from hash_rep_insert [OF 1 this] show ?thesis
    by (simp add: hash_example_def stripe_hash_4096)
qed

text \<open>
  C18 The pointer code of the stripe hash is a hash table of bucket lists: \<open>__find_stripe\<close> ends
  and answers the first stripe of the sector's bucket that holds the sector, \<open>remove_hash\<close>
  takes a stripe out of its bucket and \<open>insert_hash\<close> puts an unhashed one at the front of the
  bucket of its sector, with every \<open>hash_pprev\<close> back pointer right again.
\<close>

theorem hash_code_refines_buckets:
  assumes rep: "hash_rep conf bs"
  shows "find_stripe conf sect =
           Some (find (\<lambda>i. sector (heap conf i) = sect) (bs (stripe_hash conf sect))) \<and>
         hash_rep (remove_hash i conf) (\<lambda>b. remove1 i (bs b)) \<and>
         (hashed conf i \<or>
          hash_rep (insert_hash i conf)
            (bs(stripe_hash conf (sector (heap conf i)) :=
               i # bs (stripe_hash conf (sector (heap conf i))))))"
  using find_stripe_rep [OF rep] hash_rep_remove [OF rep] hash_rep_insert [OF rep] by blast

theorem hash_code_refines_buckets_witness:
  "find_stripe hash_example 8 = Some (Some 0) \<and>
   hash_rep (remove_hash 0 hash_example) ((\<lambda>_. [])(1 := [1])) \<and>
   hash_rep (insert_hash 2 hash_example) ((\<lambda>_. [])(1 := [1, 0], 2 := [2]))"
proof -
  have s: "sector (heap hash_example i) = (if i = 0 then 8 else if i = 1 then 4104 else 16)" for i
    by (simp add: hash_example_def)
  have b: "buffer_size hash_example = 4096" by (simp add: hash_example_def)
  have eq: "(\<lambda>b. remove1 0 (if b = Suc 0 then [Suc 0, 0] else [])) = (\<lambda>_. [])(Suc 0 := [Suc 0])"
    by (auto simp: fun_eq_iff)
  have "\<not> hashed hash_example 2"
    using hash_rep_hashed [OF hash_rep_example, of 2] b s by (simp add: stripe_hash_4096)
  then show ?thesis
    using hash_code_refines_buckets [OF hash_rep_example, of 8 0]
      hash_code_refines_buckets [OF hash_rep_example, of 8 2] b
    by (simp add: s stripe_hash_4096 eq)
qed

text \<open>
  \<open>shrink_stripe_cache\<close> ends on a well-formed table with no active stripe and leaves
  every bucket empty and every stripe unhashed; with an active stripe it is the \<open>BUG()\<close> of
  the code.
\<close>

lemma shrink_stripe_cache_empties:
  assumes "hash_ok conf"
  shows "if active_stripes conf \<noteq> 0 then shrink_stripe_cache conf = Bug
    else \<exists>conf'. shrink_stripe_cache conf = Ret conf' \<and>
           stripe_hashtbl conf' = (\<lambda>_. None) \<and> (\<forall>i. \<not> hashed conf' i)"
proof (cases "active_stripes conf = 0")
  case True
  obtain bs where rep: "hash_rep conf bs" using assms by (auto simp: hash_ok_def)
  obtain conf' where conf': "empty_buckets [0..<NR_HASH] conf = Some conf'"
    "hash_rep conf' (\<lambda>b. if b \<in> set [0..<NR_HASH] then [] else bs b)"
    using empty_buckets_rep [OF rep] by blast
  have "bs b = []" if "\<not> b < NR_HASH" for b
    using hash_repD(3) [OF rep, of _ b] stripe_hash_less that by (cases "bs b") fastforce+
  then have "(\<lambda>b. if b \<in> set [0..<NR_HASH] then [] else bs b) = (\<lambda>_. [])" by auto
  then have rep': "hash_rep conf' (\<lambda>_. [])" using conf'(2) by simp
  have "stripe_hashtbl conf' b = None" for b using hash_repD(1) [OF rep', of b] by simp
  moreover have "\<not> hashed conf' i" for i using hash_repD(4) [OF rep', of i] by auto
  ultimately show ?thesis using True conf'(1) by (auto simp: shrink_stripe_cache_def)
qed (simp add: shrink_stripe_cache_def)

end
