(* ===== verification/Raid5_Geometry.thy ===== *)
theory Raid5_Geometry
  imports Jraid5_Types
begin

text \<open>
  The address arithmetic of the RAID-5 personality: \<open>jraid5_compute_sector\<close> (a sector of
  the array to the sector of its row, the data disk and the parity disk) and its inverse
  \<open>compute_blocknr\<close>, both from \<^verbatim>\<open>src/src/jraid5.c\<close>.

  The operations are translated on machine words, with the conversions of the C text written
  out (\<open>int\<close> to \<open>unsigned long\<close> sign-extends, \<open>unsigned int\<close> zero-extends, an assignment
  to a narrower variable truncates). \<open>None\<close> is a run with no defined result: a division by
  zero, or an unsupported algorithm, for which \<open>*pd_idx\<close> is never assigned.

  The abstract side is arithmetic on \<open>nat\<close>: \<open>spec_pd\<close> and \<open>spec_dd\<close> place the parity and
  the data chunks of a row. The locale \<open>parity_layout\<close> states what such a placement promises
  (parity and data slots inside the array, distinct, each disk used once per row) and derives
  from it that the map of sectors is injective and covers every slot of a row;
  it is interpreted on \<open>spec_pd\<close> / \<open>spec_dd\<close>.
\<close>

unbundle bit_operations_syntax

section \<open>The code\<close>

definition jraid5_compute_sector ::
    "jraid5_conf \<Rightarrow> sector_t \<Rightarrow> u32 \<Rightarrow> u32 \<Rightarrow> (sector_t \<times> u32 \<times> u32) option" where
  "jraid5_compute_sector conf r_sector rdisks ddisks =
     (let spc = (scast (signed_drop_bit 9 (chunk_size conf)) :: u64) in
      if spc = 0 \<or> ddisks = 0 then None else
      let chunk_number = r_sector div spc;
          chunk_offset = (ucast (r_sector mod spc) :: u32);
          stripe = chunk_number div ucast ddisks;
          dd_idx = (ucast (chunk_number mod ucast ddisks) :: u32);
          new_sector = stripe * spc + ucast chunk_offset
      in
      if level conf = 4 then Some (new_sector, dd_idx, ddisks)
      else if rdisks = 0 then None
      else if algorithm conf = ALGORITHM_LEFT_ASYMMETRIC then
        let pd_idx = (ucast (ucast ddisks - stripe mod ucast rdisks) :: u32)
        in Some (new_sector, if dd_idx \<ge> pd_idx then dd_idx + 1 else dd_idx, pd_idx)
      else if algorithm conf = ALGORITHM_RIGHT_ASYMMETRIC then
        let pd_idx = (ucast (stripe mod ucast rdisks) :: u32)
        in Some (new_sector, if dd_idx \<ge> pd_idx then dd_idx + 1 else dd_idx, pd_idx)
      else if algorithm conf = ALGORITHM_LEFT_SYMMETRIC then
        let pd_idx = (ucast (ucast ddisks - stripe mod ucast rdisks) :: u32)
        in Some (new_sector, (pd_idx + 1 + dd_idx) mod rdisks, pd_idx)
      else if algorithm conf = ALGORITHM_RIGHT_SYMMETRIC then
        let pd_idx = (ucast (stripe mod ucast rdisks) :: u32)
        in Some (new_sector, (pd_idx + 1 + dd_idx) mod rdisks, pd_idx)
      else None)"

text \<open>
  \<open>compute_blocknr\<close> keeps the code's check: it maps the block number it found forward
  again and answers 0 when the result is not the slot it started from.
\<close>

definition blocknr_index :: "jraid5_conf \<Rightarrow> cint \<Rightarrow> cint \<Rightarrow> cint \<Rightarrow> cint" where
  "blocknr_index conf rdisks pd i =
     (if algorithm conf = ALGORITHM_LEFT_ASYMMETRIC \<or> algorithm conf = ALGORITHM_RIGHT_ASYMMETRIC
      then (if sint pd < sint i then i - 1 else i)
      else if algorithm conf = ALGORITHM_LEFT_SYMMETRIC \<or> algorithm conf = ALGORITHM_RIGHT_SYMMETRIC
      then (if sint i < sint pd then i + rdisks else i) - (pd + 1)
      else i)"

definition compute_blocknr :: "jraid5_conf \<Rightarrow> stripe_head \<Rightarrow> cint \<Rightarrow> sector_t option" where
  "compute_blocknr conf sh dd_idx =
     (let data_disks = raid_disks conf - 1;
          sectors_per_chunk = signed_drop_bit 9 (chunk_size conf);
          base = (ucast sectors_per_chunk :: u64)
      in if base = 0 then None else
      let chunk_offset = (ucast (sector sh mod base) :: cint);
          stripe = sector sh div base;
          i = blocknr_index conf (raid_disks conf) (pd_idx sh) dd_idx;
          chunk_number = (ucast (stripe * scast data_disks + scast i) :: cint);
          r_sector = scast chunk_number * scast sectors_per_chunk + scast chunk_offset
      in case jraid5_compute_sector conf r_sector (raid_disks conf) data_disks of
           None \<Rightarrow> None
         | Some (check, dummy1, dummy2) \<Rightarrow>
             if check \<noteq> sector sh \<or> dummy1 \<noteq> dd_idx \<or> dummy2 \<noteq> pd_idx sh then Some 0
             else Some r_sector)"

section \<open>The placement of a row, on natural numbers\<close>

type_synonym layout = "cint \<times> cint" \<comment> \<open>level and algorithm\<close>

definition layout_of :: "jraid5_conf \<Rightarrow> layout" where
  "layout_of conf = (level conf, algorithm conf)"

definition layout_ok :: "layout \<Rightarrow> bool" where
  "layout_ok l \<longleftrightarrow> fst l = 4 \<or> snd l \<in> {ALGORITHM_LEFT_ASYMMETRIC, ALGORITHM_RIGHT_ASYMMETRIC,
     ALGORITHM_LEFT_SYMMETRIC, ALGORITHM_RIGHT_SYMMETRIC}"

definition spec_pd :: "layout \<Rightarrow> nat \<Rightarrow> nat \<Rightarrow> nat" where
  "spec_pd l n stripe =
     (if fst l = 4 then n - 1
      else if snd l \<in> {ALGORITHM_LEFT_ASYMMETRIC, ALGORITHM_LEFT_SYMMETRIC}
      then n - 1 - stripe mod n else stripe mod n)"

definition spec_dd :: "layout \<Rightarrow> nat \<Rightarrow> nat \<Rightarrow> nat \<Rightarrow> nat" where
  "spec_dd l n stripe c =
     (let pd = spec_pd l n stripe in
      if fst l = 4 then c
      else if snd l \<in> {ALGORITHM_LEFT_ASYMMETRIC, ALGORITHM_RIGHT_ASYMMETRIC}
      then (if pd \<le> c then c + 1 else c) else (pd + 1 + c) mod n)"

section \<open>What a parity placement promises\<close>

locale parity_layout =
  fixes ok :: "'l \<Rightarrow> bool"
    and pd :: "'l \<Rightarrow> nat \<Rightarrow> nat \<Rightarrow> nat"
    and dd :: "'l \<Rightarrow> nat \<Rightarrow> nat \<Rightarrow> nat \<Rightarrow> nat"
  assumes pd_less: "ok l \<Longrightarrow> 2 \<le> n \<Longrightarrow> pd l n s < n"
    and dd_less: "ok l \<Longrightarrow> 2 \<le> n \<Longrightarrow> c < n - 1 \<Longrightarrow> dd l n s c < n"
    and dd_not_pd: "ok l \<Longrightarrow> 2 \<le> n \<Longrightarrow> c < n - 1 \<Longrightarrow> dd l n s c \<noteq> pd l n s"
    and dd_inj: "ok l \<Longrightarrow> 2 \<le> n \<Longrightarrow> c < n - 1 \<Longrightarrow> c' < n - 1 \<Longrightarrow>
      dd l n s c = dd l n s c' \<Longrightarrow> c = c'"
begin

lemma data_slots:
  assumes "ok l" "2 \<le> n"
  shows "dd l n s ` {..<n - 1} = {..<n} - {pd l n s}"
proof (rule card_subset_eq)
  show "dd l n s ` {..<n - 1} \<subseteq> {..<n} - {pd l n s}"
    using dd_less dd_not_pd assms by auto
  have "inj_on (dd l n s) {..<n - 1}"
    using dd_inj [OF assms] by (auto intro!: inj_onI)
  then show "card (dd l n s ` {..<n - 1}) = card ({..<n} - {pd l n s})"
    using pd_less [OF assms] by (simp add: card_image)
qed simp

lemma slot_has_chunk:
  assumes "ok l" "2 \<le> n" "i < n" "i \<noteq> pd l n s"
  obtains c where "c < n - 1" "dd l n s c = i"
proof -
  have "i \<in> dd l n s ` {..<n - 1}" using data_slots [OF assms(1,2)] assms(3,4) by auto
  then show ?thesis using that by auto
qed

lemma place_inj:
  assumes ok: "ok l" "2 \<le> n" and spc: "0 < spc"
    and row: "r div spc div (n - 1) * spc + r mod spc = r' div spc div (n - 1) * spc + r' mod spc"
    and slot: "dd l n (r div spc div (n - 1)) (r div spc mod (n - 1))
      = dd l n (r' div spc div (n - 1)) (r' div spc mod (n - 1))"
  shows "r = r'"
proof -
  have stripe: "r div spc div (n - 1) = r' div spc div (n - 1)"
    using arg_cong [OF row, of "\<lambda>x. x div spc"] spc by simp
  have off: "r mod spc = r' mod spc"
    using arg_cong [OF row, of "\<lambda>x. x mod spc"] spc by simp
  have "r div spc mod (n - 1) = r' div spc mod (n - 1)"
  proof (rule dd_inj [OF ok])
    show "dd l n (r div spc div (n - 1)) (r div spc mod (n - 1))
        = dd l n (r div spc div (n - 1)) (r' div spc mod (n - 1))"
      using slot by (simp only: stripe)
  qed (use ok in simp_all)
  with stripe have "r div spc = r' div spc" by (rule div_mod_eqI)
  then show ?thesis using off by (rule div_mod_eqI)
qed

end

lemma mod_add_inj:
  assumes "c < n - 1" "c' < n - 1" "(p + c) mod n = (p + c') mod n"
  shows "c = (c' :: nat)"
proof -
  have *: "x = y" if "x \<le> y" "y < n" "(p + x) mod n = (p + y) mod n" for x y :: nat
  proof -
    have "n dvd (p + y) - (p + x)" using that by (metis add_le_cancel_left mod_eq_dvd_iff_nat)
    then show ?thesis using that by (auto dest: dvd_imp_le)
  qed
  show ?thesis
    using *[of c c'] *[of c' c] assms by (cases "c \<le> c'") force+
qed

lemma spec_pd_less: "2 \<le> n \<Longrightarrow> spec_pd l n s < n"
  by (auto simp: spec_pd_def)

lemma spec_dd_sym_not_pd:
  assumes "p < n" "c < n - (1::nat)" shows "(p + 1 + c) mod n \<noteq> p"
proof
  assume "(p + 1 + c) mod n = p"
  then have "(p + 1 + c) mod n = (p + 0) mod n" using assms by simp
  then have "n dvd (p + 1 + c) - (p + 0)" by (metis add.assoc le_add1 add_0_right mod_eq_dvd_iff_nat)
  then show False using assms by (auto dest: dvd_imp_le)
qed

interpretation spec: parity_layout layout_ok spec_pd spec_dd
proof
  fix l :: layout and n s c c' :: nat
  assume l: "layout_ok l" and n: "2 \<le> n"
  show "spec_pd l n s < n" using n by (rule spec_pd_less)
  have pd: "spec_pd l n s < n" using n by (rule spec_pd_less)
  assume c: "c < n - 1"
  show "spec_dd l n s c < n" using c n by (auto simp: spec_dd_def Let_def)
  show "spec_dd l n s c \<noteq> spec_pd l n s"
  proof (cases "fst l = 4")
    case True
    then show ?thesis using c by (simp add: spec_dd_def spec_pd_def)
  next
    case False
    then show ?thesis using spec_dd_sym_not_pd [OF pd c] by (auto simp: spec_dd_def Let_def)
  qed
  assume c': "c' < n - 1" and eq: "spec_dd l n s c = spec_dd l n s c'"
  show "c = c'"
    using eq mod_add_inj [OF c c', of "spec_pd l n s + 1"]
    by (auto simp: spec_dd_def Let_def split: if_splits)
qed

section \<open>The code implements the placement\<close>

definition geom_ok :: "jraid5_conf \<Rightarrow> u32 \<Rightarrow> bool" where
  "geom_ok conf n \<longleftrightarrow> nonneg (chunk_size conf) \<and> 512 \<le> unat (chunk_size conf) \<and>
     layout_ok (layout_of conf) \<and> 2 \<le> unat n \<and> nonneg n"

definition chunk_sectors :: "jraid5_conf \<Rightarrow> nat" where
  "chunk_sectors conf = unat (chunk_size conf) div 512"

text \<open>Where a sector goes, as one function of the sector: the abstract side of the refinement.\<close>

definition spec_place :: "jraid5_conf \<Rightarrow> nat \<Rightarrow> nat \<Rightarrow> nat \<times> nat \<times> nat" where
  "spec_place conf n r =
     (let spc = chunk_sectors conf; chunk = r div spc; stripe = chunk div (n - 1) in
      (stripe * spc + r mod spc, spec_dd (layout_of conf) n stripe (chunk mod (n - 1)),
       spec_pd (layout_of conf) n stripe))"

lemma sdrop_unat:
  assumes "nonneg w"
  shows "sint (signed_drop_bit k w) = int (unat w div 2 ^ k)"
  using assms by (simp add: sint_signed_drop_bit_eq sint_nonneg drop_bit_eq_div zdiv_int)

lemma scast_sdrop_unat:
  assumes "nonneg w"
  shows "unat (scast (signed_drop_bit k w) :: u64) = unat w div 2 ^ k"
proof -
  have "(scast (signed_drop_bit k w) :: u64) = word_of_int (int (unat w div 2 ^ k))"
    by (simp only: scast_eq sdrop_unat [OF assms])
  also have "\<dots> = of_nat (unat w div 2 ^ k)" by simp
  finally have "(scast (signed_drop_bit k w) :: u64) = of_nat (unat w div 2 ^ k)" .
  moreover have "unat w div 2 ^ k < 2 ^ LENGTH(64)"
    using assms unfolding nonneg_def by (intro le_less_trans [OF div_le_dividend]) simp
  ultimately show ?thesis by (simp only: unat_of_nat_small)
qed

lemma chunk_sectors_unat:
  "nonneg (chunk_size conf) \<Longrightarrow>
   unat (scast (signed_drop_bit 9 (chunk_size conf)) :: u64) = chunk_sectors conf"
  by (simp add: scast_sdrop_unat chunk_sectors_def)

lemma chunk_sectors_pos: "geom_ok conf n \<Longrightarrow> 0 < chunk_sectors conf"
  by (auto simp: geom_ok_def chunk_sectors_def div_greater_zero_iff)

lemma chunk_sectors_bound: "geom_ok conf n \<Longrightarrow> chunk_sectors conf < 2 ^ 22"
  unfolding geom_ok_def chunk_sectors_def nonneg_def by (intro less_mult_imp_div_less) simp

lemma row_sector_le:
  "(r div spc div k) * spc + r mod spc \<le> (r :: nat)"
proof -
  have "(r div spc div k) * spc \<le> (r div spc) * spc" by (simp add: div_le_dividend)
  then show ?thesis using div_mult_mod_eq [of r spc] by linarith
qed

text \<open>The row of a sector, its column and its offset in the chunk, as the code computes them.\<close>

definition row_word :: "jraid5_conf \<Rightarrow> u32 \<Rightarrow> sector_t \<Rightarrow> u64" where
  "row_word conf n r = r div scast (signed_drop_bit 9 (chunk_size conf)) div ucast (n - 1)"

definition column_word :: "jraid5_conf \<Rightarrow> u32 \<Rightarrow> sector_t \<Rightarrow> u32" where
  "column_word conf n r = ucast (r div scast (signed_drop_bit 9 (chunk_size conf)) mod ucast (n - 1))"

definition offset_word :: "jraid5_conf \<Rightarrow> sector_t \<Rightarrow> u32" where
  "offset_word conf r = ucast (r mod scast (signed_drop_bit 9 (chunk_size conf)))"

lemma place_words:
  assumes g: "geom_ok conf n"
  shows "unat (row_word conf n r) = unat r div chunk_sectors conf div (unat n - 1)"
    and "unat (column_word conf n r) = unat r div chunk_sectors conf mod (unat n - 1)"
    and "unat (offset_word conf r) = unat r mod chunk_sectors conf"
    and "unat (row_word conf n r * scast (signed_drop_bit 9 (chunk_size conf)) + ucast (offset_word conf r)) =
      unat r div chunk_sectors conf div (unat n - 1) * chunk_sectors conf + unat r mod chunk_sectors conf"
proof -
  let ?N = "unat n" and ?R = "unat r" and ?spc = "chunk_sectors conf"
  have N: "2 \<le> ?N" "?N < 2 ^ 31" using g by (auto simp: geom_ok_def nonneg_def)
  have S: "unat (scast (signed_drop_bit 9 (chunk_size conf)) :: u64) = ?spc"
    using g by (simp add: chunk_sectors_unat geom_ok_def)
  have spc: "0 < ?spc" "?spc < 2 ^ 22" using chunk_sectors_pos [OF g] chunk_sectors_bound [OF g] by simp_all
  have D: "unat (n - 1) = ?N - 1" using N by (simp add: unat_sub_no_wrap)
  show st: "unat (row_word conf n r) = ?R div ?spc div (?N - 1)" by (simp add: row_word_def unat_div S D)
  have "?R div ?spc mod (?N - 1) < 2 ^ 32" using N by (intro less_trans [OF mod_less_divisor]) auto
  then show "unat (column_word conf n r) = ?R div ?spc mod (?N - 1)"
    by (simp add: column_word_def unat_ucast_small unat_mod unat_div S D)
  have "?R mod ?spc < 2 ^ 32" using spc by (intro less_trans [OF mod_less_divisor]) auto
  then show off: "unat (offset_word conf r) = ?R mod ?spc"
    by (simp add: offset_word_def unat_ucast_small unat_mod S)
  have "?R div ?spc div (?N - 1) * ?spc + ?R mod ?spc \<le> ?R" by (rule row_sector_le)
  then have "unat (row_word conf n r) * ?spc + unat (offset_word conf r) < 2 ^ 64"
    using le_less_trans [OF _ u64_less [of r]] by (simp add: st off)
  then show "unat (row_word conf n r * scast (signed_drop_bit 9 (chunk_size conf)) + ucast (offset_word conf r)) =
      ?R div ?spc div (?N - 1) * ?spc + ?R mod ?spc"
    by (simp add: unat_word_ariths st S off)
qed

text \<open>The member of the parity chunk, counted from the last member and from the first.\<close>

lemma parity_words:
  fixes n :: u32
  assumes "2 \<le> unat n"
  shows "unat (ucast (ucast (n - 1) - st mod ucast n :: u64) :: u32) = unat n - 1 - unat (st :: u64) mod unat n"
    and "unat (ucast (st mod ucast n) :: u32) = unat st mod unat n"
proof -
  have m: "unat st mod unat n < unat n" using assms by simp
  then have lt: "unat st mod unat n < 2 ^ 32" using u32_less [of n] by simp
  then show "unat (ucast (st mod ucast n) :: u32) = unat st mod unat n"
    by (simp add: unat_ucast_small unat_mod)
  have "unat (n - 1) = unat n - 1" using assms by (simp add: unat_sub_no_wrap)
  then have "unat (ucast (n - 1) - st mod ucast n :: u64) = unat n - 1 - unat st mod unat n"
    using m by (subst unat_sub_no_wrap) (simp_all add: unat_mod)
  moreover have "unat n - 1 - unat st mod unat n < 2 ^ 32" using u32_less [of n] by simp
  ultimately show "unat (ucast (ucast (n - 1) - st mod ucast n :: u64) :: u32) = unat n - 1 - unat st mod unat n"
    by (simp add: unat_ucast_small)
qed

lemma compute_sector_words:
  fixes r :: sector_t
  assumes "geom_ok conf n"
  defines "st \<equiv> row_word conf n r" and "c \<equiv> column_word conf n r"
  defines "s \<equiv> st * scast (signed_drop_bit 9 (chunk_size conf)) + ucast (offset_word conf r)"
    and "pl \<equiv> (ucast (ucast (n - 1) - st mod ucast n :: u64) :: u32)" and "pr \<equiv> (ucast (st mod ucast n) :: u32)"
  shows "jraid5_compute_sector conf r n (n - 1) =
     (if level conf = 4 then Some (s, c, n - 1)
      else if algorithm conf = ALGORITHM_LEFT_ASYMMETRIC then Some (s, if c \<ge> pl then c + 1 else c, pl)
      else if algorithm conf = ALGORITHM_RIGHT_ASYMMETRIC then Some (s, if c \<ge> pr then c + 1 else c, pr)
      else if algorithm conf = ALGORITHM_LEFT_SYMMETRIC then Some (s, (pl + 1 + c) mod n, pl)
      else if algorithm conf = ALGORITHM_RIGHT_SYMMETRIC then Some (s, (pr + 1 + c) mod n, pr)
      else None)"
proof -
  have N: "2 \<le> unat n" using assms(1) by (simp add: geom_ok_def)
  have "unat (scast (signed_drop_bit 9 (chunk_size conf)) :: u64) \<noteq> 0"
    using assms(1) chunk_sectors_pos [OF assms(1)] by (simp add: chunk_sectors_unat geom_ok_def)
  then have "(scast (signed_drop_bit 9 (chunk_size conf)) :: u64) \<noteq> 0" by auto
  moreover have "n - 1 \<noteq> 0" "n \<noteq> 0" using N by auto
  ultimately show ?thesis
    by (simp add: jraid5_compute_sector_def Let_def s_def pl_def pr_def st_def c_def row_word_def column_word_def offset_word_def)
qed

lemma compute_sector_refines:
  assumes g: "geom_ok conf n"
  obtains ns dd pd where "jraid5_compute_sector conf r n (n - 1) = Some (ns, dd, pd)"
    and "(unat ns, unat dd, unat pd) = spec_place conf (unat n) (unat r)"
proof -
  let ?N = "unat n" and ?st = "row_word conf n r" and ?c = "column_word conf n r"
  have N: "2 \<le> ?N" "?N < 2 ^ 31" using g by (auto simp: geom_ok_def nonneg_def)
  note w = place_words [OF g, of r] and p = parity_words [OF N(1), of ?st]
  have c_less: "unat ?c < ?N - 1" using w(2) N by simp
  have inc: "unat (?c + 1) = unat ?c + 1" using c_less N by (subst unat_add_no_wrap) simp_all
  have sym: "unat ((q + 1 + ?c) mod n) = (unat q + 1 + unat ?c) mod ?N" if "unat q < ?N" for q :: u32
  proof -
    have "unat (q + 1 + ?c) = unat q + 1 + unat ?c" using that c_less N by (simp add: unat_word_ariths)
    then show ?thesis by (simp add: unat_mod)
  qed
  have D: "unat (n - 1) = ?N - 1" using N by (simp add: unat_sub_no_wrap)
  have p_less: "unat (ucast (ucast (n - 1) - ?st mod ucast n :: u64) :: u32) < ?N" "unat (ucast (?st mod ucast n) :: u32) < ?N"
    unfolding p using N by auto
  have place: "spec_place conf ?N (unat r) =
      (unat (?st * scast (signed_drop_bit 9 (chunk_size conf)) + ucast (offset_word conf r)),
       spec_dd (level conf, algorithm conf) ?N (unat ?st) (unat ?c), spec_pd (level conf, algorithm conf) ?N (unat ?st))"
    by (simp only: spec_place_def Let_def w layout_of_def)
  have lay: "layout_ok (level conf, algorithm conf)" using g by (simp add: geom_ok_def layout_of_def)
  have "case jraid5_compute_sector conf r n (n - 1) of None \<Rightarrow> False
    | Some (ns, dd, pd) \<Rightarrow> (unat ns, unat dd, unat pd) = spec_place conf ?N (unat r)"
    using lay unfolding place compute_sector_words [OF g]
    by (auto simp: layout_ok_def spec_dd_def spec_pd_def word_le_nat_alt inc sym [OF p_less(1)] sym [OF p_less(2)] D p
        algorithm_defs)
  then show ?thesis using that by (auto split: option.splits)
qed

section \<open>The inverse map\<close>

lemma sdrop_unat_32:
  assumes "nonneg w"
  shows "unat (signed_drop_bit k w) = unat w div 2 ^ k"
proof -
  have "signed_drop_bit k w = word_of_int (sint (signed_drop_bit k w))" by simp
  also have "\<dots> = of_nat (unat w div 2 ^ k)" by (simp only: sdrop_unat [OF assms] of_int_of_nat_eq)
  finally have "signed_drop_bit k w = of_nat (unat w div 2 ^ k)" .
  moreover have "unat w div 2 ^ k < 2 ^ LENGTH(32)"
    using assms unfolding nonneg_def by (intro le_less_trans [OF div_le_dividend]) simp
  ultimately show ?thesis by (simp only: unat_of_nat_small)
qed

lemma sdrop_nonneg: "nonneg w \<Longrightarrow> nonneg (signed_drop_bit k w)"
  unfolding nonneg_def
  by (subst sdrop_unat_32) (auto simp: nonneg_def intro: le_less_trans [OF div_le_dividend])

definition spec_index :: "layout \<Rightarrow> nat \<Rightarrow> nat \<Rightarrow> nat \<Rightarrow> nat" where
  "spec_index l n pd i =
     (if snd l \<in> {ALGORITHM_LEFT_ASYMMETRIC, ALGORITHM_RIGHT_ASYMMETRIC}
      then (if pd < i then i - 1 else i)
      else if snd l \<in> {ALGORITHM_LEFT_SYMMETRIC, ALGORITHM_RIGHT_SYMMETRIC}
      then (if i < pd then i + n else i) - (pd + 1)
      else i)"

lemma spec_index_dd:
  assumes l: "layout_ok l" and n: "2 \<le> n" and c: "c < n - 1"
  shows "spec_index l n (spec_pd l n s) (spec_dd l n s c) = c"
proof -
  have pd: "spec_pd l n s < n" using n by (rule spec_pd_less)
  have sym: "(if (p + 1 + c) mod n < p then (p + 1 + c) mod n + n else (p + 1 + c) mod n) - (p + 1) = c"
    if "p < n" for p
  proof (cases "p + 1 + c < n")
    case False
    then have "(p + 1 + c) mod n = p + 1 + c - n" using that c by (simp add: mod_if)
    then show ?thesis using False that c by auto
  qed simp
  show ?thesis
  proof (cases "fst l = 4")
    case True
    then show ?thesis using c by (auto simp: spec_index_def spec_dd_def spec_pd_def)
  next
    case False
    then show ?thesis using l c sym [OF pd]
      by (auto simp: spec_index_def spec_dd_def Let_def layout_ok_def algorithm_defs)
  qed
qed

lemma blocknr_index_refines:
  assumes "nonneg n" "unat pd < unat n" "unat i < unat n" "unat i \<noteq> unat pd"
  shows "unat (blocknr_index conf n pd i) = spec_index (layout_of conf) (unat n) (unat pd) (unat i)"
proof -
  have "nonneg pd" "nonneg i" using assms by (auto simp: nonneg_def)
  then have less: "sint pd < sint i \<longleftrightarrow> unat pd < unat i" "sint i < sint pd \<longleftrightarrow> unat i < unat pd"
    by (simp_all only: sint_nonneg of_nat_less_iff)
  have n: "unat n < 2 ^ 31" using assms by (simp add: nonneg_def)
  have dec: "unat (i - 1) = unat i - 1" if "unat pd < unat i"
    using that by (subst unat_sub_no_wrap) auto
  have pd1: "unat (pd + 1) = unat pd + 1"
    using assms n by (subst unat_add_no_wrap) auto
  have low: "unat (i + n - (pd + 1)) = unat i + unat n - (unat pd + 1)"
  proof -
    have "unat (i + n) = unat i + unat n"
      using assms n by (subst unat_add_no_wrap) auto
    then show ?thesis using assms by (subst unat_sub_no_wrap) (auto simp: pd1)
  qed
  have high: "unat (i - (pd + 1)) = unat i - (unat pd + 1)" if "\<not> unat i < unat pd"
    using that assms by (subst unat_sub_no_wrap) (auto simp: pd1)
  show ?thesis
    by (auto simp: blocknr_index_def spec_index_def layout_of_def less dec low high algorithm_defs)
qed

text \<open>
  The number \<open>compute_blocknr\<close> reconstructs before its check, when the row comes from
  \<open>jraid5_compute_sector\<close>: the chunk number, truncated to an \<open>int\<close>, times the chunk size.
\<close>

definition blocknr_guess :: "jraid5_conf \<Rightarrow> sector_t \<Rightarrow> sector_t" where
  "blocknr_guess conf r =
     (let chunk_number = (of_nat (unat r div chunk_sectors conf) :: cint) in
      scast chunk_number * of_nat (chunk_sectors conf) + of_nat (unat r mod chunk_sectors conf))"

lemma compute_blocknr_of_place:
  assumes g: "geom_ok conf (raid_disks conf)"
    and fwd: "jraid5_compute_sector conf r (raid_disks conf) (raid_disks conf - 1) = Some (ns, dd, pd)"
    and sh: "sector sh = ns" "pd_idx sh = pd"
  shows "compute_blocknr conf sh dd =
    (if jraid5_compute_sector conf (blocknr_guess conf r) (raid_disks conf) (raid_disks conf - 1)
        = Some (ns, dd, pd)
     then Some (blocknr_guess conf r) else Some 0)"
proof -
  let ?n = "raid_disks conf" and ?spc = "chunk_sectors conf" and ?R = "unat r"
  let ?N = "unat ?n" and ?chunk = "?R div ?spc" and ?l = "layout_of conf"
  let ?st = "?chunk div (?N - 1)" and ?c = "?chunk mod (?N - 1)"
  have cs: "nonneg (chunk_size conf)" and N: "2 \<le> ?N" "?N < 2147483648" "nonneg ?n"
    and l: "layout_ok ?l" using g by (auto simp: geom_ok_def nonneg_def)
  have spc: "0 < ?spc" "?spc < 4194304"
    using chunk_sectors_pos [OF g] chunk_sectors_bound [OF g] by simp_all
  define sp32 where "sp32 = signed_drop_bit 9 (chunk_size conf)"
  have sp32: "unat sp32 = ?spc" "nonneg sp32"
    using cs by (simp_all add: sp32_def sdrop_unat_32 sdrop_nonneg chunk_sectors_def)
  have place: "unat ns = ?st * ?spc + ?R mod ?spc" "unat dd = spec_dd ?l ?N ?st ?c"
    "unat pd = spec_pd ?l ?N ?st"
  proof -
    obtain ns' dd' pd' where "jraid5_compute_sector conf r ?n (?n - 1) = Some (ns', dd', pd')"
      "(unat ns', unat dd', unat pd') = spec_place conf ?N ?R"
      using g by (rule compute_sector_refines)
    then show "unat ns = ?st * ?spc + ?R mod ?spc" "unat dd = spec_dd ?l ?N ?st ?c"
      "unat pd = spec_pd ?l ?N ?st"
      using fwd by (auto simp: spec_place_def Let_def)
  qed
  have c_less: "?c < ?N - 1" using N by simp
  have idx: "unat (blocknr_index conf ?n pd dd) = ?c"
    using blocknr_index_refines [of ?n pd dd conf] N place c_less l
      spec.pd_less [OF l N(1)] spec.dd_less [OF l N(1) c_less] spec.dd_not_pd [OF l N(1) c_less]
    by (simp add: spec_index_dd)
  have idx_nn: "nonneg (blocknr_index conf ?n pd dd)"
  proof -
    have "?c < 2147483648" using c_less N by linarith
    then show ?thesis by (simp add: nonneg_def idx)
  qed
  have base: "unat (ucast sp32 :: u64) = ?spc" by (simp add: sp32)
  have mod: "unat (ns mod ucast sp32) = ?R mod ?spc" "unat (ns div ucast sp32) = ?st"
    using spc by (simp_all add: unat_mod unat_div sp32 place)
  have off_less: "?R mod ?spc < 4194304" by (rule less_trans [OF mod_less_divisor [OF spc(1)] spc(2)])
  define off where "off = (ucast (ns mod ucast sp32) :: cint)"
  have off: "unat off = ?R mod ?spc" "nonneg off"
    using off_less by (simp_all add: off_def unat_ucast_small mod nonneg_def)
  have d_nn: "unat (?n - 1) = ?N - 1" "nonneg (?n - 1)"
    using N by (simp_all add: unat_sub_no_wrap nonneg_def)
  define num where "num = ns div ucast sp32 * scast (?n - 1) + scast (blocknr_index conf ?n pd dd)"
  have num: "unat num = ?chunk"
  proof -
    have eq: "?st * (?N - 1) + ?c = ?chunk" by (rule div_mult_mod_eq)
    have "?chunk < 2 ^ LENGTH(64)"
      using le_less_trans [OF div_le_dividend u64_less [of r]] by simp
    then have less: "unat (ns div ucast sp32) * unat (scast (?n - 1) :: u64)
        + unat (scast (blocknr_index conf ?n pd dd) :: u64) < 2 ^ LENGTH(64)"
      by (simp only: mod idx unat_scast_nonneg [OF d_nn(2)] unat_scast_nonneg [OF idx_nn] d_nn(1) eq)
    show ?thesis
      unfolding num_def unat_mult_add_no_wrap [OF less]
      by (simp only: mod idx unat_scast_nonneg [OF d_nn(2)] unat_scast_nonneg [OF idx_nn] d_nn(1) eq)
  qed
  have "scast (ucast num :: cint) * scast sp32 + scast off = blocknr_guess conf r"
  proof -
    have a: "(ucast num :: cint) = of_nat ?chunk"
      by (metis num of_nat_unat)
    have b: "(scast sp32 :: u64) = of_nat ?spc" "(scast off :: u64) = of_nat (?R mod ?spc)"
      using sp32 off by (intro of_nat_unat_eq; simp only: unat_scast_nonneg)+
    show ?thesis by (simp only: a b blocknr_guess_def Let_def)
  qed
  moreover have "(ucast sp32 :: u64) \<noteq> 0" using base spc by (metis unat_0 less_irrefl)
  ultimately show ?thesis
    using g
    by (auto simp: compute_blocknr_def Let_def sh simp flip: sp32_def off_def num_def
        elim!: compute_sector_refines [of conf ?n "blocknr_guess conf r"])
qed

lemma blocknr_guess_exact:
  assumes "unat r div chunk_sectors conf < 2 ^ 31"
  shows "blocknr_guess conf r = r"
proof -
  let ?chunk = "unat r div chunk_sectors conf"
  have u: "unat (of_nat ?chunk :: cint) = ?chunk"
    using assms by (intro unat_of_nat_small) simp
  then have "nonneg (of_nat ?chunk)" using assms by (simp add: nonneg_def)
  then have "unat (scast (of_nat ?chunk :: cint) :: u64) = ?chunk" using u by simp
  then have "(scast (of_nat ?chunk :: cint) :: u64) = of_nat ?chunk" by (rule of_nat_unat_eq)
  then have "blocknr_guess conf r
      = of_nat (?chunk * chunk_sectors conf + unat r mod chunk_sectors conf)"
    by (simp only: blocknr_guess_def Let_def of_nat_mult of_nat_add)
  also have "\<dots> = of_nat (unat r)" by (simp only: div_mult_mod_eq)
  also have "\<dots> = r" by simp
  finally show ?thesis .
qed

lemma blocknr_guess_wrong:
  assumes g: "geom_ok conf n" and big: "2 ^ 31 \<le> unat r div chunk_sectors conf"
    and r: "unat r < 2 ^ 63"
  shows "blocknr_guess conf r \<noteq> r"
proof
  let ?spc = "int (chunk_sectors conf)" and ?chunk = "unat r div chunk_sectors conf"
  let ?x = "sint (of_nat ?chunk :: cint)" and ?off = "int (unat r mod chunk_sectors conf)"
  have spc: "0 < ?spc" "?spc < 4194304"
    using chunk_sectors_pos [OF g] chunk_sectors_bound [OF g] by simp_all
  have x: "?x < 2147483648" "- 2147483648 \<le> ?x"
    using sint_lt [of "of_nat ?chunk :: cint"] sint_ge [of "of_nat ?chunk :: cint"] by simp_all
  assume eq: "blocknr_guess conf r = r"
  have "blocknr_guess conf r = of_int (?x * ?spc + ?off)"
    by (simp only: blocknr_guess_def Let_def scast_eq of_int_add of_int_mult of_int_of_nat_eq)
  moreover have "r = of_int (int ?chunk * ?spc + ?off)"
  proof -
    have "int ?chunk * ?spc + ?off = int (unat r)"
      by (simp only: div_mult_mod_eq flip: of_nat_mult of_nat_add)
    then show ?thesis by simp
  qed
  ultimately have "(of_int (int ?chunk * ?spc + ?off) :: u64) = of_int (?x * ?spc + ?off)"
    using eq by simp
  then have "(int ?chunk * ?spc + ?off) mod 2 ^ 64 = (?x * ?spc + ?off) mod 2 ^ 64"
    by (simp only: word_of_int_eq_iff take_bit_eq_mod len_num1 len_bit0 len_bit1) simp
  then have "(2 ^ 64 :: int) dvd (int ?chunk * ?spc + ?off) - (?x * ?spc + ?off)"
    by (simp only: mod_eq_dvd_iff)
  then have dvd: "(2 ^ 64 :: int) dvd (int ?chunk - ?x) * ?spc" by (simp add: algebra_simps)
  have "0 < int ?chunk - ?x" using big x by simp
  then have pos: "0 < (int ?chunk - ?x) * ?spc" using spc by simp
  have "int ?chunk * ?spc \<le> int (unat r)"
    by (metis of_nat_mult of_nat_le_iff div_times_less_eq_dividend)
  moreover have "int (unat r) < 2 ^ 63"
    using r by (simp only: of_nat_less_numeral_power_cancel_iff)
  ultimately have a: "int ?chunk * ?spc < 2 ^ 63" by (rule le_less_trans)
  have "- ?x * ?spc \<le> 2147483648 * ?spc" using x spc by (intro mult_right_mono) auto
  then have "(int ?chunk - ?x) * ?spc < 2 ^ 64"
    using a spc by (simp add: left_diff_distrib)
  then show False using zdvd_imp_le [OF dvd pos] by simp
qed

section \<open>Properties\<close>

lemma compute_sector_place:
  assumes "geom_ok conf n" "jraid5_compute_sector conf r n (n - 1) = Some (ns, dd, pd)"
  shows "(unat ns, unat dd, unat pd) = spec_place conf (unat n) (unat r)"
  by (rule compute_sector_refines [OF assms(1), of r]) (use assms(2) in simp)

lemma compute_sector_total:
  "geom_ok conf n \<Longrightarrow> \<exists>ns dd pd. jraid5_compute_sector conf r n (n - 1) = Some (ns, dd, pd)"
  by (rule compute_sector_refines [of conf n r]) auto

lemma compute_sector_bounds:
  assumes g: "geom_ok conf n" and m: "jraid5_compute_sector conf r n (n - 1) = Some (ns, dd, pd)"
  shows "dd < n" "pd < n" "dd \<noteq> pd"
proof -
  have l: "layout_ok (layout_of conf)" and n: "2 \<le> unat n" using g by (auto simp: geom_ok_def)
  have c: "unat r div chunk_sectors conf mod (unat n - 1) < unat n - 1" using n by simp
  have "unat pd < unat n" "unat dd < unat n" "unat dd \<noteq> unat pd"
    using compute_sector_place [OF g m] spec.pd_less [OF l n] spec.dd_less [OF l n c]
      spec.dd_not_pd [OF l n c]
    by (auto simp: spec_place_def Let_def)
  then show "dd < n" "pd < n" "dd \<noteq> pd" by (auto simp: word_less_nat_alt)
qed

lemma compute_sector_eqI:
  assumes g: "geom_ok conf n" and p: "spec_place conf (unat n) (unat r) = (unat ns, unat dd, unat pd)"
  shows "jraid5_compute_sector conf r n (n - 1) = Some (ns, dd, pd)"
  by (rule compute_sector_refines [OF g, of r]) (use p in \<open>simp add: unat_inject\<close>)

lemma compute_sector_row_ex:
  assumes g: "geom_ok conf n" and m: "jraid5_compute_sector conf r n (n - 1) = Some (ns, dd, pd)"
    and room: "unat r + unat n * chunk_sectors conf < 2 ^ 64" and d: "d < n" "d \<noteq> pd"
  shows "\<exists>r'. jraid5_compute_sector conf r' n (n - 1) = Some (ns, d, pd)"
proof -
  let ?N = "unat n" and ?spc = "chunk_sectors conf" and ?l = "layout_of conf"
  let ?st = "unat r div ?spc div (?N - 1)" and ?off = "unat r mod ?spc"
  have l: "layout_ok ?l" and n: "2 \<le> ?N" using g by (auto simp: geom_ok_def)
  have spc: "0 < ?spc" using g by (rule chunk_sectors_pos)
  have place: "unat ns = ?st * ?spc + ?off" "unat pd = spec_pd ?l ?N ?st"
    using compute_sector_place [OF g m] by (auto simp: spec_place_def Let_def)
  have "unat d < ?N" "unat d \<noteq> spec_pd ?l ?N ?st"
    using d place by (auto simp: word_less_nat_alt simp flip: unat_inject)
  then obtain c where c: "c < ?N - 1" "spec_dd ?l ?N ?st c = unat d"
    by (rule spec.slot_has_chunk [OF l n])
  define R where "R = (?st * (?N - 1) + c) * ?spc + ?off"
  have off: "?off < ?spc" using spc by simp
  have "R \<le> unat r + ?N * ?spc"
  proof -
    have "?st * (?N - 1) \<le> unat r div ?spc" by simp
    then have "?st * (?N - 1) + c \<le> unat r div ?spc + ?N" using c by linarith
    then have "(?st * (?N - 1) + c) * ?spc \<le> (unat r div ?spc + ?N) * ?spc"
      by (rule mult_right_mono) simp
    then have "R \<le> (unat r div ?spc * ?spc + ?off) + ?N * ?spc"
      unfolding R_def add_mult_distrib by linarith
    then show ?thesis by (simp only: div_mult_mod_eq)
  qed
  then have R: "unat (of_nat R :: u64) = R"
    using room by (intro unat_of_nat_small) simp
  have "R div ?spc = ?st * (?N - 1) + c" "R mod ?spc = ?off"
    using off unfolding R_def by simp_all
  then have "spec_place conf ?N R = (unat ns, unat d, unat pd)"
    using c n place by (simp add: spec_place_def Let_def)
  then have "jraid5_compute_sector conf (of_nat R) n (n - 1) = Some (ns, d, pd)"
    by (intro compute_sector_eqI [OF g]) (simp only: R)
  then show ?thesis ..
qed

definition conf_example :: jraid5_conf where
  "conf_example = zero_conf\<lparr>chunk_size := 32768, level := 5, algorithm := ALGORITHM_LEFT_SYMMETRIC,
     raid_disks := 4\<rparr>"

lemma geom_ok_example: "geom_ok conf_example 4"
  by (simp add: geom_ok_def conf_example_def nonneg_def layout_ok_def layout_of_def)

text \<open>
  C15 \<open>jraid5_compute_sector\<close> implements the placement: for every sector of the array, on
  64-bit words, it returns the row sector, data disk and parity disk that the arithmetic
  specification \<open>spec_place\<close> gives for the sector's number, with no wrap-around anywhere,
  for all four algorithms and for level 4.
\<close>

theorem compute_sector_implements_placement:
  assumes "geom_ok conf n"
  shows "map_option (\<lambda>(ns, dd, pd). (unat ns, unat dd, unat pd))
      (jraid5_compute_sector conf r n (n - 1)) = Some (spec_place conf (unat n) (unat r))"
  by (rule compute_sector_refines [OF assms, of r]) simp

theorem compute_sector_implements_placement_witness:
  "map_option (\<lambda>(ns, dd, pd). (unat ns, unat dd, unat pd))
      (jraid5_compute_sector conf_example 200 4 (4 - 1)) = Some (72, 3, 2)"
  unfolding compute_sector_implements_placement [OF geom_ok_example]
  by (simp add: spec_place_def spec_dd_def spec_pd_def Let_def conf_example_def layout_of_def
      chunk_sectors_def algorithm_defs)

text \<open>
  No two sectors of the array share a place on the member disks: the pair of row sector
  and data disk determines the array sector.
\<close>

lemma compute_sector_injective:
  assumes g: "geom_ok conf n"
    and m: "jraid5_compute_sector conf r n (n - 1) = Some (ns, dd, pd)"
    and m': "jraid5_compute_sector conf r' n (n - 1) = Some (ns, dd, pd')"
  shows "r = r'"
proof -
  have "unat r = unat r'"
  proof (rule spec.place_inj)
    show "layout_ok (layout_of conf)" "2 \<le> unat n" using g by (auto simp: geom_ok_def)
    show "0 < chunk_sectors conf" using g by (rule chunk_sectors_pos)
  qed (use compute_sector_place [OF g m] compute_sector_place [OF g m'] in
      \<open>simp_all add: spec_place_def Let_def\<close>)
  then show ?thesis by (simp add: unat_inject)
qed

text \<open>
  Every row uses every member disk exactly once: the data disks of the sectors that
  share a row sector and its parity disk are all the disks of the array except the parity
  disk (for a row whose last sector still has a 64-bit number).
\<close>

lemma compute_sector_row_complete:
  assumes g: "geom_ok conf n"
    and m: "jraid5_compute_sector conf r n (n - 1) = Some (ns, dd, pd)"
    and room: "unat r + unat n * chunk_sectors conf < 2 ^ 64"
  shows "{d. \<exists>r'. jraid5_compute_sector conf r' n (n - 1) = Some (ns, d, pd)} = {d. d < n} - {pd}"
  using compute_sector_bounds [OF g] compute_sector_row_ex [OF g m room] by blast

text \<open>
  C16 \<open>compute_blocknr\<close> inverts \<open>jraid5_compute_sector\<close> as long as the chunk number fits a
  C \<open>int\<close>: asked for the data disk a sector was mapped to, in the row it was mapped to, it
  answers that sector.
\<close>

theorem compute_blocknr_inverse:
  assumes g: "geom_ok conf (raid_disks conf)"
    and m: "jraid5_compute_sector conf r (raid_disks conf) (raid_disks conf - 1) = Some (ns, dd, pd)"
    and sh: "sector sh = ns" "pd_idx sh = pd"
    and small: "unat r div chunk_sectors conf < 2 ^ 31"
  shows "compute_blocknr conf sh dd = Some r"
  using compute_blocknr_of_place [OF g m sh] by (simp add: blocknr_guess_exact [OF small] m)

theorem compute_blocknr_inverse_witness:
  "compute_blocknr conf_example ((zero_stripe 4)\<lparr>sector := 72, pd_idx := 2\<rparr>) 3 = Some 200"
proof (rule compute_blocknr_inverse)
  have n: "raid_disks conf_example = 4" by (simp add: conf_example_def)
  show "geom_ok conf_example (raid_disks conf_example)" unfolding n by (rule geom_ok_example)
  show "jraid5_compute_sector conf_example 200 (raid_disks conf_example)
      (raid_disks conf_example - 1) = Some (72, 3, 2)"
    by (simp add: jraid5_compute_sector_def conf_example_def Let_def algorithm_defs)
  show "unat (200 :: sector_t) div chunk_sectors conf_example < 2 ^ 31"
    by (simp add: chunk_sectors_def conf_example_def)
qed simp_all

text \<open>
  C17 From chunk number \<open>2 ^ 31\<close> on (below sector \<open>2 ^ 63\<close>) the truncation to \<open>int\<close> loses the
  block: the check at the end of \<open>compute_blocknr\<close> always notices and the answer is 0.
\<close>

theorem compute_blocknr_truncates:
  assumes g: "geom_ok conf (raid_disks conf)"
    and m: "jraid5_compute_sector conf r (raid_disks conf) (raid_disks conf - 1) = Some (ns, dd, pd)"
    and sh: "sector sh = ns" "pd_idx sh = pd"
    and big: "2 ^ 31 \<le> unat r div chunk_sectors conf" "unat r < 2 ^ 63"
  shows "compute_blocknr conf sh dd = Some 0"
proof -
  let ?g = "blocknr_guess conf r"
  have "?g \<noteq> r" using g big by (rule blocknr_guess_wrong)
  have "jraid5_compute_sector conf ?g (raid_disks conf) (raid_disks conf - 1) \<noteq> Some (ns, dd, pd)"
  proof
    assume m': "jraid5_compute_sector conf ?g (raid_disks conf) (raid_disks conf - 1)
      = Some (ns, dd, pd)"
    have "unat ?g = unat r"
    proof (rule spec.place_inj)
      show "layout_ok (layout_of conf)" "2 \<le> unat (raid_disks conf)" using g by (auto simp: geom_ok_def)
      show "0 < chunk_sectors conf" using g by (rule chunk_sectors_pos)
    qed (use compute_sector_place [OF g m] compute_sector_place [OF g m'] in
        \<open>simp_all add: spec_place_def Let_def\<close>)
    then show False using \<open>?g \<noteq> r\<close> by (simp add: unat_inject)
  qed
  then show ?thesis using compute_blocknr_of_place [OF g m sh] by simp
qed

theorem compute_blocknr_truncates_witness:
  "compute_blocknr (conf_example\<lparr>chunk_size := 4096\<rparr>)
     ((zero_stripe 4)\<lparr>sector := 5726623056, pd_idx := 1\<rparr>) 0 = Some 0"
proof (rule compute_blocknr_truncates)
  let ?c = "conf_example\<lparr>chunk_size := 4096\<rparr>"
  show "geom_ok ?c (raid_disks ?c)"
    by (simp add: geom_ok_def conf_example_def nonneg_def layout_ok_def layout_of_def)
  show "jraid5_compute_sector ?c 17179869184 (raid_disks ?c) (raid_disks ?c - 1)
      = Some (5726623056, 0, 1)"
    by (simp add: jraid5_compute_sector_def conf_example_def Let_def algorithm_defs)
  show "2 ^ 31 \<le> unat (17179869184 :: sector_t) div chunk_sectors ?c"
    by (simp add: chunk_sectors_def conf_example_def)
qed simp_all

end
