(* ===== verification/Stripe_Cache.thy ===== *)
theory Stripe_Cache
  imports Stripe_Hash Raid5_Geometry
begin

text \<open>
  The stripe cache of \<^verbatim>\<open>src/src/jraid5.c\<close>: reference counting (\<open>release_stripe__\<close>,
  \<open>__release_stripe\<close>, \<open>release_stripe\<close>), recycling (\<open>get_free_stripe\<close>, \<open>__init_stripe\<close>,
  \<open>__jraid5_build_block\<close>) and look-up (\<open>get_active_stripe\<close>).

  Each operation is one critical section under \<open>device_lock\<close>. \<open>get_active_stripe\<close> is one
  turn of its \<open>do\<close> loop: \<open>Wait\<close> is the call of \<open>wait_event_lock_irq\<close>, which gives the lock up
  until \<open>inactive_list\<close> is non-empty, after which the loop runs again from the start.

  The invariant \<open>cache_inv refs conf\<close> says how the counters, the two lists, the flag
  \<open>STRIPE_HANDLE\<close> and the hash table agree, for \<open>refs i\<close> outstanding references to each
  stripe \<open>i\<close>. Every operation is shown to keep it.
\<close>

unbundle bit_operations_syntax

section \<open>The code\<close>

definition on_lru :: "jraid5_conf \<Rightarrow> sid \<Rightarrow> bool" where
  "on_lru conf i \<longleftrightarrow> i \<in> set (inactive_list conf) \<or> i \<in> set (handle_list conf)"

definition list_del_init :: "sid \<Rightarrow> jraid5_conf \<Rightarrow> jraid5_conf" where
  "list_del_init i conf = conf\<lparr>inactive_list := remove1 i (inactive_list conf),
     handle_list := remove1 i (handle_list conf)\<rparr>"

definition atomic_add_count :: "int \<Rightarrow> sid \<Rightarrow> jraid5_conf \<Rightarrow> jraid5_conf" where
  "atomic_add_count d i = upd_stripe i (\<lambda>sh. sh\<lparr>sh_count := sh_count sh + d\<rparr>)"

text \<open>The old variant, with \<open>BUG()\<close> checks and without the handle list.\<close>

definition release_stripe_old :: "sid \<Rightarrow> jraid5_conf \<Rightarrow> jraid5_conf outcome" where
  "release_stripe_old i conf =
     (let conf1 = atomic_add_count (- 1) i conf in
      if sh_count (heap conf1 i) = 0 then
        if on_lru conf1 i then Bug
        else if active_stripes conf1 = 0 then Bug
        else Ret (conf1\<lparr>inactive_list := inactive_list conf1 @ [i],
                        active_stripes := active_stripes conf1 - 1,
                        stripe_wakeups := stripe_wakeups conf1 + 1\<rparr>)
      else Ret conf1)"

text \<open>\<open>__release_stripe\<close>; its two checks only print.\<close>

definition release_stripe_locked :: "sid \<Rightarrow> jraid5_conf \<Rightarrow> jraid5_conf" where
  "release_stripe_locked i conf =
     (let conf1 = atomic_add_count (- 1) i conf in
      if sh_count (heap conf1 i) = 0 then
        if bit (sh_state (heap conf1 i)) STRIPE_HANDLE then
          conf1\<lparr>handle_list := handle_list conf1 @ [i],
                thread := map_option jmd_wakeup_thread (thread conf1)\<rparr>
        else
          conf1\<lparr>inactive_list := inactive_list conf1 @ [i],
                active_stripes := active_stripes conf1 - 1,
                stripe_wakeups := stripe_wakeups conf1 + 1\<rparr>
      else conf1)"

definition release_stripe :: "sid \<Rightarrow> jraid5_conf \<Rightarrow> jraid5_conf" where
  "release_stripe i conf = release_stripe_locked i conf"

definition get_free_stripe :: "jraid5_conf \<Rightarrow> sid option \<times> jraid5_conf" where
  "get_free_stripe conf =
     (case inactive_list conf of
        [] \<Rightarrow> (None, conf)
      | i # rest \<Rightarrow>
          let conf1 = remove_hash i (conf\<lparr>inactive_list := rest\<rparr>)
          in (Some i, conf1\<lparr>active_stripes := active_stripes conf1 + 1\<rparr>))"

text \<open>\<open>__jraid5_build_block\<close>: \<open>bio_init\<close> zeroes the embedded bio.\<close>

definition build_block :: "jraid5_conf \<Rightarrow> nat \<Rightarrow> stripe_head \<Rightarrow> stripe_head option" where
  "build_block conf i sh =
     (let sh1 = upd_dev i (\<lambda>d. d\<lparr>
            req := zero_req\<lparr>rq_vcnt := rq_vcnt zero_req + 1, rq_max_vecs := rq_max_vecs zero_req + 1,
                            rq_vec_len := of_nat STRIPE_SIZE, rq_vec_offset := 0,
                            rq_sector := sector sh\<rparr>,
            dev_flags := 0\<rparr>) sh
      in if of_nat i \<noteq> pd_idx sh1 then
           map_option (\<lambda>b. upd_dev i (\<lambda>d. d\<lparr>dev_sector := b\<rparr>) sh1)
             (compute_blocknr conf sh1 (of_nat i))
         else Some sh1)"

definition dev_busy :: "r5dev \<Rightarrow> bool" where
  "dev_busy d \<longleftrightarrow> toread d \<noteq> [] \<or> towrite d \<noteq> [] \<or> written d \<noteq> [] \<or> bit (dev_flags d) R5_LOCKED"

primrec init_devs :: "jraid5_conf \<Rightarrow> nat \<Rightarrow> stripe_head \<Rightarrow> stripe_head outcome" where
  "init_devs conf 0 sh = Ret sh"
| "init_devs conf (Suc i) sh =
     (if dev_busy (dev sh ! i) then Bug
      else bind_outcome
             (of_option_bug (build_block conf i (upd_dev i (\<lambda>d. d\<lparr>dev_flags := 0\<rparr>) sh)))
             (init_devs conf i))"

definition init_stripe :: "sid \<Rightarrow> sector_t \<Rightarrow> cint \<Rightarrow> jraid5_conf \<Rightarrow> jraid5_conf outcome" where
  "init_stripe i sect pd conf =
     (if sh_count (heap conf i) \<noteq> 0 then Bug
      else if bit (sh_state (heap conf i)) STRIPE_HANDLE then Bug
      else
        let conf1 = remove_hash i conf;
            conf2 = upd_stripe i (\<lambda>sh. sh\<lparr>sector := sect, pd_idx := pd, sh_state := 0\<rparr>) conf1
        in bind_outcome (init_devs conf2 (unat (raid_disks conf2)) (heap conf2 i))
             (\<lambda>sh. Ret (insert_hash i (upd_stripe i (\<lambda>_. sh) conf2))))"

datatype active = Got sid | Null | Wait

definition get_active_stripe ::
    "jraid5_conf \<Rightarrow> sector_t \<Rightarrow> cint \<Rightarrow> bool \<Rightarrow> (active \<times> jraid5_conf) outcome" where
  "get_active_stripe conf sect pd noblock =
     bind_outcome (of_option_hang (find_stripe conf sect)) (\<lambda>found.
       case found of
         None \<Rightarrow>
           (case get_free_stripe conf of
              (None, conf1) \<Rightarrow> if noblock then Ret (Null, conf1) else Ret (Wait, conf1)
            | (Some i, conf1) \<Rightarrow>
                bind_outcome (init_stripe i sect pd conf1)
                  (\<lambda>conf2. Ret (Got i, atomic_add_count 1 i conf2)))
       | Some i \<Rightarrow>
           if sh_count (heap conf i) \<noteq> 0 then Ret (Got i, atomic_add_count 1 i conf)
           else
             let conf1 = (if bit (sh_state (heap conf i)) STRIPE_HANDLE then conf
                          else conf\<lparr>active_stripes := active_stripes conf + 1\<rparr>)
             in if on_lru conf1 i then Ret (Got i, atomic_add_count 1 i (list_del_init i conf1))
                else Bug)"

section \<open>Frames\<close>

lemma atomic_add_count_simps [simp]:
  "live (atomic_add_count d i conf) = live conf"
  "inactive_list (atomic_add_count d i conf) = inactive_list conf"
  "handle_list (atomic_add_count d i conf) = handle_list conf"
  "active_stripes (atomic_add_count d i conf) = active_stripes conf"
  "raid_disks (atomic_add_count d i conf) = raid_disks conf"
  "stripe_hashtbl (atomic_add_count d i conf) = stripe_hashtbl conf"
  "buffer_size (atomic_add_count d i conf) = buffer_size conf"
  "thread (atomic_add_count d i conf) = thread conf"
  "stripe_wakeups (atomic_add_count d i conf) = stripe_wakeups conf"
  "sh_count (heap (atomic_add_count d i conf) j) = sh_count (heap conf j) + (if j = i then d else 0)"
  "sh_state (heap (atomic_add_count d i conf) j) = sh_state (heap conf j)"
  "sector (heap (atomic_add_count d i conf) j) = sector (heap conf j)"
  "pd_idx (heap (atomic_add_count d i conf) j) = pd_idx (heap conf j)"
  "dev (heap (atomic_add_count d i conf) j) = dev (heap conf j)"
  "hash_next (heap (atomic_add_count d i conf) j) = hash_next (heap conf j)"
  "hash_pprev (heap (atomic_add_count d i conf) j) = hash_pprev (heap conf j)"
  by (simp_all add: atomic_add_count_def)

text \<open>The hash facts depend on a few fields only.\<close>

lemma hash_rep_cong:
  assumes rep: "hash_rep conf bs"
    and "stripe_hashtbl conf' = stripe_hashtbl conf" "buffer_size conf' = buffer_size conf"
    and "\<And>i. hashed conf i \<Longrightarrow> hash_next (heap conf' i) = hash_next (heap conf i)"
    and "\<And>i. hash_pprev (heap conf' i) = hash_pprev (heap conf i)"
    and "\<And>i. hashed conf i \<Longrightarrow> sector (heap conf' i) = sector (heap conf i)"
  shows "hash_rep conf' bs"
proof -
  have link: "read_link conf' (Next_of i) = read_link conf (Next_of i)" if "hashed conf i" for i
    using that assms by simp
  have "chain conf' (Bucket b) (bs b)" for b
  proof (rule chain_cong [OF hash_repD(1) [OF rep, of b]])
    show "read_link conf' (Bucket b) = read_link conf (Bucket b)" using assms(2) by simp
    fix x assume "x \<in> set (bs b)"
    then have "hashed conf x" using chain_hashed [OF hash_repD(1) [OF rep]] by (simp add: hashed_def)
    then show "read_link conf' (Next_of x) = read_link conf (Next_of x) \<and>
        hash_pprev (heap conf' x) = hash_pprev (heap conf x)"
      using link assms(5) by blast
  qed
  moreover have "stripe_hash conf' (sector (heap conf' i)) = b" if "i \<in> set (bs b)" for i b
  proof -
    have "hashed conf i" using chain_hashed [OF hash_repD(1) [OF rep] that] by (simp add: hashed_def)
    then show ?thesis
      using hash_repD(3) [OF rep that] assms(6) stripe_hash_buffer [OF assms(3)] by simp
  qed
  moreover have "hashed conf' i \<Longrightarrow> hashed conf i" for i using assms(5) by (simp add: hashed_def)
  ultimately show ?thesis using hash_repD(2,4) [OF rep] by (auto simp: hash_rep_def)
qed

lemma hash_ok_cong:
  assumes "hash_ok conf"
    and "stripe_hashtbl conf' = stripe_hashtbl conf" "buffer_size conf' = buffer_size conf"
    and "\<And>i. hashed conf i \<Longrightarrow> hash_next (heap conf' i) = hash_next (heap conf i)"
    and "\<And>i. hash_pprev (heap conf' i) = hash_pprev (heap conf i)"
    and "\<And>i. hashed conf i \<Longrightarrow> sector (heap conf' i) = sector (heap conf i)"
  shows "hash_ok conf'"
  using assms hash_rep_cong unfolding hash_ok_def by metis

lemma build_block_frame:
  assumes "build_block conf i sh = Some sh'"
  shows "hash_next sh' = hash_next sh" "hash_pprev sh' = hash_pprev sh" "sector sh' = sector sh"
    "pd_idx sh' = pd_idx sh" "sh_state sh' = sh_state sh" "sh_count sh' = sh_count sh"
    "length (dev sh') = length (dev sh)"
  using assms by (auto simp: build_block_def Let_def split: if_splits)

lemma init_devs_frame:
  assumes "init_devs conf n sh = Ret sh'"
  shows "hash_next sh' = hash_next sh" "hash_pprev sh' = hash_pprev sh" "sector sh' = sector sh"
    "pd_idx sh' = pd_idx sh" "sh_state sh' = sh_state sh" "sh_count sh' = sh_count sh"
    "length (dev sh') = length (dev sh)"
  using assms
  by (induction n arbitrary: sh)
     (auto simp: bind_outcome_Ret_iff build_block_frame split: if_splits)

section \<open>The invariant\<close>

definition lists_ok :: "jraid5_conf \<Rightarrow> bool" where
  "lists_ok conf \<longleftrightarrow> distinct (live conf) \<and> distinct (inactive_list conf @ handle_list conf) \<and>
     set (inactive_list conf @ handle_list conf) \<subseteq> set (live conf) \<and>
     active_stripes conf = int (length (live conf)) - int (length (inactive_list conf))"

definition refs_ok :: "(sid \<Rightarrow> nat) \<Rightarrow> jraid5_conf \<Rightarrow> bool" where
  "refs_ok refs conf \<longleftrightarrow> (\<forall>i. refs i \<noteq> 0 \<longrightarrow> i \<in> set (live conf)) \<and>
     (\<forall>i \<in> set (live conf). sh_count (heap conf i) = int (refs i) \<and> (refs i = 0 \<longleftrightarrow> on_lru conf i))"

definition flags_ok :: "jraid5_conf \<Rightarrow> bool" where
  "flags_ok conf \<longleftrightarrow>
     (\<forall>i \<in> set (inactive_list conf). \<not> bit (sh_state (heap conf i)) STRIPE_HANDLE) \<and>
     (\<forall>i \<in> set (handle_list conf). bit (sh_state (heap conf i)) STRIPE_HANDLE)"

definition index_ok :: "jraid5_conf \<Rightarrow> bool" where
  "index_ok conf \<longleftrightarrow> hash_ok conf \<and> stripes.unique conf \<and>
     (\<forall>i. hashed conf i \<longrightarrow> i \<in> set (live conf)) \<and>
     (\<forall>i \<in> set (live conf). i \<in> set (inactive_list conf) \<or> hashed conf i)"

definition cache_inv :: "(sid \<Rightarrow> nat) \<Rightarrow> jraid5_conf \<Rightarrow> bool" where
  "cache_inv refs conf \<longleftrightarrow> lists_ok conf \<and> refs_ok refs conf \<and> flags_ok conf \<and> index_ok conf \<and>
     (\<forall>i \<in> set (live conf). length (dev (heap conf i)) = unat (raid_disks conf))"

lemmas cache_inv_defs = cache_inv_def lists_ok_def refs_ok_def flags_ok_def index_ok_def on_lru_def

lemma cache_invD:
  assumes "cache_inv refs conf"
  shows "lists_ok conf" "refs_ok refs conf" "flags_ok conf" "index_ok conf"
    "i \<in> set (live conf) \<Longrightarrow> length (dev (heap conf i)) = unat (raid_disks conf)"
  using assms by (auto simp: cache_inv_def)

lemma cache_inv_held:
  assumes "cache_inv refs conf" "refs i \<noteq> 0"
  shows "i \<in> set (live conf)" "\<not> on_lru conf i" "sh_count (heap conf i) = int (refs i)" "hashed conf i"
proof -
  show live: "i \<in> set (live conf)" using assms by (auto simp: cache_inv_def refs_ok_def)
  then show lru: "\<not> on_lru conf i" and "sh_count (heap conf i) = int (refs i)"
    using assms by (auto simp: cache_inv_def refs_ok_def)
  show "hashed conf i"
    using assms live lru by (auto simp: cache_inv_def index_ok_def on_lru_def)
qed

lemma unique_cong:
  assumes "stripes.unique conf" and "\<And>i. hashed conf' i \<longleftrightarrow> hashed conf i"
    and "\<And>i. hashed conf i \<Longrightarrow> sector (heap conf' i) = sector (heap conf i)"
  shows "stripes.unique conf'"
  using assms unfolding stripes.unique_def by metis

lemma index_ok_cong:
  assumes ok: "index_ok conf"
    and "stripe_hashtbl conf' = stripe_hashtbl conf" "buffer_size conf' = buffer_size conf"
    and "live conf' = live conf"
    and next_eq: "\<And>i. hashed conf i \<Longrightarrow> hash_next (heap conf' i) = hash_next (heap conf i)"
    and pprev_eq: "\<And>i. hash_pprev (heap conf' i) = hash_pprev (heap conf i)"
    and sec: "\<And>i. hashed conf i \<Longrightarrow> sector (heap conf' i) = sector (heap conf i)"
    and hashed: "\<And>i. i \<in> set (live conf) \<Longrightarrow> i \<in> set (inactive_list conf) \<Longrightarrow>
      i \<in> set (inactive_list conf') \<or> hashed conf i"
  shows "index_ok conf'"
proof -
  have h: "hashed conf' i \<longleftrightarrow> hashed conf i" for i using pprev_eq by (simp add: hashed_def)
  have "hash_ok conf'"
    by (rule hash_ok_cong [of conf]) (use ok in \<open>simp add: index_ok_def\<close>, fact+)
  moreover have "stripes.unique conf'"
    by (rule unique_cong [of conf]) (use ok in \<open>simp add: index_ok_def\<close>, fact h, fact sec)
  moreover have "i \<in> set (live conf')" if "hashed conf' i" for i
    using that ok h assms(4) by (simp add: index_ok_def)
  moreover have "i \<in> set (inactive_list conf') \<or> hashed conf' i" if "i \<in> set (live conf')" for i
    using that ok h hashed [of i] assms(4) by (auto simp: index_ok_def)
  ultimately show ?thesis by (simp add: index_ok_def)
qed

section \<open>Releasing a reference\<close>

lemma release_stripe_frame [simp]:
  "live (release_stripe i conf) = live conf"
  "raid_disks (release_stripe i conf) = raid_disks conf"
  "stripe_hashtbl (release_stripe i conf) = stripe_hashtbl conf"
  "buffer_size (release_stripe i conf) = buffer_size conf"
  "sh_state (heap (release_stripe i conf) j) = sh_state (heap conf j)"
  "sector (heap (release_stripe i conf) j) = sector (heap conf j)"
  "pd_idx (heap (release_stripe i conf) j) = pd_idx (heap conf j)"
  "dev (heap (release_stripe i conf) j) = dev (heap conf j)"
  "hash_next (heap (release_stripe i conf) j) = hash_next (heap conf j)"
  "hash_pprev (heap (release_stripe i conf) j) = hash_pprev (heap conf j)"
  "sh_count (heap (release_stripe i conf) j) = sh_count (heap conf j) - (if j = i then 1 else 0)"
  by (simp_all add: release_stripe_def release_stripe_locked_def Let_def)

lemma hashed_release_stripe [simp]: "hashed (release_stripe i conf) = hashed conf"
  by (simp add: hashed_def fun_eq_iff)

lemma release_stripe_lists:
  "inactive_list (release_stripe i conf) = (if sh_count (heap conf i) = 1 \<and>
     \<not> bit (sh_state (heap conf i)) STRIPE_HANDLE then inactive_list conf @ [i] else inactive_list conf)"
  "handle_list (release_stripe i conf) = (if sh_count (heap conf i) = 1 \<and>
     bit (sh_state (heap conf i)) STRIPE_HANDLE then handle_list conf @ [i] else handle_list conf)"
  "active_stripes (release_stripe i conf) = (if sh_count (heap conf i) = 1 \<and>
     \<not> bit (sh_state (heap conf i)) STRIPE_HANDLE then active_stripes conf - 1 else active_stripes conf)"
  by (auto simp: release_stripe_def release_stripe_locked_def Let_def)

lemma release_stripe_inv:
  assumes inv: "cache_inv refs conf" and ref: "refs i \<noteq> 0"
  shows "cache_inv (refs(i := refs i - 1)) (release_stripe i conf)"
proof -
  note held = cache_inv_held [OF inv ref]
  have one: "sh_count (heap conf i) = 1 \<longleftrightarrow> refs i = 1" using held by simp
  have "lists_ok (release_stripe i conf)"
    using cache_invD(1) [OF inv] held by (auto simp: lists_ok_def release_stripe_lists on_lru_def)
  moreover have "refs_ok (refs(i := refs i - 1)) (release_stripe i conf)"
    using cache_invD(2) [OF inv] ref one held(2)
    by (auto simp: refs_ok_def on_lru_def release_stripe_lists of_nat_diff)
  moreover have "flags_ok (release_stripe i conf)"
    using cache_invD(3) [OF inv] by (auto simp: flags_ok_def release_stripe_lists)
  moreover have "index_ok (release_stripe i conf)"
    using cache_invD(4) [OF inv]
    by (rule index_ok_cong) (auto simp: release_stripe_lists)
  ultimately show ?thesis using cache_invD(5) [OF inv] by (simp add: cache_inv_def)
qed

section \<open>Taking a reference\<close>

lemma find_stripe_total: "index_ok conf \<Longrightarrow> \<exists>r. find_stripe conf sect = Some r"
  using stripes.lookup_returns by (auto simp: index_ok_def)

lemma get_active_hit_inv:
  assumes inv: "cache_inv refs conf" and found: "find_stripe conf sect = Some (Some i)"
  shows "\<exists>conf'. get_active_stripe conf sect pd nb = Ret (Got i, conf') \<and>
    cache_inv (refs(i := refs i + 1)) conf' \<and> sector (heap conf' i) = sect"
proof (cases "refs i = 0")
  case False
  note held = cache_inv_held [OF inv False]
  let ?c = "atomic_add_count 1 i conf"
  have "get_active_stripe conf sect pd nb = Ret (Got i, ?c)"
    using False held found by (simp add: get_active_stripe_def)
  moreover have "cache_inv (refs(i := refs i + 1)) ?c"
    using inv False held unfolding cache_inv_def
    by (auto simp: lists_ok_def refs_ok_def flags_ok_def on_lru_def intro!: index_ok_cong [of conf])
  moreover have "sector (heap ?c i) = sect"
    using stripes.lookup_sound [OF _ found] cache_invD(4) [OF inv] by (simp add: index_ok_def)
  ultimately show ?thesis by blast
next
  case True
  have hit: "hashed conf i" "sector (heap conf i) = sect"
    using stripes.lookup_sound [OF _ found] cache_invD(4) [OF inv] by (auto simp: index_ok_def)
  then have live: "i \<in> set (live conf)" using cache_invD(4) [OF inv] by (simp add: index_ok_def)
  then have cnt: "sh_count (heap conf i) = 0" and lru: "on_lru conf i"
    using cache_invD(2) [OF inv] True by (auto simp: refs_ok_def)
  let ?h = "bit (sh_state (heap conf i)) STRIPE_HANDLE"
  let ?c1 = "if ?h then conf else conf\<lparr>active_stripes := active_stripes conf + 1\<rparr>"
  let ?c = "atomic_add_count 1 i (list_del_init i ?c1)"
  have "on_lru ?c1 i" using lru by (simp add: on_lru_def)
  then have "get_active_stripe conf sect pd nb = Ret (Got i, ?c)"
    using cnt found by (simp add: get_active_stripe_def Let_def)
  moreover have "cache_inv (refs(i := refs i + 1)) ?c"
  proof -
    have l: "distinct (inactive_list conf)" "distinct (handle_list conf)"
      "set (inactive_list conf) \<inter> set (handle_list conf) = {}"
      using cache_invD(1) [OF inv] by (auto simp: lists_ok_def)
    have side: "i \<in> set (handle_list conf) \<longleftrightarrow> ?h" "i \<in> set (inactive_list conf) \<longleftrightarrow> \<not> ?h"
      using lru cache_invD(3) [OF inv] by (auto simp: on_lru_def flags_ok_def)
    have "lists_ok ?c"
      using cache_invD(1) [OF inv] l side
      by (auto simp: lists_ok_def list_del_init_def set_remove1_eq length_remove1 of_nat_diff
          remove1_idem Suc_le_eq dest: length_pos_if_in_set)
    moreover have "refs_ok (refs(i := refs i + 1)) ?c"
      using cache_invD(2) [OF inv] l live True
      by (auto simp: refs_ok_def on_lru_def list_del_init_def set_remove1_eq)
    moreover have "flags_ok ?c"
      using cache_invD(3) [OF inv] by (auto simp: flags_ok_def list_del_init_def dest: notin_set_remove1)
    moreover have "index_ok ?c"
      using cache_invD(4) [OF inv] hit
      by (rule_tac index_ok_cong [of conf]) (auto simp: list_del_init_def set_remove1_eq l)
    ultimately show ?thesis using cache_invD(5) [OF inv] by (simp add: cache_inv_def list_del_init_def)
  qed
  moreover have "sector (heap ?c i) = sect" using hit by (simp add: list_del_init_def)
  ultimately show ?thesis by blast
qed

lemma init_stripe_Ret:
  assumes "init_stripe i sect pd c = Ret c'" and "\<not> hashed c i"
  obtains sh where "c' = insert_hash i (upd_stripe i (\<lambda>_. sh) c)" "sector sh = sect" "pd_idx sh = pd"
    "sh_state sh = 0" "sh_count sh = 0" "hash_next sh = hash_next (heap c i)" "hash_pprev sh = None"
    "length (dev sh) = length (dev (heap c i))"
proof -
  have p: "hash_pprev (heap c i) = None" using assms(2) by (simp add: hashed_def)
  let ?c = "upd_stripe i (\<lambda>sh. sh\<lparr>sector := sect, pd_idx := pd, sh_state := 0\<rparr>) c"
  obtain sh where sh: "init_devs ?c (unat (raid_disks c)) (heap ?c i) = Ret sh"
    and c': "c' = insert_hash i (upd_stripe i (\<lambda>_. sh) ?c)" and cnt: "sh_count (heap c i) = 0"
    using assms(1) p by (auto simp: init_stripe_def Let_def bind_outcome_Ret_iff split: if_splits)
  have "upd_stripe i (\<lambda>_. sh) ?c = upd_stripe i (\<lambda>_. sh) c" by (simp add: upd_stripe_def)
  then show ?thesis
    using that [of sh] c' init_devs_frame [OF sh] p cnt by simp
qed

lemma get_active_miss_empty:
  assumes "find_stripe conf sect = Some None" and "inactive_list conf = []"
  shows "get_active_stripe conf sect pd nb = Ret (if nb then Null else Wait, conf)"
  using assms by (simp add: get_active_stripe_def get_free_stripe_def)

lemma free_stripe_index:
  assumes inv: "cache_inv refs conf" and ina: "inactive_list conf = i # rest"
    and c1: "c1 = (remove_hash i (conf\<lparr>inactive_list := rest\<rparr>))\<lparr>active_stripes := a\<rparr>"
  shows "hash_ok c1" "stripes.unique c1" "hashed c1 j \<longleftrightarrow> j \<noteq> i \<and> hashed conf j"
    "sector (heap c1 j) = sector (heap conf j)"
proof -
  let ?c0 = "conf\<lparr>inactive_list := rest\<rparr>"
  have "hash_ok conf" and "stripes.unique conf" using cache_invD(4) [OF inv] by (auto simp: index_ok_def)
  then have ok: "hash_ok ?c0" and u: "stripes.unique ?c0"
    by (auto intro: hash_ok_cong [of conf] unique_cong [of conf] simp: hashed_def)
  show s: "sector (heap c1 j) = sector (heap conf j)" for j by (simp add: c1)
  have h: "hashed c1 j \<longleftrightarrow> hashed (remove_hash i ?c0) j" for j by (simp add: c1 hashed_def)
  then show "hashed c1 j \<longleftrightarrow> j \<noteq> i \<and> hashed conf j"
    using stripes.mem_drop [OF ok, of i j] by (simp add: hashed_def)
  show "hash_ok c1"
    by (rule hash_ok_cong [OF stripes.inv_drop [OF ok, of i]]) (simp_all add: c1)
  show "stripes.unique c1"
    by (rule unique_cong [OF stripes.unique_drop [OF ok u, of i]]) (fact h, simp add: s)
qed

lemma get_active_miss_inv:
  assumes inv: "cache_inv refs conf" and miss: "find_stripe conf sect = Some None"
    and ina: "inactive_list conf = i # rest"
    and ret: "get_active_stripe conf sect pd nb = Ret (a, conf')"
  shows "a = Got i \<and> cache_inv (refs(i := refs i + 1)) conf' \<and> sector (heap conf' i) = sect \<and>
    pd_idx (heap conf' i) = pd"
proof -
  define c1 where "c1 = (remove_hash i (conf\<lparr>inactive_list := rest\<rparr>))
    \<lparr>active_stripes := active_stripes conf + 1\<rparr>"
  note idx = free_stripe_index [OF inv ina c1_def]
  have new: "\<not> hashed c1 i" by (simp add: idx)
  obtain c' where c': "init_stripe i sect pd c1 = Ret c'" and a: "a = Got i"
    and conf': "conf' = atomic_add_count 1 i c'"
    using ret miss ina
    by (auto simp: get_active_stripe_def get_free_stripe_def Let_def bind_outcome_Ret_iff c1_def)
  obtain sh where sh: "c' = insert_hash i (upd_stripe i (\<lambda>_. sh) c1)" "sector sh = sect"
    "pd_idx sh = pd" "sh_state sh = 0" "sh_count sh = 0" "hash_next sh = hash_next (heap c1 i)"
    "hash_pprev sh = None" "length (dev sh) = length (dev (heap c1 i))"
    using c' new by (rule init_stripe_Ret)
  define c2 where "c2 = upd_stripe i (\<lambda>_. sh) c1"
  have h2: "hashed c2 j \<longleftrightarrow> j \<noteq> i \<and> hashed conf j" for j
    using idx(3) [of j] sh(7) by (auto simp: hashed_def c2_def)
  have s2: "sector (heap c2 j) = (if j = i then sect else sector (heap conf j))" for j
    using sh by (simp add: c2_def idx)
  have new2: "\<not> hashed c2 i" by (simp add: h2)
  have ok2: "hash_ok c2"
    by (rule hash_ok_cong [OF idx(1)]) (use sh new in \<open>auto simp: c2_def hashed_def\<close>)
  have u2: "stripes.unique c2"
    by (rule unique_cong [OF idx(2)]) (auto simp: h2 idx s2)
  have "find_stripe c2 sect \<noteq> Some (Some j)" for j
    using stripes.lookup_sound [OF ok2, of sect j] cache_invD(4) [OF inv]
      stripes.lookup_complete [OF _ miss, of j]
    by (auto simp: h2 s2 index_ok_def)
  then have none: "find_stripe c2 (sector (heap c2 i)) = Some None"
    using stripes.lookup_returns [OF ok2, of sect] by (simp add: s2) (metis not_None_eq)
  let ?c3 = "insert_hash i c2"
  have h3: "hashed ?c3 j \<longleftrightarrow> j = i \<or> hashed conf j" for j
    using stripes.mem_add [OF ok2 new2, of j] h2 by auto
  have live: "i \<in> set (live conf)" using ina cache_invD(1) [OF inv] by (auto simp: lists_ok_def)
  have f3: "live c2 = live conf" "inactive_list c2 = rest" by (simp_all add: c2_def c1_def)
  have i3: "hash_ok ?c3" using ok2 new2 by (rule stripes.inv_add)
  have u3: "stripes.unique ?c3" using ok2 u2 new2 none by (rule stripes.unique_add)
  have "index_ok ?c3"
    using live cache_invD(4) [OF inv] ina by (auto simp: index_ok_def i3 u3 h3 f3)
  moreover have "cache_inv (refs(i := refs i + 1)) (atomic_add_count 1 i ?c3)"
    if "index_ok ?c3"
  proof -
    let ?c4 = "atomic_add_count 1 i ?c3"
    have z: "refs i = 0" using cache_invD(2) [OF inv] live ina by (auto simp: refs_ok_def on_lru_def)
    have d: "i \<notin> set rest" "i \<notin> set (handle_list conf)"
      using cache_invD(1) [OF inv] ina by (auto simp: lists_ok_def)
    have "lists_ok ?c4"
      using cache_invD(1) [OF inv] ina by (auto simp: lists_ok_def c2_def c1_def)
    moreover have "refs_ok (refs(i := refs i + 1)) ?c4"
      using cache_invD(2) [OF inv] live z sh(5) d ina
      by (auto simp: refs_ok_def on_lru_def c2_def c1_def)
    moreover have "flags_ok ?c4"
      using cache_invD(3) [OF inv] ina d by (auto simp: flags_ok_def c2_def c1_def)
    moreover have "index_ok ?c4"
      using that by (rule index_ok_cong) auto
    moreover have "length (dev (heap ?c4 j)) = unat (raid_disks ?c4)" if "j \<in> set (live ?c4)" for j
      using that cache_invD(5) [OF inv, of j] cache_invD(5) [OF inv live] sh(8)
      by (auto simp: c2_def c1_def)
    ultimately show ?thesis by (simp add: cache_inv_def)
  qed
  ultimately show ?thesis
    using a conf' sh(1-3) by (simp add: c2_def)
qed

text \<open>What taking a stripe never changes.\<close>

lemma init_stripe_frame:
  assumes "init_stripe i sect pd conf = Ret conf'"
  shows "live conf' = live conf" "raid_disks conf' = raid_disks conf"
    "chunk_size conf' = chunk_size conf" "level conf' = level conf" "algorithm conf' = algorithm conf"
    "handle_list conf' = handle_list conf" "thread conf' = thread conf" "disks conf' = disks conf"
  using assms by (auto simp: init_stripe_def Let_def bind_outcome_Ret_iff split: if_splits)

lemma list_del_init_frame:
  "live (list_del_init i conf) = live conf" "raid_disks (list_del_init i conf) = raid_disks conf"
  "chunk_size (list_del_init i conf) = chunk_size conf" "level (list_del_init i conf) = level conf"
  "algorithm (list_del_init i conf) = algorithm conf" "thread (list_del_init i conf) = thread conf"
  "disks (list_del_init i conf) = disks conf" "heap (list_del_init i conf) = heap conf"
  by (simp_all add: list_del_init_def)

lemma atomic_add_count_frame:
  "chunk_size (atomic_add_count d i conf) = chunk_size conf"
  "level (atomic_add_count d i conf) = level conf"
  "algorithm (atomic_add_count d i conf) = algorithm conf"
  "disks (atomic_add_count d i conf) = disks conf"
  by (simp_all add: atomic_add_count_def)

lemma get_active_Ret_cases:
  assumes "get_active_stripe conf sect pd nb = Ret (a, conf')"
  obtains (same) "conf' = conf" "a = (if nb then Null else Wait)"
  | (new) i rest c where "a = Got i" "find_stripe conf sect = Some None"
      "inactive_list conf = i # rest"
      "init_stripe i sect pd ((remove_hash i (conf\<lparr>inactive_list := rest\<rparr>))
         \<lparr>active_stripes := active_stripes conf + 1\<rparr>) = Ret c" "conf' = atomic_add_count 1 i c"
  | (held) i where "a = Got i" "find_stripe conf sect = Some (Some i)"
      "conf' = atomic_add_count 1 i conf"
  | (idle) i n where "a = Got i" "find_stripe conf sect = Some (Some i)"
      "conf' = atomic_add_count 1 i (list_del_init i (conf\<lparr>active_stripes := n\<rparr>))"
proof -
  obtain found where found: "find_stripe conf sect = Some found"
    using assms by (auto simp: get_active_stripe_def bind_outcome_Ret_iff)
  show thesis
  proof (cases found)
    case None
    show thesis
    proof (cases "inactive_list conf")
      case Nil
      then show thesis using assms same found None
        by (simp add: get_active_stripe_def get_free_stripe_def split: if_splits)
    next
      case (Cons i rest)
      then show thesis using assms new [of i rest] found None
        by (auto simp: get_active_stripe_def get_free_stripe_def Let_def bind_outcome_Ret_iff)
    qed
  next
    case (Some i)
    have eq: "conf = conf\<lparr>active_stripes := active_stripes conf\<rparr>" by simp
    show thesis
    proof (cases "sh_count (heap conf i) = 0")
      case True
      then show thesis
        using assms found Some idle [of i "active_stripes conf"] idle [of i "active_stripes conf + 1"]
        by (simp add: get_active_stripe_def Let_def split: if_splits)
    next
      case False
      then show thesis using assms found Some held [of i] by (simp add: get_active_stripe_def)
    qed
  qed
qed

lemma get_active_frame:
  assumes "get_active_stripe conf sect pd nb = Ret (a, conf')"
  shows "live conf' = live conf" "raid_disks conf' = raid_disks conf"
    "chunk_size conf' = chunk_size conf" "level conf' = level conf" "algorithm conf' = algorithm conf"
    "thread conf' = thread conf" "disks conf' = disks conf"
  using assms
  by (cases rule: get_active_Ret_cases;
      simp add: list_del_init_frame atomic_add_count_frame init_stripe_frame)+

section \<open>Recycling\<close>

lemma compute_blocknr_returns:
  assumes g: "geom_ok conf (raid_disks conf)"
  shows "\<exists>b. compute_blocknr conf sh i = Some b"
proof -
  have "unat (ucast (signed_drop_bit 9 (chunk_size conf)) :: u64) = chunk_sectors conf"
    using g by (simp add: geom_ok_def sdrop_unat_32 chunk_sectors_def)
  then have "(ucast (signed_drop_bit 9 (chunk_size conf)) :: u64) \<noteq> 0"
    using chunk_sectors_pos [OF g] by (metis unat_0 less_irrefl)
  then show ?thesis
    using g by (auto simp: compute_blocknr_def Let_def split: option.splits
        dest: compute_sector_total elim!: compute_sector_refines)
qed

lemma build_block_returns:
  assumes "geom_ok conf (raid_disks conf)"
  obtains sh' where "build_block conf i sh = Some sh'"
    "\<And>k. k \<noteq> i \<Longrightarrow> dev sh' ! k = dev sh ! k"
    "i < length (dev sh) \<Longrightarrow> dev_flags (dev sh' ! i) = 0 \<and> req (dev sh' ! i) = zero_req\<lparr>rq_vcnt := 1,
       rq_max_vecs := 1, rq_vec_len := 4096, rq_sector := sector sh\<rparr> \<and>
       toread (dev sh' ! i) = toread (dev sh ! i) \<and> towrite (dev sh' ! i) = towrite (dev sh ! i) \<and>
       written (dev sh' ! i) = written (dev sh ! i)"
proof -
  have "\<exists>sh'. build_block conf i sh = Some sh'"
    using compute_blocknr_returns [OF assms] by (auto simp: build_block_def Let_def)
  then obtain sh' where sh': "build_block conf i sh = Some sh'" ..
  show ?thesis
  proof (rule that [OF sh'])
    show "dev sh' ! k = dev sh ! k" if "k \<noteq> i" for k
      using that sh' by (auto simp: build_block_def Let_def upd_dev_def split: if_splits)
    show "dev_flags (dev sh' ! i) = 0 \<and> req (dev sh' ! i) = zero_req\<lparr>rq_vcnt := 1,
       rq_max_vecs := 1, rq_vec_len := 4096, rq_sector := sector sh\<rparr> \<and>
       toread (dev sh' ! i) = toread (dev sh ! i) \<and> towrite (dev sh' ! i) = towrite (dev sh ! i) \<and>
       written (dev sh' ! i) = written (dev sh ! i)" if "i < length (dev sh)"
      using that sh'
      by (auto simp: build_block_def Let_def upd_dev_def zero_req_def stripe_consts split: if_splits)
  qed
qed

text \<open>A stripe whose member devices have no bio chained and none locked can be recycled.\<close>

definition busy_stripe :: "jraid5_conf \<Rightarrow> stripe_head \<Rightarrow> bool" where
  "busy_stripe conf sh \<longleftrightarrow> (\<exists>k < unat (raid_disks conf). dev_busy (dev sh ! k))"

definition fresh_dev :: "sector_t \<Rightarrow> r5dev \<Rightarrow> bool" where
  "fresh_dev sect d \<longleftrightarrow> dev_flags d = 0 \<and> toread d = [] \<and> towrite d = [] \<and> written d = [] \<and>
     rq_sector (req d) = sect \<and> rq_end_io (req d) = None \<and> rq_bdev (req d) = None"

lemma init_devs_busy:
  assumes "geom_ok conf (raid_disks conf)" "k < n" "dev_busy (dev sh ! k)"
  shows "init_devs conf n sh = Bug"
  using assms(2,3)
proof (induction n arbitrary: sh)
  case (Suc n)
  let ?sh = "upd_dev n (\<lambda>d. d\<lparr>dev_flags := 0\<rparr>) sh"
  obtain sh' where sh': "build_block conf n ?sh = Some sh'"
    and same: "\<And>k. k \<noteq> n \<Longrightarrow> dev sh' ! k = dev ?sh ! k"
    by (rule build_block_returns [OF assms(1), of n ?sh]) blast
  show ?case
  proof (cases "k = n")
    case False
    then have "init_devs conf n sh' = Bug"
      using Suc.prems same [of k] by (intro Suc.IH) (auto simp: upd_dev_def)
    then show ?thesis using sh' by simp
  qed (use Suc.prems in simp)
qed simp

lemma init_devs_idle:
  assumes g: "geom_ok conf (raid_disks conf)" and "\<And>k. k < n \<Longrightarrow> \<not> dev_busy (dev sh ! k)"
    and "n \<le> length (dev sh)"
  shows "\<exists>sh'. init_devs conf n sh = Ret sh' \<and> (\<forall>k < n. fresh_dev (sector sh) (dev sh' ! k)) \<and>
    (\<forall>k \<ge> n. dev sh' ! k = dev sh ! k)"
  using assms(2,3)
proof (induction n arbitrary: sh)
  case (Suc n)
  let ?sh = "upd_dev n (\<lambda>d. d\<lparr>dev_flags := 0\<rparr>) sh"
  obtain sh' where sh': "build_block conf n ?sh = Some sh'"
    and same: "\<And>k. k \<noteq> n \<Longrightarrow> dev sh' ! k = dev ?sh ! k"
    and here: "n < length (dev ?sh) \<Longrightarrow> dev_flags (dev sh' ! n) = 0 \<and> req (dev sh' ! n) =
       zero_req\<lparr>rq_vcnt := 1, rq_max_vecs := 1, rq_vec_len := 4096, rq_sector := sector ?sh\<rparr> \<and>
       toread (dev sh' ! n) = toread (dev ?sh ! n) \<and> towrite (dev sh' ! n) = towrite (dev ?sh ! n) \<and>
       written (dev sh' ! n) = written (dev ?sh ! n)"
    by (rule build_block_returns [OF g, of n ?sh]) blast
  note frame = build_block_frame [OF sh']
  have idle: "\<not> dev_busy (dev sh ! n)" using Suc.prems by simp
  have same': "dev sh' ! k = dev sh ! k" if "k \<noteq> n" for k
    using same [OF that] that by (simp add: upd_dev_def)
  have "\<not> dev_busy (dev sh' ! k)" if "k < n" for k using that Suc.prems same' by simp
  moreover have "n \<le> length (dev sh')" using Suc.prems frame by simp
  ultimately obtain sh2 where sh2: "init_devs conf n sh' = Ret sh2"
    "\<forall>k < n. fresh_dev (sector sh') (dev sh2 ! k)" "\<forall>k \<ge> n. dev sh2 ! k = dev sh' ! k"
    using Suc.IH by blast
  have "fresh_dev (sector sh) (dev sh2 ! n)"
    using sh2(3) here idle Suc.prems(2)
    by (auto simp: fresh_dev_def dev_busy_def upd_dev_def zero_req_def)
  then show ?case
    using sh2 sh' idle frame same' by (auto simp: less_Suc_eq)
qed simp

lemma geom_ok_cong:
  "chunk_size c = chunk_size conf \<Longrightarrow> level c = level conf \<Longrightarrow> algorithm c = algorithm conf \<Longrightarrow>
   geom_ok c n = geom_ok conf n"
  by (simp add: geom_ok_def layout_of_def)

lemma get_active_miss_result:
  assumes inv: "cache_inv refs conf" and g: "geom_ok conf (raid_disks conf)"
    and miss: "find_stripe conf sect = Some None" and ina: "inactive_list conf = i # rest"
  shows "if busy_stripe conf (heap conf i) then get_active_stripe conf sect pd nb = Bug
    else \<exists>conf'. get_active_stripe conf sect pd nb = Ret (Got i, conf') \<and>
           sh_state (heap conf' i) = 0 \<and>
           (\<forall>k < unat (raid_disks conf). fresh_dev sect (dev (heap conf' i) ! k))"
proof -
  define c1 where "c1 = (remove_hash i (conf\<lparr>inactive_list := rest\<rparr>))
    \<lparr>active_stripes := active_stripes conf + 1\<rparr>"
  have get: "get_active_stripe conf sect pd nb =
      bind_outcome (init_stripe i sect pd c1) (\<lambda>c. Ret (Got i, atomic_add_count 1 i c))"
    using miss ina by (simp add: get_active_stripe_def get_free_stripe_def Let_def c1_def)
  have un: "hash_pprev (heap c1 i) = None"
    using free_stripe_index(3) [OF inv ina c1_def, of i] by (simp add: hashed_def)
  have live: "i \<in> set (live conf)" using ina cache_invD(1) [OF inv] by (auto simp: lists_ok_def)
  have count: "sh_count (heap c1 i) = 0" "\<not> bit (sh_state (heap c1 i)) STRIPE_HANDLE"
    using cache_invD(2,3) [OF inv] live ina by (auto simp: refs_ok_def flags_ok_def on_lru_def c1_def)
  let ?c2 = "upd_stripe i (\<lambda>sh. sh\<lparr>sector := sect, pd_idx := pd, sh_state := 0\<rparr>) c1"
  let ?n = "unat (raid_disks conf)"
  have g2: "geom_ok ?c2 (raid_disks ?c2)"
    using g geom_ok_cong [of ?c2 conf] by (simp add: c1_def)
  have devs: "dev (heap ?c2 i) = dev (heap conf i)" and len: "?n \<le> length (dev (heap ?c2 i))"
    using cache_invD(5) [OF inv live] by (simp_all add: c1_def)
  have init: "init_stripe i sect pd c1 = bind_outcome (init_devs ?c2 ?n (heap ?c2 i))
      (\<lambda>sh. Ret (insert_hash i (upd_stripe i (\<lambda>_. sh) ?c2)))"
    using count un by (simp add: init_stripe_def Let_def) (simp add: c1_def)
  show ?thesis
  proof (cases "busy_stripe conf (heap conf i)")
    case True
    then obtain k where "k < ?n" "dev_busy (dev (heap ?c2 i) ! k)"
      using devs by (auto simp: busy_stripe_def)
    then have "init_devs ?c2 ?n (heap ?c2 i) = Bug" by (rule init_devs_busy [OF g2])
    then show ?thesis using True by (simp add: get init)
  next
    case False
    then have "\<not> dev_busy (dev (heap ?c2 i) ! k)" if "k < ?n" for k
      using that devs by (auto simp: busy_stripe_def)
    then obtain sh where sh: "init_devs ?c2 ?n (heap ?c2 i) = Ret sh"
      "\<forall>k < ?n. fresh_dev sect (dev sh ! k)"
      using init_devs_idle [OF g2 _ len] by auto
    have "sh_state sh = 0" using init_devs_frame(5) [OF sh(1)] by simp
    then show ?thesis using False sh by (simp add: get init)
  qed
qed

lemma get_active_stripe_outcome:
  assumes inv: "cache_inv refs conf" and g: "geom_ok conf (raid_disks conf)"
  shows "if \<exists>i. hashed conf i \<and> sector (heap conf i) = sect then
      \<exists>i conf'. get_active_stripe conf sect pd nb = Ret (Got i, conf') \<and>
        hashed conf i \<and> sector (heap conf' i) = sect \<and> cache_inv (refs(i := refs i + 1)) conf'
    else case inactive_list conf of
      [] \<Rightarrow> get_active_stripe conf sect pd nb = Ret (if nb then Null else Wait, conf)
    | i # rest \<Rightarrow>
        if busy_stripe conf (heap conf i) then get_active_stripe conf sect pd nb = Bug
        else \<exists>conf'. get_active_stripe conf sect pd nb = Ret (Got i, conf') \<and>
          sector (heap conf' i) = sect \<and> pd_idx (heap conf' i) = pd \<and> sh_state (heap conf' i) = 0 \<and>
          (\<forall>k < unat (raid_disks conf). fresh_dev sect (dev (heap conf' i) ! k)) \<and>
          cache_inv (refs(i := refs i + 1)) conf'"
proof (cases "\<exists>i. hashed conf i \<and> sector (heap conf i) = sect")
  case True
  have ok: "hash_ok conf" "stripes.unique conf" using cache_invD(4) [OF inv] by (auto simp: index_ok_def)
  from True obtain i where i: "hashed conf i" "sector (heap conf i) = sect" by blast
  then have "find_stripe conf sect = Some (Some i)" using stripes.lookup_iff [OF ok] by blast
  from get_active_hit_inv [OF inv this] show ?thesis using True i(1) by (auto intro!: exI [of _ i])
next
  case False
  have ok: "hash_ok conf" using cache_invD(4) [OF inv] by (auto simp: index_ok_def)
  have miss: "find_stripe conf sect = Some None"
    using stripes.lookup_returns [OF ok, of sect] stripes.lookup_sound [OF ok, of sect] False
    by (metis not_None_eq)
  show ?thesis
  proof (cases "inactive_list conf")
    case Nil
    then show ?thesis using False get_active_miss_empty [OF miss] by simp
  next
    case (Cons i rest)
    show ?thesis
      using get_active_miss_result [OF inv g miss Cons, of pd nb]
        get_active_miss_inv [OF inv miss Cons, of pd nb] False Cons
      by (auto split: if_splits)
  qed
qed

section \<open>Properties\<close>

text \<open>
  A cache of one stripe as \<open>grow_stripes\<close> leaves it, and the same cache with the stripe's
  member 3 still holding a bio.
\<close>

definition cache_example :: jraid5_conf where
  "cache_example = conf_example\<lparr>buffer_size := 4096, heap := (\<lambda>_. zero_stripe 4), live := [0],
     inactive_list := [0]\<rparr>"

lemma cache_example_inv: "cache_inv (\<lambda>_. 0) cache_example"
proof -
  have z: "stripe_hashtbl cache_example = (\<lambda>_. None)" "\<not> hashed cache_example i" for i
    by (simp_all add: cache_example_def conf_example_def zero_conf_def hashed_def zero_stripe_def)
  then have "hash_ok cache_example" using hash_rep_zero by (auto simp: hash_ok_def)
  then show ?thesis using z
    by (simp add: cache_inv_defs stripes.unique_def)
       (simp add: cache_example_def conf_example_def zero_conf_def zero_stripe_def)
qed

lemma cache_example_geom: "geom_ok cache_example (raid_disks cache_example)"
  using geom_ok_example geom_ok_cong [of cache_example conf_example]
  by (simp add: cache_example_def conf_example_def)

lemma cache_example_unhashed: "\<not> hashed cache_example i"
  by (simp add: hashed_def cache_example_def zero_stripe_def)

lemma cache_example_idle: "\<not> busy_stripe cache_example (heap cache_example 0)"
  by (auto simp: busy_stripe_def dev_busy_def cache_example_def conf_example_def zero_stripe_def
      zero_dev_def)

lemma cache_example_take:
  "\<exists>conf'. get_active_stripe cache_example 72 2 False = Ret (Got 0, conf') \<and>
     cache_inv ((\<lambda>_. 0)(0 := 1)) conf' \<and> live conf' = [0] \<and> raid_disks conf' = 4"
proof -
  have ok: "hash_ok cache_example" using cache_invD(4) [OF cache_example_inv] by (simp add: index_ok_def)
  have miss: "find_stripe cache_example 72 = Some None"
    using stripes.lookup_returns [OF ok, of 72] stripes.lookup_sound [OF ok, of 72]
      cache_example_unhashed by (metis not_None_eq)
  have ina: "inactive_list cache_example = [0]" by (simp add: cache_example_def)
  obtain conf' where get: "get_active_stripe cache_example 72 2 False = Ret (Got 0, conf')"
    using get_active_miss_result [OF cache_example_inv cache_example_geom miss ina, of 2 False]
      cache_example_idle by auto
  have "live conf' = [0] \<and> raid_disks conf' = 4"
    using get get_active_frame by (simp add: cache_example_def conf_example_def)
  then show ?thesis
    using get_active_miss_inv [OF cache_example_inv miss ina get] get by simp
qed

text \<open>
  C13 \<open>get_active_stripe\<close> on every branch, from a consistent cache: a cached sector gives its
  stripe; otherwise an empty free list gives NULL or waits; otherwise the first free stripe is
  recycled for the sector, with zero state and fresh member devices, unless one of its members
  still has a bio chained, which is the \<open>BUG()\<close> of \<open>__init_stripe\<close>. Whenever a stripe is
  returned the cache is consistent again with one more reference to it. No branch loops.
\<close>

theorem get_active_stripe_correct:
  assumes inv: "cache_inv refs conf" and g: "geom_ok conf (raid_disks conf)"
  shows "if \<exists>i. hashed conf i \<and> sector (heap conf i) = sect then
      \<exists>i conf'. get_active_stripe conf sect pd nb = Ret (Got i, conf') \<and>
        hashed conf i \<and> sector (heap conf' i) = sect \<and> cache_inv (refs(i := refs i + 1)) conf'
    else case inactive_list conf of
      [] \<Rightarrow> get_active_stripe conf sect pd nb = Ret (if nb then Null else Wait, conf)
    | i # rest \<Rightarrow>
        if busy_stripe conf (heap conf i) then get_active_stripe conf sect pd nb = Bug
        else \<exists>conf'. get_active_stripe conf sect pd nb = Ret (Got i, conf') \<and>
          sector (heap conf' i) = sect \<and> pd_idx (heap conf' i) = pd \<and> sh_state (heap conf' i) = 0 \<and>
          (\<forall>k < unat (raid_disks conf). fresh_dev sect (dev (heap conf' i) ! k)) \<and>
          cache_inv (refs(i := refs i + 1)) conf'"
  by (rule get_active_stripe_outcome [OF inv g])

theorem get_active_stripe_correct_witness:
  "\<exists>conf'. get_active_stripe cache_example 72 2 False = Ret (Got 0, conf') \<and>
     cache_inv ((\<lambda>_. 0)(0 := 1)) conf' \<and> sector (heap conf' 0) = 72"
  using get_active_stripe_correct [OF cache_example_inv cache_example_geom, of 72 2 False]
    cache_example_unhashed cache_example_idle
  by (auto simp: cache_example_def)

text \<open>
  C14 \<open>release_stripe\<close> drops one reference and keeps the cache consistent; the last reference
  puts the stripe at the tail of \<open>handle_list\<close> and wakes the daemon when \<open>STRIPE_HANDLE\<close> is
  set, and at the tail of \<open>inactive_list\<close>, with a wake-up of the waiters for a stripe, when
  it is not. With other references left only the counter changes.
\<close>

theorem release_stripe_correct:
  assumes inv: "cache_inv refs conf" and ref: "refs i \<noteq> 0"
  shows "cache_inv (refs(i := refs i - 1)) (release_stripe i conf) \<and>
    (let c = release_stripe i conf; handle = bit (sh_state (heap conf i)) STRIPE_HANDLE in
     if refs i \<noteq> 1 then c = atomic_add_count (- 1) i conf
     else if handle then handle_list c = handle_list conf @ [i] \<and>
       thread c = map_option jmd_wakeup_thread (thread conf) \<and>
       inactive_list c = inactive_list conf
     else inactive_list c = inactive_list conf @ [i] \<and> handle_list c = handle_list conf \<and>
       stripe_wakeups c = stripe_wakeups conf + 1)"
  using release_stripe_inv [OF inv ref] cache_inv_held(3) [OF inv ref]
  by (simp add: Let_def release_stripe_lists)
     (auto simp: release_stripe_def release_stripe_locked_def Let_def)

theorem release_stripe_correct_witness:
  "\<exists>conf. cache_inv ((\<lambda>_. 0)(0 := 1)) conf \<and> cache_inv (\<lambda>_. 0) (release_stripe 0 conf)"
proof -
  obtain conf where conf: "cache_inv ((\<lambda>_. 0)(0 := 1)) conf" using cache_example_take by blast
  have eq: "((\<lambda>_. 0 :: nat)(0 := 1))(0 := ((\<lambda>_. 0)(0 := 1)) 0 - 1) = (\<lambda>_. 0)" by auto
  have "cache_inv (\<lambda>_. 0) (release_stripe 0 conf)"
    using release_stripe_correct [OF conf, of 0] unfolding eq by simp
  with conf show ?thesis by blast
qed

end
