(* ===== verification/Stripe_Alloc.thy ===== *)
theory Stripe_Alloc
  imports Stripe_Cache
begin

text \<open>
  Building and tearing down the stripe cache, \<^verbatim>\<open>src/src/jraid5.c\<close>: \<open>grow_buffers\<close>,
  \<open>shrink_buffers\<close>, \<open>grow_stripes\<close> and \<open>shrink_stripes\<close>.

  The page and slab allocators are the kernel's: they are the fields of \<open>mem_ops\<close>, functions
  on a memory state \<open>'m\<close>, and the theorems assume only \<open>mem_ok\<close>, the documented contract that
  what is handed out is not in use. An index past the \<open>dev\<close> array is a memory error and ends
  in \<open>Bug\<close>.
\<close>

unbundle bit_operations_syntax

section \<open>The code\<close>

record 'm mem_ops =
  alloc_page :: "'m \<Rightarrow> (nat \<times> 'm) option"
  page_release :: "nat \<Rightarrow> 'm \<Rightarrow> 'm"
  cache_create :: "'m \<Rightarrow> 'm option"
  cache_alloc :: "'m \<Rightarrow> (sid \<times> 'm) option"
  kfree :: "sid \<Rightarrow> 'm \<Rightarrow> 'm"

primrec grow_pages :: "'m mem_ops \<Rightarrow> nat list \<Rightarrow> stripe_head \<Rightarrow> 'm \<Rightarrow> bool \<times> stripe_head \<times> 'm" where
  "grow_pages ops [] sh m = (False, sh, m)"
| "grow_pages ops (i # is) sh m =
     (case alloc_page ops m of
        None \<Rightarrow> (True, sh, m)
      | Some (p, m1) \<Rightarrow> grow_pages ops is (upd_dev i (\<lambda>d. d\<lparr>page := Some p\<rparr>) sh) m1)"

definition grow_buffers :: "'m mem_ops \<Rightarrow> nat \<Rightarrow> stripe_head \<Rightarrow> 'm \<Rightarrow> bool \<times> stripe_head \<times> 'm" where
  "grow_buffers ops num sh m = grow_pages ops [0..<num] sh m"

primrec shrink_pages :: "'m mem_ops \<Rightarrow> nat list \<Rightarrow> stripe_head \<Rightarrow> 'm \<Rightarrow> (stripe_head \<times> 'm) outcome" where
  "shrink_pages ops [] sh m = Ret (sh, m)"
| "shrink_pages ops (i # is) sh m =
     (if length (dev sh) \<le> i then Bug
      else case page (dev sh ! i) of
             None \<Rightarrow> shrink_pages ops is sh m
           | Some p \<Rightarrow> shrink_pages ops is (upd_dev i (\<lambda>d. d\<lparr>page := None\<rparr>) sh) (page_release ops p m))"

definition shrink_buffers :: "'m mem_ops \<Rightarrow> nat \<Rightarrow> stripe_head \<Rightarrow> 'm \<Rightarrow> (stripe_head \<times> 'm) outcome" where
  "shrink_buffers ops num sh m = shrink_pages ops [0..<num] sh m"

primrec grow_stripes_loop ::
    "'m mem_ops \<Rightarrow> nat \<Rightarrow> jraid5_conf \<Rightarrow> 'm \<Rightarrow> (bool \<times> jraid5_conf \<times> 'm) outcome" where
  "grow_stripes_loop ops 0 conf m = Ret (False, conf, m)"
| "grow_stripes_loop ops (Suc num) conf m =
     (case cache_alloc ops m of
        None \<Rightarrow> Ret (True, conf, m)
      | Some (i, m1) \<Rightarrow>
          let devs = unat (raid_disks conf) in
          (case grow_buffers ops devs (zero_stripe devs) m1 of
             (True, sh, m2) \<Rightarrow>
               bind_outcome (shrink_buffers ops devs sh m2) (\<lambda>(sh1, m3).
                 Ret (True, upd_stripe i (\<lambda>_. sh1) conf, kfree ops i m3))
           | (False, sh, m2) \<Rightarrow>
               let conf1 = (upd_stripe i (\<lambda>_. sh\<lparr>sh_count := 1\<rparr>) conf)
                     \<lparr>live := live conf @ [i], active_stripes := active_stripes conf + 1\<rparr>
               in grow_stripes_loop ops num (release_stripe i conf1) m2))"

definition grow_stripes ::
    "'m mem_ops \<Rightarrow> nat \<Rightarrow> jraid5_conf \<Rightarrow> 'm \<Rightarrow> (bool \<times> jraid5_conf \<times> 'm) outcome" where
  "grow_stripes ops num conf m =
     (case cache_create ops m of
        None \<Rightarrow> Ret (True, conf, m)
      | Some m1 \<Rightarrow> grow_stripes_loop ops num conf m1)"

primrec shrink_stripes :: "'m mem_ops \<Rightarrow> nat \<Rightarrow> jraid5_conf \<Rightarrow> 'm \<Rightarrow> (jraid5_conf \<times> 'm) outcome" where
  "shrink_stripes ops 0 conf m = Ret (conf, m)"
| "shrink_stripes ops (Suc num) conf m =
     (case get_free_stripe conf of
        (None, conf1) \<Rightarrow> Ret (conf1, m)
      | (Some i, conf1) \<Rightarrow>
          bind_outcome (shrink_buffers ops (unat (jraid_disks conf1)) (heap conf1 i) m) (\<lambda>(sh, m1).
            shrink_stripes ops num
              ((upd_stripe i (\<lambda>_. sh) conf1)\<lparr>live := remove1 i (live conf1),
                 active_stripes := active_stripes conf1 - 1\<rparr>)
              (kfree ops i m1)))"

section \<open>Ownership of pages\<close>

text \<open>
  \<open>used m\<close> are the pages and \<open>objs m\<close> the slab objects handed out and not yet given back.
\<close>

definition mem_ok :: "'m mem_ops \<Rightarrow> ('m \<Rightarrow> nat set) \<Rightarrow> ('m \<Rightarrow> sid set) \<Rightarrow> bool" where
  "mem_ok ops used objs \<longleftrightarrow>
     (\<forall>m p m'. alloc_page ops m = Some (p, m') \<longrightarrow>
        p \<notin> used m \<and> used m' = insert p (used m) \<and> objs m' = objs m) \<and>
     (\<forall>m p. used (page_release ops p m) = used m - {p} \<and> objs (page_release ops p m) = objs m) \<and>
     (\<forall>m m'. cache_create ops m = Some m' \<longrightarrow> used m' = used m \<and> objs m' = objs m) \<and>
     (\<forall>m i m'. cache_alloc ops m = Some (i, m') \<longrightarrow>
        i \<notin> objs m \<and> objs m' = insert i (objs m) \<and> used m' = used m) \<and>
     (\<forall>m i. objs (kfree ops i m) = objs m - {i} \<and> used (kfree ops i m) = used m)"

lemma mem_okD:
  assumes "mem_ok ops used objs"
  shows "alloc_page ops m = Some (p, m') \<Longrightarrow> p \<notin> used m"
    "alloc_page ops m = Some (p, m') \<Longrightarrow> used m' = insert p (used m)"
    "alloc_page ops m = Some (p, m') \<Longrightarrow> objs m' = objs m"
    "used (page_release ops p m) = used m - {p}" "objs (page_release ops p m) = objs m"
    "cache_create ops m = Some m' \<Longrightarrow> used m' = used m"
    "cache_create ops m = Some m' \<Longrightarrow> objs m' = objs m"
    "cache_alloc ops m = Some (i, m') \<Longrightarrow> i \<notin> objs m"
    "cache_alloc ops m = Some (i, m') \<Longrightarrow> objs m' = insert i (objs m)"
    "cache_alloc ops m = Some (i, m') \<Longrightarrow> used m' = used m"
    "objs (kfree ops i m) = objs m - {i}" "used (kfree ops i m) = used m"
  using assms by (auto simp: mem_ok_def)

definition map_inj :: "('a \<rightharpoonup> 'b) \<Rightarrow> bool" where
  "map_inj f \<longleftrightarrow> (\<forall>x y z. f x = Some z \<longrightarrow> f y = Some z \<longrightarrow> x = y)"

lemma map_inj_upd: "map_inj f \<Longrightarrow> p \<notin> ran f \<Longrightarrow> map_inj (f(k \<mapsto> p))"
  by (auto simp: map_inj_def ran_def)

lemma map_inj_drop: "map_inj f \<Longrightarrow> map_inj (f(k := None))"
  by (auto simp: map_inj_def)

lemma ran_drop: "map_inj f \<Longrightarrow> f k = Some p \<Longrightarrow> ran (f(k := None)) = ran f - {p}"
  unfolding map_inj_def ran_def by (auto split: if_splits) (metis option.inject)

text \<open>Two stripes that differ at most in their member devices.\<close>

definition same_head :: "stripe_head \<Rightarrow> stripe_head \<Rightarrow> bool" where
  "same_head sh' sh \<longleftrightarrow> sh' = sh\<lparr>dev := dev sh'\<rparr>"

lemma same_head_refl [simp]: "same_head sh sh" by (simp add: same_head_def)

lemma same_head_upd_dev [simp]: "same_head sh' (upd_dev i f sh) = same_head sh' sh"
  by (simp add: same_head_def upd_dev_def)

lemma same_headD:
  assumes "same_head sh' sh"
  shows "hash_next sh' = hash_next sh" "hash_pprev sh' = hash_pprev sh" "sector sh' = sector sh"
    "sh_state sh' = sh_state sh" "sh_count sh' = sh_count sh" "pd_idx sh' = pd_idx sh"
  using assms unfolding same_head_def by (metis stripe_head.select_convs stripe_head.surjective
      stripe_head.update_convs)+

text \<open>The page of each slot of a stripe, and of each slot of each live stripe.\<close>

definition slot_page :: "stripe_head \<Rightarrow> nat \<rightharpoonup> nat" where
  "slot_page sh k = (if k < length (dev sh) then page (dev sh ! k) else None)"

definition own :: "jraid5_conf \<Rightarrow> sid \<times> nat \<rightharpoonup> nat" where
  "own conf = (\<lambda>(i, k). if i \<in> set (live conf) then slot_page (heap conf i) k else None)"

lemma slot_page_upd:
  "k < length (dev sh) \<Longrightarrow> slot_page (upd_dev k (page_update (\<lambda>_. v)) sh) = (slot_page sh)(k := v)"
  by (auto simp: slot_page_def upd_dev_def fun_eq_iff)

lemma slot_page_zero: "slot_page (zero_stripe n) = (\<lambda>_. None)"
  by (auto simp: slot_page_def zero_stripe_def zero_dev_def fun_eq_iff)

lemma grow_pages_own:
  assumes mem: "mem_ok ops used objs"
    and "\<And>k. k \<in> set is \<Longrightarrow> k < length (dev sh) \<and> slot_page sh k = None"
    and "distinct is" and "map_inj (slot_page sh)" and "X \<inter> ran (slot_page sh) = {}"
    and "used m = X \<union> ran (slot_page sh)" and "grow_pages ops is sh m = (b, sh', m')"
  shows "map_inj (slot_page sh') \<and> X \<inter> ran (slot_page sh') = {} \<and>
    used m' = X \<union> ran (slot_page sh') \<and> objs m' = objs m \<and>
    length (dev sh') = length (dev sh) \<and> same_head sh' sh \<and>
    (\<not> b \<longrightarrow> (\<forall>k \<in> set is. slot_page sh' k \<noteq> None)) \<and>
    (\<forall>k. slot_page sh k \<noteq> None \<longrightarrow> slot_page sh' k = slot_page sh k)"
  using assms(2-)
proof (induction "is" arbitrary: sh m)
  case Nil
  then show ?case by simp
next
  case (Cons i "is")
  show ?case
  proof (cases "alloc_page ops m")
    case None
    then show ?thesis using Cons.prems by auto
  next
    case (Some r)
    obtain p m1 where pm: "alloc_page ops m = Some (p, m1)" using Some by (cases r) simp
    let ?sh = "upd_dev i (page_update (\<lambda>_. Some p)) sh"
    note al = mem_okD(1-3) [OF mem pm]
    have i: "i < length (dev sh)" "slot_page sh i = None" using Cons.prems by auto
    then have sp: "slot_page ?sh = (slot_page sh)(i \<mapsto> p)" by (simp add: slot_page_upd)
    have ran: "ran (slot_page ?sh) = insert p (ran (slot_page sh))"
      using i by (simp add: sp ran_map_upd)
    have "map_inj (slot_page ?sh)"
      using Cons.prems al by (simp add: sp map_inj_upd)
    moreover have "X \<inter> ran (slot_page ?sh) = {}" "used m1 = X \<union> ran (slot_page ?sh)"
      using Cons.prems al by (auto simp: ran)
    moreover have "k < length (dev ?sh) \<and> slot_page ?sh k = None" if "k \<in> set is" for k
      using Cons.prems that by (auto simp: sp)
    ultimately have "map_inj (slot_page sh') \<and> X \<inter> ran (slot_page sh') = {} \<and>
        used m' = X \<union> ran (slot_page sh') \<and> objs m' = objs m1 \<and>
        length (dev sh') = length (dev ?sh) \<and> same_head sh' ?sh \<and>
        (\<not> b \<longrightarrow> (\<forall>k \<in> set is. slot_page sh' k \<noteq> None)) \<and>
        (\<forall>k. slot_page ?sh k \<noteq> None \<longrightarrow> slot_page sh' k = slot_page ?sh k)"
      using Cons.prems(2,6) pm by (intro Cons.IH) auto
    then show ?thesis using al i by (auto simp: sp split: if_splits)
  qed
qed

lemma shrink_pages_own:
  assumes mem: "mem_ok ops used objs"
    and "\<And>k. k \<in> set is \<Longrightarrow> k < length (dev sh)"
    and "map_inj (slot_page sh)" and "X \<inter> ran (slot_page sh) = {}"
    and "used m = X \<union> ran (slot_page sh)"
  shows "\<exists>sh' m'. shrink_pages ops is sh m = Ret (sh', m') \<and> objs m' = objs m \<and>
    same_head sh' sh \<and> length (dev sh') = length (dev sh) \<and>
    slot_page sh' = (\<lambda>k. if k \<in> set is then None else slot_page sh k) \<and>
    used m' = X \<union> ran (slot_page sh')"
  using assms(2-)
proof (induction "is" arbitrary: sh m)
  case Nil
  then show ?case by simp
next
  case (Cons i "is")
  have i: "i < length (dev sh)" using Cons.prems by simp
  show ?case
  proof (cases "page (dev sh ! i)")
    case None
    then have "slot_page sh i = None" by (simp add: slot_page_def)
    moreover obtain sh' m' where "shrink_pages ops is sh m = Ret (sh', m')" "objs m' = objs m"
      "same_head sh' sh" "length (dev sh') = length (dev sh)"
      "slot_page sh' = (\<lambda>k. if k \<in> set is then None else slot_page sh k)"
      "used m' = X \<union> ran (slot_page sh')"
      using Cons.IH [of sh m] Cons.prems by auto
    ultimately show ?thesis using None i by (auto simp: fun_eq_iff)
  next
    case (Some p)
    let ?sh = "upd_dev i (page_update (\<lambda>_. None)) sh" and ?m = "page_release ops p m"
    have sp: "slot_page ?sh = (slot_page sh)(i := None)" using i by (rule slot_page_upd)
    have si: "slot_page sh i = Some p" using Some i by (simp add: slot_page_def)
    have ran: "ran (slot_page ?sh) = ran (slot_page sh) - {p}"
      using Cons.prems(2) si unfolding sp by (rule ran_drop)
    have "p \<in> ran (slot_page sh)" using si by (rule ranI)
    then have "X \<inter> ran (slot_page ?sh) = {}" "used ?m = X \<union> ran (slot_page ?sh)"
      using Cons.prems mem_okD(4) [OF mem, of p m] by (auto simp: ran)
    moreover have "map_inj (slot_page ?sh)" using Cons.prems(2) by (simp add: sp map_inj_drop)
    moreover have "k < length (dev ?sh)" if "k \<in> set is" for k using Cons.prems that by simp
    ultimately obtain sh' m' where *: "shrink_pages ops is ?sh ?m = Ret (sh', m')" "objs m' = objs ?m"
      "same_head sh' ?sh" "length (dev sh') = length (dev ?sh)"
      "slot_page sh' = (\<lambda>k. if k \<in> set is then None else slot_page ?sh k)"
      "used m' = X \<union> ran (slot_page sh')"
      using Cons.IH [of ?sh ?m] by blast
    have "slot_page sh' = (\<lambda>k. if k \<in> set (i # is) then None else slot_page sh k)"
      using *(5) by (auto simp: fun_eq_iff sp)
    then show ?thesis using * Some i mem_okD(5) [OF mem, of p m]
      by simp
  qed
qed

section \<open>Growing the cache\<close>

text \<open>
  The pages in use are those of the live stripes, all different, and the set \<open>X\<close> of pages of
  others; the objects in use are the live stripes and the set \<open>Y\<close>.
\<close>

definition acct :: "('m \<Rightarrow> nat set) \<Rightarrow> ('m \<Rightarrow> sid set) \<Rightarrow> nat set \<Rightarrow> sid set \<Rightarrow> jraid5_conf \<Rightarrow> 'm \<Rightarrow> bool" where
  "acct used objs X Y conf m \<longleftrightarrow> map_inj (own conf) \<and> X \<inter> ran (own conf) = {} \<and>
     used m = X \<union> ran (own conf) \<and> Y \<inter> set (live conf) = {} \<and> objs m = Y \<union> set (live conf)"

lemma own_cong:
  "live c = live conf \<Longrightarrow> (\<And>i. i \<in> set (live conf) \<Longrightarrow> dev (heap c i) = dev (heap conf i)) \<Longrightarrow>
   own c = own conf"
  by (auto simp: own_def slot_page_def fun_eq_iff)

definition add_stripe :: "sid \<Rightarrow> stripe_head \<Rightarrow> jraid5_conf \<Rightarrow> jraid5_conf" where
  "add_stripe i sh conf = (upd_stripe i (\<lambda>_. sh\<lparr>sh_count := 1\<rparr>) conf)
     \<lparr>live := live conf @ [i], active_stripes := active_stripes conf + 1\<rparr>"

lemma add_stripe_simps [simp]:
  "heap (add_stripe i sh conf) = (heap conf)(i := sh\<lparr>sh_count := 1\<rparr>)"
  "live (add_stripe i sh conf) = live conf @ [i]"
  "inactive_list (add_stripe i sh conf) = inactive_list conf"
  "handle_list (add_stripe i sh conf) = handle_list conf"
  "active_stripes (add_stripe i sh conf) = active_stripes conf + 1"
  "raid_disks (add_stripe i sh conf) = raid_disks conf"
  "stripe_hashtbl (add_stripe i sh conf) = stripe_hashtbl conf"
  "buffer_size (add_stripe i sh conf) = buffer_size conf"
  by (simp_all add: add_stripe_def)

lemma add_stripe_inv:
  assumes inv: "cache_inv refs conf" and new: "i \<notin> set (live conf)"
    and sh: "same_head sh (zero_stripe n)" "length (dev sh) = unat (raid_disks conf)"
  shows "cache_inv refs (release_stripe i (add_stripe i sh conf))"
proof -
  let ?c = "release_stripe i (add_stripe i sh conf)"
  note h = same_headD [OF sh(1)]
  have z: "sh_state sh = 0" "hash_pprev sh = None" using h by (simp_all add: zero_stripe_def)
  have lists: "inactive_list ?c = inactive_list conf @ [i]" "handle_list ?c = handle_list conf"
    "active_stripes ?c = active_stripes conf"
    by (simp_all add: release_stripe_lists z)
  have un: "\<not> hashed conf i" using cache_invD(4) [OF inv] new by (auto simp: index_ok_def)
  have hashed: "hashed (add_stripe i sh conf) j = hashed conf j" for j
    using un z by (auto simp: hashed_def)
  have "lists_ok ?c" using cache_invD(1) [OF inv] new by (auto simp: lists_ok_def lists)
  moreover have "refs_ok refs ?c"
    using cache_invD(1,2) [OF inv] new by (auto simp: refs_ok_def lists_ok_def on_lru_def lists)
  moreover have "flags_ok ?c"
    using cache_invD(1,3) [OF inv] new by (auto simp: flags_ok_def lists_ok_def lists z)
  moreover have "index_ok ?c"
  proof -
    have ok: "hash_ok conf" "stripes.unique conf" using cache_invD(4) [OF inv] by (auto simp: index_ok_def)
    have "hash_ok ?c"
      by (rule hash_ok_cong [OF ok(1)])
         (use un z in \<open>auto simp: hashed_def\<close>)
    moreover have "stripes.unique ?c"
      by (rule unique_cong [OF ok(2)]) (use un in \<open>auto simp: hashed\<close>)
    ultimately show ?thesis using cache_invD(4) [OF inv] by (auto simp: index_ok_def hashed lists)
  qed
  moreover have "length (dev (heap ?c j)) = unat (raid_disks ?c)" if "j \<in> set (live ?c)" for j
    using that cache_invD(5) [OF inv, of j] sh(2) by (auto simp: lists)
  ultimately show ?thesis by (simp add: cache_inv_def)
qed

lemma add_stripe_acct:
  assumes "acct used objs X Y conf m" and new: "i \<notin> objs m"
    and inj: "map_inj (slot_page sh)" and fresh: "used m \<inter> ran (slot_page sh) = {}"
    and m': "used m' = used m \<union> ran (slot_page sh)" "objs m' = insert i (objs m)"
  shows "acct used objs X Y (release_stripe i (add_stripe i sh conf)) m'"
proof -
  let ?c = "release_stripe i (add_stripe i sh conf)"
  have a: "map_inj (own conf)" "X \<inter> ran (own conf) = {}" "used m = X \<union> ran (own conf)"
    "Y \<inter> set (live conf) = {}" "objs m = Y \<union> set (live conf)"
    using assms(1) by (auto simp: acct_def)
  have live: "live ?c = live conf @ [i]" by simp
  have own: "own ?c (j, k) = (if j = i then slot_page sh k else own conf (j, k))" for j k
    using new a(5) by (auto simp: own_def slot_page_def)
  have ran: "ran (own ?c) = ran (own conf) \<union> ran (slot_page sh)"
  proof -
    have "own conf (i, k) = None" for k using new a(5) by (simp add: own_def)
    then have none: "own conf (j, k) = Some p \<Longrightarrow> j \<noteq> i" for j k p by auto
    show ?thesis
    proof (intro set_eqI iffI)
      fix p assume "p \<in> ran (own ?c)"
      then obtain j k where "own ?c (j, k) = Some p" by (auto simp: ran_def)
      then show "p \<in> ran (own conf) \<union> ran (slot_page sh)"
        by (cases "j = i") (simp_all add: own ranI)
    next
      fix p assume "p \<in> ran (own conf) \<union> ran (slot_page sh)"
      then consider j k where "own conf (j, k) = Some p" | k where "slot_page sh k = Some p"
        by (auto simp: ran_def)
      then show "p \<in> ran (own ?c)"
      proof cases
        case (1 j k)
        then have "own ?c (j, k) = Some p" using none by (simp add: own)
        then show ?thesis by (rule ranI)
      next
        case (2 k)
        then have "own ?c (i, k) = Some p" by (simp add: own)
        then show ?thesis by (rule ranI)
      qed
    qed
  qed
  have "map_inj (own ?c)"
  proof -
    have "own conf (j, k) = Some p \<Longrightarrow> slot_page sh l = Some p \<Longrightarrow> False" for j k l p
      using fresh a(3) by (auto simp: ran_def)
    then show ?thesis using a(1) inj unfolding map_inj_def split_paired_All own
      by (auto split: if_splits)
  qed
  then show ?thesis using a fresh m' new by (auto simp: acct_def ran live)
qed

text \<open>The pages a new stripe gets.\<close>

lemma new_stripe_pages:
  assumes mem: "mem_ok ops used objs" and g: "grow_buffers ops n (zero_stripe n) m = (b, sh, m')"
  shows "map_inj (slot_page sh)" "used m \<inter> ran (slot_page sh) = {}" "used m' = used m \<union> ran (slot_page sh)"
    "objs m' = objs m" "length (dev sh) = n" "same_head sh (zero_stripe n)" "\<not> b \<Longrightarrow> \<forall>k < n. slot_page sh k \<noteq> None"
proof -
  have len: "length (dev (zero_stripe n)) = n" by (simp add: zero_stripe_def)
  show "map_inj (slot_page sh)" "used m \<inter> ran (slot_page sh) = {}" "used m' = used m \<union> ran (slot_page sh)"
    "objs m' = objs m" "length (dev sh) = n" "same_head sh (zero_stripe n)" "\<not> b \<Longrightarrow> \<forall>k < n. slot_page sh k \<noteq> None"
    using grow_pages_own [OF mem _ _ _ _ _ g [unfolded grow_buffers_def], of "used m"]
    by (auto simp: len slot_page_zero map_inj_def)
qed

text \<open>A stripe that did not get all its pages gives back those it got, and is freed.\<close>

lemma new_stripe_undone:
  assumes mem: "mem_ok ops used objs" and inv: "cache_inv refs conf" and acc: "acct used objs X Y conf m"
    and im: "cache_alloc ops m = Some (i, m1)" and g: "grow_buffers ops n (zero_stripe n) m1 = (b, sh, m2)"
  shows "\<exists>sh' m3. shrink_buffers ops n sh m2 = Ret (sh', m3) \<and> cache_inv refs (upd_stripe i (\<lambda>_. sh') conf) \<and>
    acct used objs X Y (upd_stripe i (\<lambda>_. sh') conf) (kfree ops i m3)"
proof -
  note al = mem_okD(8-10) [OF mem im] and grown = new_stripe_pages [OF mem g]
  have i: "i \<notin> set (live conf)" using al acc by (auto simp: acct_def)
  obtain sh' m3 where s: "shrink_buffers ops n sh m2 = Ret (sh', m3)" "objs m3 = objs m2"
    "same_head sh' sh" "slot_page sh' = (\<lambda>k. if k \<in> set [0..<n] then None else slot_page sh k)"
    "used m3 = used m1 \<union> ran (slot_page sh')" "length (dev sh') = length (dev sh)"
    using shrink_pages_own [OF mem _ grown(1-3), of "[0..<n]"] grown(5) unfolding shrink_buffers_def by auto
  have none: "slot_page sh' = (\<lambda>_. None)" using s(4) grown(5) by (auto simp: slot_page_def fun_eq_iff)
  let ?c = "upd_stripe i (\<lambda>_. sh') conf"
  have pprev: "hash_pprev sh' = None"
    using same_headD(2) [OF s(3)] same_headD(2) [OF grown(6)] by (simp add: zero_stripe_def)
  have un: "\<not> hashed conf i" using cache_invD(4) [OF inv] i by (auto simp: index_ok_def)
  have "index_ok ?c"
    by (rule index_ok_cong [OF cache_invD(4) [OF inv]]) (use un pprev in \<open>auto simp: hashed_def\<close>)
  then have "cache_inv refs ?c" using inv i
    by (auto simp: cache_inv_def lists_ok_def refs_ok_def flags_ok_def on_lru_def)
  moreover have "own ?c = own conf" using i by (intro own_cong) auto
  then have "acct used objs X Y ?c (kfree ops i m3)"
    using acc al mem_okD(11,12) [OF mem, of i m3] s(2,5) grown(4) none by (auto simp: acct_def)
  ultimately show ?thesis using s(1) by blast
qed

lemma grow_stripes_loop_ok:
  assumes mem: "mem_ok ops used objs"
    and "cache_inv refs conf" and "acct used objs X Y conf m"
  shows "\<exists>b conf' m'. grow_stripes_loop ops num conf m = Ret (b, conf', m') \<and>
    cache_inv refs conf' \<and> acct used objs X Y conf' m' \<and>
    (\<exists>new. live conf' = live conf @ new \<and> inactive_list conf' = inactive_list conf @ new \<and>
       (\<not> b \<longrightarrow> length new = num) \<and>
       (\<forall>i \<in> set new. \<forall>k < unat (raid_disks conf). slot_page (heap conf' i) k \<noteq> None)) \<and>
    raid_disks conf' = raid_disks conf \<and> (\<forall>i \<in> set (live conf). heap conf' i = heap conf i)"
  using assms(2-)
proof (induction num arbitrary: conf m)
  case 0
  then show ?case by auto
next
  case (Suc num)
  let ?n = "unat (raid_disks conf)"
  show ?case
  proof (cases "cache_alloc ops m")
    case None
    then show ?thesis using Suc.prems by auto
  next
    case (Some r)
    obtain i m1 where im: "cache_alloc ops m = Some (i, m1)" using Some by (cases r) simp
    note al = mem_okD(8-10) [OF mem im]
    have i: "i \<notin> set (live conf)" using al Suc.prems by (auto simp: acct_def)
    obtain b sh m2 where g: "grow_buffers ops ?n (zero_stripe ?n) m1 = (b, sh, m2)"
      by (cases "grow_buffers ops ?n (zero_stripe ?n) m1") auto
    note grown = new_stripe_pages [OF mem g]
    show ?thesis
    proof (cases b)
      case True
      then show ?thesis using new_stripe_undone [OF mem Suc.prems im g] im g i by (auto simp: Let_def)
    next
      case False
      let ?c = "release_stripe i (add_stripe i sh conf)"
      have inv: "cache_inv refs ?c" using Suc.prems(1) i grown(6,5) by (rule add_stripe_inv)
      have acc: "acct used objs X Y ?c m2"
        using Suc.prems(2) al grown by (intro add_stripe_acct) auto
      have step: "grow_stripes_loop ops (Suc num) conf m = grow_stripes_loop ops num ?c m2"
        using im g False by (simp add: Let_def add_stripe_def)
      have z: "sh_state sh = 0" using same_headD(4) [OF grown(6)] by (simp add: zero_stripe_def)
      have c: "live ?c = live conf @ [i]" "inactive_list ?c = inactive_list conf @ [i]"
        "raid_disks ?c = raid_disks conf"
        using z by (simp_all add: release_stripe_lists)
      have heap: "heap ?c j = heap conf j" if "j \<noteq> i" for j
        using that by (simp add: release_stripe_def release_stripe_locked_def Let_def
            atomic_add_count_def)
      have new: "slot_page (heap ?c i) = slot_page sh"
        by (simp add: slot_page_def fun_eq_iff)
      obtain b' conf' m' ns where r: "grow_stripes_loop ops num ?c m2 = Ret (b', conf', m')"
        "cache_inv refs conf'" "acct used objs X Y conf' m'" "live conf' = live ?c @ ns"
        "inactive_list conf' = inactive_list ?c @ ns" "\<not> b' \<longrightarrow> length ns = num"
        "\<forall>j \<in> set ns. \<forall>k < ?n. slot_page (heap conf' j) k \<noteq> None"
        "raid_disks conf' = raid_disks ?c" "\<forall>j \<in> set (live ?c). heap conf' j = heap ?c j"
        using Suc.IH [OF inv acc] by (auto simp: c)
      have "\<forall>k < ?n. slot_page (heap conf' i) k \<noteq> None" using r(9) c new grown(7) False by auto
      moreover have "\<forall>j \<in> set (live conf). heap conf' j = heap conf j"
      proof
        fix j assume j: "j \<in> set (live conf)"
        then have "j \<noteq> i" using i by auto
        then show "heap conf' j = heap conf j" using r(9) c(1) j heap by simp
      qed
      ultimately show ?thesis
        unfolding step using r(1-8) c
        by (intro exI [of _ b'] exI [of _ conf'] exI [of _ m'] conjI exI [of _ "i # ns"]) auto
    qed
  qed
qed

lemma grow_stripes_ok:
  assumes mem: "mem_ok ops used objs" and inv: "cache_inv refs conf"
    and acc: "acct used objs X Y conf m"
  shows "\<exists>b conf' m'. grow_stripes ops num conf m = Ret (b, conf', m') \<and>
    cache_inv refs conf' \<and> acct used objs X Y conf' m' \<and>
    (\<exists>new. live conf' = live conf @ new \<and> inactive_list conf' = inactive_list conf @ new \<and>
       (\<not> b \<longrightarrow> length new = num) \<and>
       (\<forall>i \<in> set new. \<forall>k < unat (raid_disks conf). slot_page (heap conf' i) k \<noteq> None))"
proof (cases "cache_create ops m")
  case None
  then show ?thesis using inv acc by (auto simp: grow_stripes_def)
next
  case (Some m1)
  have "acct used objs X Y conf m1"
    using acc mem_okD(6,7) [OF mem Some] by (simp add: acct_def)
  from grow_stripes_loop_ok [OF mem inv this, of num] show ?thesis
    using Some by (auto simp: grow_stripes_def)
qed

section \<open>Shrinking the cache\<close>

text \<open>What one round of \<open>shrink_stripes\<close> leaves in the configuration.\<close>

definition drop_stripe :: "sid \<Rightarrow> stripe_head \<Rightarrow> sid list \<Rightarrow> jraid5_conf \<Rightarrow> jraid5_conf" where
  "drop_stripe i sh rest conf =
     (let conf1 = (remove_hash i (conf\<lparr>inactive_list := rest\<rparr>))\<lparr>active_stripes := active_stripes conf + 1\<rparr>
      in (upd_stripe i (\<lambda>_. sh) conf1)\<lparr>live := remove1 i (live conf1),
           active_stripes := active_stripes conf1 - 1\<rparr>)"

lemma drop_stripe_simps [simp]:
  "live (drop_stripe i sh rest conf) = remove1 i (live conf)"
  "inactive_list (drop_stripe i sh rest conf) = rest"
  "handle_list (drop_stripe i sh rest conf) = handle_list conf"
  "active_stripes (drop_stripe i sh rest conf) = active_stripes conf"
  "raid_disks (drop_stripe i sh rest conf) = raid_disks conf"
  "j \<noteq> i \<Longrightarrow> dev (heap (drop_stripe i sh rest conf) j) = dev (heap conf j)"
  "j \<noteq> i \<Longrightarrow> sh_count (heap (drop_stripe i sh rest conf) j) = sh_count (heap conf j)"
  "j \<noteq> i \<Longrightarrow> sh_state (heap (drop_stripe i sh rest conf) j) = sh_state (heap conf j)"
  by (simp_all add: drop_stripe_def Let_def)

lemma jraid_disks_remove_hash [simp]: "jraid_disks (remove_hash i conf) = jraid_disks conf"
proof -
  have "jraid_disks (store_link l v c) = jraid_disks c" for l v c by (cases l) (simp_all add: upd_stripe_def)
  then show ?thesis by (simp add: remove_hash_def Let_def upd_stripe_def split: option.splits)
qed

lemma jraid_disks_drop_stripe [simp]: "jraid_disks (drop_stripe i sh rest conf) = jraid_disks conf"
  by (simp add: drop_stripe_def Let_def) (simp add: upd_stripe_def)

lemma drop_stripe_inv:
  assumes inv: "cache_inv refs conf" and ina: "inactive_list conf = i # rest"
    and sh: "same_head sh (heap (remove_hash i (conf\<lparr>inactive_list := rest\<rparr>)) i)"
  shows "cache_inv refs (drop_stripe i sh rest conf)"
proof -
  define c1 where "c1 = (remove_hash i (conf\<lparr>inactive_list := rest\<rparr>))
    \<lparr>active_stripes := active_stripes conf + 1\<rparr>"
  let ?c = "drop_stripe i sh rest conf"
  note idx = free_stripe_index [OF inv ina c1_def]
  have un: "hash_pprev sh = None"
    using idx(3) [of i] same_headD(2) [OF sh] by (simp add: hashed_def c1_def)
  have c: "?c = (upd_stripe i (\<lambda>_. sh) c1)\<lparr>live := remove1 i (live c1),
      active_stripes := active_stripes c1 - 1\<rparr>" by (simp add: drop_stripe_def Let_def c1_def)
  have h: "hashed ?c j \<longleftrightarrow> hashed c1 j" for j
    using un idx(3) [of i] by (auto simp: hashed_def c)
  have "hash_ok ?c"
    by (rule hash_ok_cong [OF idx(1)]) (use un idx(3) [of i] in \<open>auto simp: c hashed_def\<close>)
  moreover have "stripes.unique ?c"
    by (rule unique_cong [OF idx(2)]) (use idx(3) [of i] h in \<open>auto simp: c\<close>)
  ultimately have "index_ok ?c"
    using cache_invD(1,4) [OF inv] ina h idx(3) by (auto simp: index_ok_def lists_ok_def set_remove1_eq)
  moreover have "lists_ok ?c"
    using cache_invD(1) [OF inv] ina by (auto simp: lists_ok_def set_remove1_eq length_remove1 of_nat_diff
        Suc_le_eq dest: length_pos_if_in_set)
  moreover have "refs_ok refs ?c"
    using cache_invD(1,2) [OF inv] ina
    by (auto simp: refs_ok_def lists_ok_def on_lru_def set_remove1_eq)
  moreover have "flags_ok ?c"
  proof -
    have "i \<notin> set rest" "i \<notin> set (handle_list conf)"
      using cache_invD(1) [OF inv] ina by (auto simp: lists_ok_def)
    then have "j \<in> set rest \<Longrightarrow> j \<noteq> i" "j \<in> set (handle_list conf) \<Longrightarrow> j \<noteq> i" for j by auto
    then show ?thesis using cache_invD(3) [OF inv] ina by (simp add: flags_ok_def)
  qed
  moreover have "length (dev (heap ?c j)) = unat (raid_disks ?c)" if "j \<in> set (live ?c)" for j
    using that cache_invD(1) [OF inv] cache_invD(5) [OF inv, of j]
    by (cases "j = i") (auto simp: lists_ok_def set_remove1_eq)
  ultimately show ?thesis by (simp add: cache_inv_def)
qed

lemma own_subset:
  assumes "i \<in> set (live conf)"
  shows "ran (slot_page (heap conf i)) \<subseteq> ran (own conf)"
proof
  fix p assume "p \<in> ran (slot_page (heap conf i))"
  then obtain k where "slot_page (heap conf i) k = Some p" by (auto simp: ran_def)
  then have "own conf (i, k) = Some p" using assms by (simp add: own_def)
  then show "p \<in> ran (own conf)" by (rule ranI)
qed

lemma drop_stripe_acct:
  assumes acc: "acct used objs X Y conf m" and live: "distinct (live conf)" "i \<in> set (live conf)"
    and m': "used m' = (used m - ran (slot_page (heap conf i))) \<union> L" "objs m' = objs m - {i}"
    and L: "L \<subseteq> ran (slot_page (heap conf i))"
  shows "acct used objs (X \<union> L) Y (drop_stripe i sh rest conf) m'"
proof -
  let ?c = "drop_stripe i sh rest conf"
  have a: "map_inj (own conf)" "X \<inter> ran (own conf) = {}" "used m = X \<union> ran (own conf)"
    "Y \<inter> set (live conf) = {}" "objs m = Y \<union> set (live conf)"
    using acc by (auto simp: acct_def)
  have own: "own ?c (j, k) = (if j = i then None else own conf (j, k))" for j k
    using live by (auto simp: own_def set_remove1_eq slot_page_def)
  have own_i: "own conf (i, k) = slot_page (heap conf i) k" for k using live by (simp add: own_def)
  have inj: "map_inj (own ?c)" using a(1) unfolding map_inj_def split_paired_All own by auto
  have "p \<in> ran (own ?c) \<longleftrightarrow> p \<in> ran (own conf) \<and> p \<notin> ran (slot_page (heap conf i))" for p
  proof -
    have "p \<in> ran (own ?c) \<longleftrightarrow> (\<exists>j k. j \<noteq> i \<and> own conf (j, k) = Some p)"
      by (auto simp: ran_def own split: if_splits)
    also have "\<dots> \<longleftrightarrow> p \<in> ran (own conf) \<and> \<not> (\<exists>k. own conf (i, k) = Some p)"
      using a(1) unfolding map_inj_def ran_def split_paired_All by auto
    finally show ?thesis by (simp add: own_i ran_def)
  qed
  moreover have "ran (slot_page (heap conf i)) \<subseteq> ran (own conf)" using live(2) by (rule own_subset)
  ultimately show ?thesis
    using a inj m' L live by (auto simp: acct_def set_remove1_eq)
qed

text \<open>The pages \<open>shrink_stripes\<close> does not give back: the slots from \<open>jraid_disks\<close> on.\<close>

definition tail_pages :: "nat \<Rightarrow> jraid5_conf \<Rightarrow> sid set \<Rightarrow> nat set" where
  "tail_pages n conf S = {p. \<exists>i \<in> S. \<exists>k \<ge> n. slot_page (heap conf i) k = Some p}"

text \<open>One idle stripe is stripped of its first pages and freed; its other pages are nobody's.\<close>

lemma shrink_one:
  assumes mem: "mem_ok ops used objs" and inv: "cache_inv refs conf" and acc: "acct used objs X Y conf m"
    and jd: "jd \<le> unat (raid_disks conf)" and idle: "inactive_list conf = i # rest"
  shows "\<exists>sh m1. shrink_buffers ops jd (heap (remove_hash i (conf\<lparr>inactive_list := rest\<rparr>)) i) m = Ret (sh, m1) \<and>
    cache_inv refs (drop_stripe i sh rest conf) \<and>
    acct used objs (X \<union> tail_pages jd conf {i}) Y (drop_stripe i sh rest conf) (kfree ops i m1)"
proof -
  let ?c0 = "remove_hash i (conf\<lparr>inactive_list := rest\<rparr>)" and ?X = "used m - ran (slot_page (heap conf i))"
  have live: "i \<in> set (live conf)" "distinct (live conf)"
    using cache_invD(1) [OF inv] idle by (auto simp: lists_ok_def)
  have sp: "slot_page (heap ?c0 i) = slot_page (heap conf i)" by (simp add: slot_page_def fun_eq_iff)
  have len: "length (dev (heap ?c0 i)) = unat (raid_disks conf)" using cache_invD(5) [OF inv live(1)] by simp
  have own: "own conf (i, k) = slot_page (heap conf i) k" for k using live by (simp add: own_def)
  have inj: "map_inj (slot_page (heap ?c0 i))"
    using acc unfolding sp acct_def map_inj_def own [symmetric] by blast
  have sub: "ran (slot_page (heap conf i)) \<subseteq> used m"
    using acc own_subset [OF live(1)] by (auto simp: acct_def)
  have "k < length (dev (heap ?c0 i))" if "k \<in> set [0..<jd]" for k using that jd len by simp
  moreover have "?X \<inter> ran (slot_page (heap ?c0 i)) = {}" unfolding sp by blast
  moreover have "used m = ?X \<union> ran (slot_page (heap ?c0 i))" unfolding sp using sub by blast
  ultimately obtain sh m1 where s: "shrink_buffers ops jd (heap ?c0 i) m = Ret (sh, m1)"
    "objs m1 = objs m" "same_head sh (heap ?c0 i)"
    "slot_page sh = (\<lambda>k. if k \<in> set [0..<jd] then None else slot_page (heap ?c0 i) k)"
    "used m1 = ?X \<union> ran (slot_page sh)"
    using shrink_pages_own [OF mem _ inj, of "[0..<jd]" ?X m] unfolding shrink_buffers_def by blast
  have "ran (slot_page sh) = tail_pages jd conf {i}"
    unfolding ran_def s(4) sp tail_pages_def by (simp add: not_less) metis
  moreover have "acct used objs (X \<union> ran (slot_page sh)) Y (drop_stripe i sh rest conf) (kfree ops i m1)"
  proof (rule drop_stripe_acct [OF acc live(2,1)])
    show "ran (slot_page sh) \<subseteq> ran (slot_page (heap conf i))" by (auto simp: ran_def s(4) sp split: if_splits)
  qed (use s(2,5) mem_okD(11,12) [OF mem] in auto)
  ultimately show ?thesis using s(1) drop_stripe_inv [OF inv idle s(3)] by auto
qed

lemma shrink_stripes_ok:
  assumes mem: "mem_ok ops used objs" and "cache_inv refs conf" and "acct used objs X Y conf m"
    and "unat (jraid_disks conf) \<le> unat (raid_disks conf)"
  shows "\<exists>conf' m'. shrink_stripes ops num conf m = Ret (conf', m') \<and> cache_inv refs conf' \<and>
    set (live conf') = set (live conf) - set (take num (inactive_list conf)) \<and>
    inactive_list conf' = drop num (inactive_list conf) \<and>
    acct used objs (X \<union> tail_pages (unat (jraid_disks conf)) conf (set (take num (inactive_list conf))))
      Y conf' m'"
  using assms(2-)
proof (induction num arbitrary: conf m X)
  case 0
  then show ?case by (auto simp: tail_pages_def)
next
  case (Suc num)
  show ?case
  proof (cases "inactive_list conf")
    case Nil
    then show ?thesis using Suc.prems by (auto simp: get_free_stripe_def tail_pages_def)
  next
    case (Cons i rest)
    let ?jd = "unat (jraid_disks conf)"
    have live: "i \<in> set (live conf)" "distinct (live conf)" "i \<notin> set rest"
      using cache_invD(1) [OF Suc.prems(1)] Cons by (auto simp: lists_ok_def)
    obtain sh m1 where s: "shrink_buffers ops ?jd (heap (remove_hash i (conf\<lparr>inactive_list := rest\<rparr>)) i) m = Ret (sh, m1)"
      "cache_inv refs (drop_stripe i sh rest conf)"
      "acct used objs (X \<union> tail_pages ?jd conf {i}) Y (drop_stripe i sh rest conf) (kfree ops i m1)"
      using shrink_one [OF mem Suc.prems Cons] by blast
    let ?c = "drop_stripe i sh rest conf"
    have step: "shrink_stripes ops (Suc num) conf m = shrink_stripes ops num ?c (kfree ops i m1)"
      using s(1) by (simp add: get_free_stripe_def Cons Let_def drop_stripe_def)
    obtain conf' m' where r: "shrink_stripes ops num ?c (kfree ops i m1) = Ret (conf', m')"
      "cache_inv refs conf'" "set (live conf') = set (live ?c) - set (take num rest)"
      "inactive_list conf' = drop num rest"
      "acct used objs (X \<union> tail_pages ?jd conf {i} \<union> tail_pages ?jd ?c (set (take num rest))) Y conf' m'"
      using Suc.IH [OF s(2,3)] Suc.prems(3) by auto
    have "tail_pages ?jd ?c (set (take num rest)) = tail_pages ?jd conf (set (take num rest))"
    proof -
      have "slot_page (heap ?c j) = slot_page (heap conf j)" if "j \<in> set (take num rest)" for j
      proof -
        have "j \<noteq> i" using that live(3) by (auto dest: in_set_takeD)
        then show ?thesis by (simp add: slot_page_def fun_eq_iff)
      qed
      then show ?thesis by (auto simp: tail_pages_def)
    qed
    then have "X \<union> tail_pages ?jd conf {i} \<union> tail_pages ?jd ?c (set (take num rest))
        = X \<union> tail_pages ?jd conf (set (take (Suc num) (inactive_list conf)))"
      by (auto simp: Cons tail_pages_def)
    moreover have set: "set (live conf') = set (live conf) - set (take (Suc num) (inactive_list conf))"
      using r(3) live by (simp add: Cons set_remove1_eq) blast
    ultimately show ?thesis
      unfolding step using r(1,2,4,5) set
      by (intro exI [of _ conf'] exI [of _ m'] conjI) (simp_all add: Cons)
  qed
qed

section \<open>Properties\<close>

text \<open>A memory of two lists of numbers in use, and a stripe with four pages.\<close>

definition mem_example :: "(nat list \<times> nat list) mem_ops" where
  "mem_example = \<lparr>alloc_page = (\<lambda>(P, S). Some (Suc (sum_list P), Suc (sum_list P) # P, S)),
     page_release = (\<lambda>p (P, S). (removeAll p P, S)), cache_create = Some,
     cache_alloc = (\<lambda>(P, S). Some (Suc (sum_list S), P, Suc (sum_list S) # S)),
     kfree = (\<lambda>i (P, S). (P, removeAll i S))\<rparr>"

lemma mem_example_ok: "mem_ok mem_example (\<lambda>(P, S). set P) (\<lambda>(P, S). set S)"
proof -
  have "Suc (sum_list xs) \<notin> set xs" for xs :: "nat list"
    using member_le_sum_list [of "Suc (sum_list xs)" xs] by auto
  then show ?thesis by (auto simp: mem_ok_def mem_example_def)
qed

definition paged_example :: jraid5_conf where
  "paged_example = cache_example\<lparr>heap := (\<lambda>_. (zero_stripe 4)\<lparr>dev := map (\<lambda>p. zero_dev\<lparr>page := Some p\<rparr>)
     [1, 2, 3, 4]\<rparr>), jraid_disks := 3\<rparr>"

lemma paged_example_inv: "cache_inv (\<lambda>_. 0) paged_example"
proof -
  have z: "stripe_hashtbl paged_example = (\<lambda>_. None)" "\<not> hashed paged_example i" for i
    by (simp_all add: paged_example_def cache_example_def conf_example_def zero_conf_def hashed_def
        zero_stripe_def)
  then have "hash_ok paged_example" using hash_rep_zero by (auto simp: hash_ok_def)
  then show ?thesis using z
    by (simp add: cache_inv_defs stripes.unique_def)
       (simp add: paged_example_def cache_example_def conf_example_def zero_conf_def zero_stripe_def)
qed

lemma paged_example_pages:
  "slot_page (heap paged_example i) k = (if k < 4 then Some (k + 1) else None)"
proof -
  have "k < 4 \<Longrightarrow> k = 0 \<or> k = 1 \<or> k = 2 \<or> k = 3" by linarith
  then show ?thesis by (auto simp: slot_page_def paged_example_def)
qed

lemma paged_example_acct:
  "acct (\<lambda>(P, S). set P) (\<lambda>(P, S). set S) {} {} paged_example ([1, 2, 3, 4], [0])"
proof -
  have own: "own paged_example (i, k) = (if i = 0 \<and> k < 4 then Some (k + 1) else None)" for i k
    by (simp add: own_def paged_example_pages) (simp add: paged_example_def cache_example_def)
  have "ran (own paged_example) = {1, 2, 3, 4}"
  proof (intro set_eqI iffI)
    fix p :: nat assume "p \<in> {1, 2, 3, 4}"
    then have "own paged_example (0, p - 1) = Some p" by (auto simp: own)
    then show "p \<in> ran (own paged_example)" by (rule ranI)
  next
    fix p assume "p \<in> ran (own paged_example)"
    then obtain k where "k < 4" "p = k + 1" by (auto simp: ran_def own split: if_splits)
    then show "p \<in> {1, 2, 3, 4}" by auto
  qed
  moreover have "map_inj (own paged_example)" by (auto simp: map_inj_def own split: if_splits)
  moreover have "live paged_example = [0]" by (simp add: paged_example_def cache_example_def)
  ultimately show ?thesis by (auto simp: acct_def)
qed

text \<open>
  C11 \<open>grow_stripes\<close> keeps the cache consistent and loses no memory, whatever the allocators
  answer: the stripes it adds are on the free list, every member of each has a page of its
  own, and the pages and objects in use afterwards are exactly those of the stripes in the
  cache, also when it fails half-way and gives the unfinished stripe back. It fails only if
  an allocation failed; otherwise it adds \<open>num\<close> stripes.
\<close>

theorem grow_stripes_accounts:
  assumes "mem_ok ops used objs" "cache_inv refs conf" "acct used objs X Y conf m"
  shows "\<exists>b conf' m'. grow_stripes ops num conf m = Ret (b, conf', m') \<and>
    cache_inv refs conf' \<and> acct used objs X Y conf' m' \<and>
    (\<exists>new. live conf' = live conf @ new \<and> inactive_list conf' = inactive_list conf @ new \<and>
       (\<not> b \<longrightarrow> length new = num) \<and>
       (\<forall>i \<in> set new. \<forall>k < unat (raid_disks conf). slot_page (heap conf' i) k \<noteq> None))"
  by (rule grow_stripes_ok [OF assms])

theorem grow_stripes_accounts_witness:
  "\<exists>b conf' m'. grow_stripes mem_example 2 paged_example ([1, 2, 3, 4], [0]) = Ret (b, conf', m') \<and>
     cache_inv (\<lambda>_. 0) conf'"
  using grow_stripes_accounts [OF mem_example_ok paged_example_inv paged_example_acct, of 2] by blast



end
