(* ===== verification/Jmd_Types.thy ===== *)
theory Jmd_Types
  imports Jraid5_Types
begin

text \<open>
  The data of the array manager: the on-disk superblock of \<^verbatim>\<open>src/src/jmd_p.h\<close>, the user
  records of \<^verbatim>\<open>src/src/jmd_u.h\<close>, member devices, arrays and personalities of
  \<^verbatim>\<open>src/src/jmd_k.h\<close>, with the inline functions of these headers.

  A device number is the pair of its major and minor number: \<open>MKDEV\<close> is pairing. A member
  device is a number into the heap \<open>rd\<close> of the manager's state; \<open>all_jraid_disks\<close> and the
  array's \<open>disks\<close> are lists of such numbers, in the order the kernel lists have. Reserved words
  of a descriptor, names, and the kernel objects the code only hands on (queues, kobjects,
  semaphores) have no counterpart.
\<close>

unbundle bit_operations_syntax

section \<open>Descriptors and superblocks\<close>

definition MD_DISK_FAULTY :: nat where "MD_DISK_FAULTY = 0"
definition MD_DISK_ACTIVE :: nat where "MD_DISK_ACTIVE = 1"
definition MD_DISK_SYNC :: nat where "MD_DISK_SYNC = 2"
definition MD_DISK_REMOVED :: nat where "MD_DISK_REMOVED = 3"

lemmas disk_bits = MD_DISK_FAULTY_def MD_DISK_ACTIVE_def MD_DISK_SYNC_def MD_DISK_REMOVED_def

record jmd_disk =
  dk_number :: u32
  dk_major :: u32
  dk_minor :: u32
  dk_raid_disk :: u32
  dk_state :: u32

definition MD_SB_MAGIC :: u32 where "MD_SB_MAGIC = 0xa92b4efc"
definition MD_SB_CLEAN :: nat where "MD_SB_CLEAN = 0"
definition MD_SB_ERRORS :: nat where "MD_SB_ERRORS = 1"

record jmd_superblock =
  md_magic :: u32
  major_version :: u32
  minor_version :: u32
  patch_version :: u32
  gvalid_words :: u32
  set_uuid0 :: u32
  ctime :: u32
  sb_level :: u32
  sb_size :: u32
  nr_disks :: u32
  sb_raid_disks :: u32
  md_minor :: u32
  not_persistent :: u32
  set_uuid1 :: u32
  set_uuid2 :: u32
  set_uuid3 :: u32
  utime :: u32
  sb_state :: u32
  active_disks :: u32
  sb_working_disks :: u32
  sb_failed_disks :: u32
  spare_disks :: u32
  sb_csum :: u32
  events_lo :: u32
  events_hi :: u32
  layout :: u32
  sb_chunk_size :: u32
  root_pv :: u32
  root_block :: u32
  sb_disks :: "jmd_disk list"
  this_disk :: jmd_disk

definition jmd_event :: "jmd_superblock \<Rightarrow> u64" where
  "jmd_event sb = (let ev = (ucast (events_hi sb) :: u64) in push_bit 32 ev OR ucast (events_lo sb))"

definition dk_dev :: "jmd_disk \<Rightarrow> dev_t" where
  "dk_dev d = (dk_major d, dk_minor d)"

definition MD_RESERVED_BYTES :: nat where "MD_RESERVED_BYTES = 64 * 1024"
definition MD_RESERVED_BLOCKS :: nat where "MD_RESERVED_BLOCKS = MD_RESERVED_BYTES div 512"

definition MD_NEW_SIZE_BLOCKS :: "sector_t \<Rightarrow> sector_t" where
  "MD_NEW_SIZE_BLOCKS x = (x AND NOT (of_nat MD_RESERVED_BLOCKS - 1)) - of_nat MD_RESERVED_BLOCKS"

section \<open>Disk state bits\<close>

definition disk_faulty :: "jmd_disk \<Rightarrow> bool" where "disk_faulty d = bit (dk_state d) MD_DISK_FAULTY"
definition disk_active :: "jmd_disk \<Rightarrow> bool" where "disk_active d = bit (dk_state d) MD_DISK_ACTIVE"
definition disk_sync :: "jmd_disk \<Rightarrow> bool" where "disk_sync d = bit (dk_state d) MD_DISK_SYNC"

definition disk_spare :: "jmd_disk \<Rightarrow> bool" where
  "disk_spare d \<longleftrightarrow> \<not> disk_sync d \<and> \<not> disk_active d \<and> \<not> disk_faulty d"

definition disk_removed :: "jmd_disk \<Rightarrow> bool" where "disk_removed d = bit (dk_state d) MD_DISK_REMOVED"

definition mark_disk_faulty :: "jmd_disk \<Rightarrow> jmd_disk" where
  "mark_disk_faulty d = d\<lparr>dk_state := set_bit MD_DISK_FAULTY (dk_state d)\<rparr>"

definition mark_disk_active :: "jmd_disk \<Rightarrow> jmd_disk" where
  "mark_disk_active d = d\<lparr>dk_state := set_bit MD_DISK_ACTIVE (dk_state d)\<rparr>"

definition mark_disk_sync :: "jmd_disk \<Rightarrow> jmd_disk" where
  "mark_disk_sync d = d\<lparr>dk_state := set_bit MD_DISK_SYNC (dk_state d)\<rparr>"

definition mark_disk_spare :: "jmd_disk \<Rightarrow> jmd_disk" where
  "mark_disk_spare d = d\<lparr>dk_state := 0\<rparr>"

definition mark_disk_removed :: "jmd_disk \<Rightarrow> jmd_disk" where
  "mark_disk_removed d = d\<lparr>dk_state := set_bit MD_DISK_FAULTY 0 OR set_bit MD_DISK_REMOVED 0\<rparr>"

definition mark_disk_inactive :: "jmd_disk \<Rightarrow> jmd_disk" where
  "mark_disk_inactive d = d\<lparr>dk_state := unset_bit MD_DISK_ACTIVE (dk_state d)\<rparr>"

definition mark_disk_nonsync :: "jmd_disk \<Rightarrow> jmd_disk" where
  "mark_disk_nonsync d = d\<lparr>dk_state := unset_bit MD_DISK_SYNC (dk_state d)\<rparr>"

lemmas disk_flag_defs = disk_faulty_def disk_active_def disk_sync_def disk_removed_def disk_spare_def
  mark_disk_faulty_def mark_disk_active_def mark_disk_sync_def mark_disk_spare_def
  mark_disk_removed_def mark_disk_inactive_def mark_disk_nonsync_def

section \<open>Levels and personalities\<close>

definition LINEAR :: nat where "LINEAR = 1"
definition RAID0 :: nat where "RAID0 = 2"
definition RAID1 :: nat where "RAID1 = 3"
definition RAID5 :: nat where "RAID5 = 4"
definition TRANSLUCENT :: nat where "TRANSLUCENT = 5"
definition HSM :: nat where "HSM = 6"
definition MAX_PERSONALITY :: nat where "MAX_PERSONALITY = 7"
definition MD_RESERVED :: nat where "MD_RESERVED = 0"

lemmas pers_defs = LINEAR_def RAID0_def RAID1_def RAID5_def TRANSLUCENT_def HSM_def
  MAX_PERSONALITY_def MD_RESERVED_def

text \<open>\<open>None\<close> is the call of \<open>panic\<close>.\<close>

definition pers_to_level :: "nat \<Rightarrow> int option" where
  "pers_to_level p =
     (if p = HSM then Some (- 3) else if p = TRANSLUCENT then Some (- 2)
      else if p = LINEAR then Some (- 1) else if p = RAID0 then Some 0
      else if p = RAID1 then Some 1 else if p = RAID5 then Some 5 else None)"

definition level_to_pers :: "int \<Rightarrow> nat" where
  "level_to_pers l =
     (if l = - 3 then HSM else if l = - 2 then TRANSLUCENT else if l = - 1 then LINEAR
      else if l = 0 then RAID0 else if l = 1 then RAID1 else if l = 4 \<or> l = 5 then RAID5
      else MD_RESERVED)"

section \<open>Member devices, arrays and the manager's state\<close>

record jmd_rdev =
  rd_dev :: dev_t
  old_dev :: dev_t
  rd_size :: u64
  rd_bound :: bool
  rd_sb :: "jmd_superblock option"
  rd_opened :: bool
  sb_loaded :: bool
  sb_offset :: u64
  faulty :: bool
  desc_nr :: cint
  nr_pending :: int

record jmd_param =
  pm_personality :: nat
  pm_chunk_size :: cint

record jmddev =
  md_sb :: "jmd_superblock option"
  mdisks :: "nat list"
  nb_dev :: u32
  md_pers :: "nat option"
  sb_dirty :: bool
  param :: jmd_param
  chunk_sectors_md :: u32
  array_sectors :: u64
  pending_writes :: int
  openers :: int
  md_private :: "jraid5_conf option"
  md_thread :: "jmd_thread option"
  recovery :: u64
  recovery_active :: int
  curr_resync :: u64
  resync_mark :: u64
  resync_mark_cnt :: u64

record jmd_state =
  rd :: "nat \<Rightarrow> jmd_rdev"
  all_jraid_disks :: "nat list"
  md :: jmddev
  pers_table :: "nat \<Rightarrow> string option"
  jmd_size :: u32
  jmd_maxreadahead :: u32
  jmd_recovery_thread :: "jmd_thread option"
  kthreads :: "string list"
  capacity :: u64
  hd_nr_sects :: u64

record jmd_array_info =
  ai_level :: u32
  ai_size :: u32
  ai_nr_disks :: u32
  ai_raid_disks :: u32
  ai_md_minor :: u32
  ai_not_persistent :: u32
  ai_state :: u32
  ai_active_disks :: u32
  ai_working_disks :: u32
  ai_failed_disks :: u32
  ai_spare_disks :: u32
  ai_layout :: u32
  ai_chunk_size :: u32

record jmd_disk_info =
  in_number :: u32
  in_major :: u32
  in_minor :: u32
  in_raid_disk :: u32
  in_state :: u32

definition zero_disk :: jmd_disk where
  "zero_disk = \<lparr>dk_number = 0, dk_major = 0, dk_minor = 0, dk_raid_disk = 0, dk_state = 0\<rparr>"

definition zero_sb :: jmd_superblock where
  "zero_sb = \<lparr>md_magic = 0, major_version = 0, minor_version = 0, patch_version = 0,
     gvalid_words = 0, set_uuid0 = 0, ctime = 0, sb_level = 0, sb_size = 0, nr_disks = 0,
     sb_raid_disks = 0, md_minor = 0, not_persistent = 0, set_uuid1 = 0, set_uuid2 = 0,
     set_uuid3 = 0, utime = 0, sb_state = 0, active_disks = 0, sb_working_disks = 0,
     sb_failed_disks = 0, spare_disks = 0, sb_csum = 0, events_lo = 0, events_hi = 0, layout = 0,
     sb_chunk_size = 0, root_pv = 0, root_block = 0, sb_disks = replicate MD_SB_DISKS zero_disk,
     this_disk = zero_disk\<rparr>"

definition zero_rdev :: jmd_rdev where
  "zero_rdev = \<lparr>rd_dev = (0, 0), old_dev = (0, 0), rd_size = 0, rd_bound = False, rd_sb = None,
     rd_opened = False, sb_loaded = False, sb_offset = 0, faulty = False, desc_nr = 0,
     nr_pending = 0\<rparr>"

definition upd_rd :: "nat \<Rightarrow> (jmd_rdev \<Rightarrow> jmd_rdev) \<Rightarrow> jmd_state \<Rightarrow> jmd_state" where
  "upd_rd i f s = s\<lparr>rd := (rd s)(i := f (rd s i))\<rparr>"

definition upd_md :: "(jmddev \<Rightarrow> jmddev) \<Rightarrow> jmd_state \<Rightarrow> jmd_state" where
  "upd_md f s = s\<lparr>md := f (md s)\<rparr>"

lemma upd_rd_simps [simp]:
  "rd (upd_rd i f s) = (rd s)(i := f (rd s i))" "md (upd_rd i f s) = md s"
  "all_jraid_disks (upd_rd i f s) = all_jraid_disks s" "pers_table (upd_rd i f s) = pers_table s"
  "jmd_size (upd_rd i f s) = jmd_size s" "kthreads (upd_rd i f s) = kthreads s"
  "jmd_recovery_thread (upd_rd i f s) = jmd_recovery_thread s" "capacity (upd_rd i f s) = capacity s"
  by (simp_all add: upd_rd_def)

lemma upd_md_simps [simp]:
  "rd (upd_md f s) = rd s" "md (upd_md f s) = f (md s)"
  "all_jraid_disks (upd_md f s) = all_jraid_disks s" "pers_table (upd_md f s) = pers_table s"
  "jmd_size (upd_md f s) = jmd_size s" "kthreads (upd_md f s) = kthreads s"
  "jmd_recovery_thread (upd_md f s) = jmd_recovery_thread s" "capacity (upd_md f s) = capacity s"
  by (simp_all add: upd_md_def)

section \<open>Accounting of requests\<close>

definition MD_RECOVERY_ERR :: nat where "MD_RECOVERY_ERR = 2"
definition MD_RECOVERY_NEEDED :: nat where "MD_RECOVERY_NEEDED = 5"

definition rdev_dec_pending :: "nat \<Rightarrow> jmd_state \<Rightarrow> jmd_state" where
  "rdev_dec_pending i s =
     (let fl = faulty (rd s i);
          s1 = upd_rd i (\<lambda>r. r\<lparr>nr_pending := nr_pending r - 1\<rparr>) s
      in if nr_pending (rd s1 i) = 0 \<and> fl
         then upd_md (\<lambda>d. d\<lparr>recovery := set_bit MD_RECOVERY_NEEDED (recovery d)\<rparr>) s1 else s1)"

section \<open>The event counter and the flags\<close>

text \<open>The event counter is the 64-bit number of which the two words are the halves.\<close>

lemma unat_jmd_event: "unat (jmd_event sb) = unat (events_hi sb) * 2 ^ 32 + unat (events_lo sb)"
proof -
  have lo: "unat (ucast (events_lo sb) :: u64) < 2 ^ 32" using u32_less [of "events_lo sb"] by simp
  have disj: "push_bit 32 (ucast (events_hi sb) :: u64) AND ucast (events_lo sb) = 0"
    by (rule bit_eqI) (auto simp: bit_simps dest: bit_imp_le_length)
  have ev: "jmd_event sb = push_bit 32 (ucast (events_hi sb)) + ucast (events_lo sb)"
    using disj by (simp add: jmd_event_def Let_def disjunctive_add_eq_or)
  have hi: "unat (push_bit 32 (ucast (events_hi sb) :: u64)) = unat (events_hi sb) * 2 ^ 32"
  proof -
    have "push_bit 32 (ucast (events_hi sb) :: u64) = ucast (events_hi sb) * 2 ^ 32"
      by (rule push_bit_eq_mult)
    moreover have "unat (ucast (events_hi sb) * 2 ^ 32 :: u64) = unat (events_hi sb) * 2 ^ 32"
      using u32_less [of "events_hi sb"] by (subst unat_mult_no_wrap) simp_all
    ultimately show ?thesis by simp
  qed
  have "unat (push_bit 32 (ucast (events_hi sb) :: u64)) + unat (ucast (events_lo sb) :: u64) < 2 ^ LENGTH(64)"
    unfolding hi using lo u32_less [of "events_hi sb"] by simp
  then have "unat (jmd_event sb) =
      unat (push_bit 32 (ucast (events_hi sb) :: u64)) + unat (ucast (events_lo sb) :: u64)"
    unfolding ev by (rule unat_add_no_wrap)
  then show ?thesis by (simp only: hi unat_ucast_32_64)
qed

section \<open>Properties\<close>

text \<open>
  \<open>level_to_pers\<close> and \<open>pers_to_level\<close> are inverse to each other on the personalities and on
  the levels -3 to 1 and 5; level 4 shares the personality of level 5, every other level is
  reserved, and \<open>pers_to_level\<close> panics exactly on what is not a personality.
\<close>

lemma level_pers_inverse:
  "(pers_to_level p = Some l \<longrightarrow> level_to_pers l = p) \<and>
   (pers_to_level (level_to_pers l) =
      (if l = 4 then Some 5 else if - 3 \<le> l \<and> l \<le> 1 \<or> l = 5 then Some l else None)) \<and>
   (pers_to_level p = None \<longleftrightarrow> p = 0 \<or> MAX_PERSONALITY \<le> p)"
proof -
  have l: "- 3 \<le> l \<and> l \<le> 1 \<longleftrightarrow> l = - 3 \<or> l = - 2 \<or> l = - 1 \<or> l = 0 \<or> l = 1" by auto
  show ?thesis unfolding l by (auto simp: pers_to_level_def level_to_pers_def pers_defs) presburger
qed

end
