(* ===== verification/Jmd_Rdev.thy ===== *)
theory Jmd_Rdev
  imports Jmd_Types
begin

text \<open>
  Member devices of an array, \<^verbatim>\<open>src/src/jmd.c\<close>: \<open>find_jrdev_all\<close>, \<open>find_jrdev\<close>,
  \<open>check_disk_sb\<close>, \<open>jmd_import_device\<close>, \<open>uuid_equal\<close>, \<open>bind_rdev_to_array\<close>, the size
  computations, \<open>set_this_disk\<close>, \<open>sync_sbs\<close>, \<open>set_array_info\<close> and \<open>add_new_disk\<close>.

  What the kernel answers during one call is the record \<open>env\<close>: the pointer a \<open>kmalloc\<close>
  returns, whether a device is mounted, opens, and can be read, its size in bytes, the checksum
  function \<open>csum_partial\<close> over a superblock, the time and the random UUID, and the contents of
  a fresh page. A write past \<open>sb->disks\<close> is \<open>Bug\<close>.
\<close>

unbundle bit_operations_syntax

section \<open>The code\<close>

record env =
  ev_kmalloc :: "nat option"
  ev_sb_mem :: bool
  ev_super :: "dev_t \<Rightarrow> bool"
  ev_page :: bool
  ev_open :: "dev_t \<Rightarrow> bool"
  ev_read :: "dev_t \<Rightarrow> jmd_superblock option"
  ev_size :: "dev_t \<Rightarrow> u64"
  ev_csum :: "jmd_superblock \<Rightarrow> u32"
  ev_time :: u32
  ev_uuid :: "u32 \<times> u32 \<times> u32 \<times> u32"
  ev_junk :: jmd_superblock

definition MAX_MD_DEVS :: nat where "MAX_MD_DEVS = 256"

definition find_jrdev_all :: "jmd_state \<Rightarrow> dev_t \<Rightarrow> nat option" where
  "find_jrdev_all s dv = find (\<lambda>i. rd_dev (rd s i) = dv) (all_jraid_disks s)"

definition find_jrdev :: "jmd_state \<Rightarrow> dev_t \<Rightarrow> nat option" where
  "find_jrdev s dv = find (\<lambda>i. rd_dev (rd s i) = dv) (mdisks (md s))"

definition calc_sb_csum :: "env \<Rightarrow> jmd_superblock \<Rightarrow> u32" where
  "calc_sb_csum ev sb = ev_csum ev (sb\<lparr>sb_csum := 0\<rparr>)"

text \<open>\<open>check_disk_sb\<close>; a bad checksum is only printed.\<close>

definition check_disk_sb :: "jmd_superblock option \<Rightarrow> errno option" where
  "check_disk_sb sbo =
     (case sbo of
        None \<Rightarrow> Some EINVAL
      | Some sb \<Rightarrow>
          if md_magic sb \<noteq> MD_SB_MAGIC then Some EINVAL
          else if of_nat MAX_MD_DEVS \<le> md_minor sb then Some EINVAL
          else None)"

definition jmd_import_device :: "env \<Rightarrow> dev_t \<Rightarrow> bool \<Rightarrow> jmd_state \<Rightarrow> errno option \<times> jmd_state" where
  "jmd_import_device ev newdev on_disk s =
     (if find_jrdev_all s newdev \<noteq> None then (Some EEXIST, s)
      else case ev_kmalloc ev of
        None \<Rightarrow> (Some ENOMEM, s)
      | Some i \<Rightarrow>
          if ev_super ev newdev then (Some EBUSY, s)
          else if \<not> ev_page ev then (Some ENOMEM, s)
          else if \<not> ev_open ev newdev then (Some EINVAL, s)
          else
            let r = zero_rdev\<lparr>rd_opened := True, rd_dev := newdev, desc_nr := - 1, faulty := False,
                  rd_sb := Some (ev_junk ev)\<rparr>;
                s1 = s\<lparr>rd := (rd s)(i := r)\<rparr>
            in if on_disk then
                 case ev_read ev newdev of
                   None \<Rightarrow> (Some EINVAL, s)
                 | Some sb \<Rightarrow>
                     (case check_disk_sb (Some sb) of
                        Some e \<Rightarrow> (Some e, s)
                      | None \<Rightarrow>
                          (None, (upd_rd i (\<lambda>r. r\<lparr>rd_sb := Some sb, sb_loaded := True,
                               old_dev := dk_dev (this_disk sb),
                               desc_nr := dk_number (this_disk sb)\<rparr>) s1)
                             \<lparr>all_jraid_disks := i # all_jraid_disks s\<rparr>))
               else (None, s1\<lparr>all_jraid_disks := i # all_jraid_disks s\<rparr>))"

text \<open>Both branches of \<open>uuid_equal\<close> return 1.\<close>

definition uuid_equal :: "jmd_superblock \<Rightarrow> jmd_superblock \<Rightarrow> nat" where
  "uuid_equal a b =
     (if set_uuid0 a = set_uuid0 b \<and> set_uuid1 a = set_uuid1 b \<and> set_uuid2 a = set_uuid2 b \<and>
         set_uuid3 a = set_uuid3 b then 1 else 1)"

definition export_jrdev :: "nat \<Rightarrow> jmd_state \<Rightarrow> jmd_state" where
  "export_jrdev i s = (upd_rd i (\<lambda>r. r\<lparr>rd_opened := False, rd_sb := None, sb_offset := 0, rd_size := 0,
       rd_dev := (0, 0), faulty := False\<rparr>) s)
     \<lparr>all_jraid_disks := remove1 i (all_jraid_disks s)\<rparr>"

definition bind_rdev_to_array :: "nat \<Rightarrow> jmd_state \<Rightarrow> jmd_state" where
  "bind_rdev_to_array i s =
     (if rd_bound (rd s i) then s
      else upd_md (\<lambda>d. d\<lparr>mdisks := i # mdisks d, nb_dev := nb_dev d + 1\<rparr>)
             (upd_rd i (\<lambda>r. r\<lparr>rd_bound := True\<rparr>) s))"

definition calc_dev_sboffset :: "env \<Rightarrow> jmd_state \<Rightarrow> dev_t \<Rightarrow> bool \<Rightarrow> sector_t" where
  "calc_dev_sboffset ev s dv persistent =
     (case find_jrdev s dv of
        None \<Rightarrow> - 22
      | Some i \<Rightarrow>
          let size = ev_size ev (rd_dev (rd s i)) div 512
          in if persistent then MD_NEW_SIZE_BLOCKS size else size)"

text \<open>The mask is 32 bits wide and is widened with zeros.\<close>

definition calc_dev_size :: "env \<Rightarrow> jmd_state \<Rightarrow> dev_t \<Rightarrow> bool \<Rightarrow> sector_t" where
  "calc_dev_size ev s dv persistent =
     (let size = calc_dev_sboffset ev s dv persistent in
      case md_sb (md s) of
        None \<Rightarrow> size
      | Some sb \<Rightarrow>
          if sb_chunk_size sb \<noteq> 0 then size AND ucast (NOT (sb_chunk_size sb div 512 - 1)) else size)"

definition set_this_disk :: "jmd_superblock \<Rightarrow> jmd_rdev \<Rightarrow> jmd_rdev" where
  "set_this_disk sb r =
     (case find (\<lambda>d. dk_dev d = rd_dev r) (take MD_SB_DISKS (sb_disks sb)) of
        None \<Rightarrow> r
      | Some d \<Rightarrow> r\<lparr>rd_sb := map_option (\<lambda>sb. sb\<lparr>this_disk := d\<rparr>) (rd_sb r), desc_nr := dk_number d\<rparr>)"

text \<open>A member has the page of its superblock from its import until its export, so \<open>*sb\<close> is there.\<close>

definition sync_rdev :: "env \<Rightarrow> jmd_superblock \<Rightarrow> jmd_rdev \<Rightarrow> jmd_rdev" where
  "sync_rdev ev sb r =
     (if faulty r then r
      else let r1 = set_this_disk sb (r\<lparr>rd_sb := Some sb\<rparr>)
           in r1\<lparr>rd_sb := map_option (\<lambda>sb. sb\<lparr>sb_csum := calc_sb_csum ev sb\<rparr>) (rd_sb r1)\<rparr>)"

definition sync_sbs :: "env \<Rightarrow> jmd_state \<Rightarrow> jmd_state" where
  "sync_sbs ev s =
     (case md_sb (md s) of
        None \<Rightarrow> s
      | Some sb \<Rightarrow> fold (\<lambda>i. upd_rd i (sync_rdev ev sb)) (mdisks (md s)) s)"

definition array_info_init :: jmd_array_info where
  "array_info_init = \<lparr>ai_level = 5, ai_size = 0, ai_nr_disks = 3, ai_raid_disks = 3, ai_md_minor = 0,
     ai_not_persistent = 0, ai_state = 0, ai_active_disks = 0, ai_working_disks = 0,
     ai_failed_disks = 0, ai_spare_disks = 0, ai_layout = 0, ai_chunk_size = 32 * 1024\<rparr>"

text \<open>\<open>alloc_array_sb\<close> keeps a superblock that is there already; else a zeroed one is allocated.\<close>

definition alloc_array_sb :: "env \<Rightarrow> jmd_state \<Rightarrow> errno option \<times> jmd_state" where
  "alloc_array_sb ev s =
     (case md_sb (md s) of
        Some _ \<Rightarrow> (None, s)
      | None \<Rightarrow>
          if ev_sb_mem ev then (None, upd_md (\<lambda>d. d\<lparr>md_sb := Some zero_sb\<rparr>) s) else (Some ENOMEM, s))"

definition set_array_info :: "env \<Rightarrow> jmd_array_info \<Rightarrow> jmd_state \<Rightarrow> errno option \<times> jmd_state" where
  "set_array_info ev info s =
     (case alloc_array_sb ev s of
        (Some e, s1) \<Rightarrow> (Some ENOMEM, s1)
      | (None, s1) \<Rightarrow> (None, upd_md (\<lambda>d. d\<lparr>chunk_sectors_md := 32 * 1024 div 2, md_sb := map_option (\<lambda>sb. sb\<lparr>
         sb_size := ai_size info, sb_chunk_size := 32 * 1024, sb_level := ai_level info,
         layout := ai_layout info, nr_disks := ai_nr_disks info, sb_raid_disks := ai_raid_disks info,
         md_minor := ai_md_minor info, not_persistent := ai_not_persistent info,
         md_magic := MD_SB_MAGIC, ctime := ev_time ev, sb_state := ai_state info,
         active_disks := ai_active_disks info, sb_working_disks := ai_working_disks info,
         sb_failed_disks := ai_failed_disks info, spare_disks := ai_spare_disks info,
         major_version := 0, patch_version := 0,
         set_uuid0 := fst (ev_uuid ev), set_uuid1 := fst (snd (ev_uuid ev)),
         set_uuid2 := fst (snd (snd (ev_uuid ev))), set_uuid3 := snd (snd (snd (ev_uuid ev)))\<rparr>)
       (md_sb d)\<rparr>) s1))"

definition put_desc :: "jmd_disk_info \<Rightarrow> jmd_superblock \<Rightarrow> jmd_superblock" where
  "put_desc info sb = sb\<lparr>sb_disks := (sb_disks sb)[unat (in_number info) :=
     \<lparr>dk_number = in_number info, dk_major = in_major info, dk_minor = in_minor info,
      dk_raid_disk = in_raid_disk info, dk_state = in_state info\<rparr>]\<rparr>"

text \<open>The member is given its place and the array's size the minimum; \<open>size\<close> is a C \<open>int\<close>.\<close>

definition place_rdev :: "env \<Rightarrow> dev_t \<Rightarrow> jmd_disk_info \<Rightarrow> nat \<Rightarrow> jmd_state \<Rightarrow> jmd_state" where
  "place_rdev ev dv info i s =
     (let s1 = bind_rdev_to_array i (upd_rd i (\<lambda>r. r\<lparr>old_dev := dv, desc_nr := in_number info\<rparr>) s);
          persistent = (case md_sb (md s1) of None \<Rightarrow> True | Some sb \<Rightarrow> not_persistent sb = 0);
          size = (ucast (calc_dev_size ev s1 dv persistent) :: u32);
          s2 = upd_rd i (\<lambda>r. r\<lparr>sb_offset := calc_dev_sboffset ev s1 dv persistent\<rparr>) s1
      in upd_md (\<lambda>d. d\<lparr>md_sb := map_option (\<lambda>sb.
            if sb_size sb = 0 \<or> sb_size sb > size then sb\<lparr>sb_size := size\<rparr> else sb) (md_sb d)\<rparr>) s2)"

definition add_new_disk :: "env \<Rightarrow> jmd_disk_info \<Rightarrow> jmd_state \<Rightarrow> (errno option \<times> jmd_state) outcome" where
  "add_new_disk ev info s =
     (let dv = (in_major info, in_minor info) in
      if find_jrdev_all s dv \<noteq> None then Ret (Some EBUSY, s)
      else case md_sb (md s) of
        None \<Rightarrow>
          (case jmd_import_device ev dv True s of
             (Some e, s1) \<Rightarrow> Ret (Some EINVAL, s1)
           | (None, s1) \<Rightarrow>
               (case find_jrdev_all s1 dv of
                  None \<Rightarrow> Ret (Some EINVAL, s1)
                | Some i \<Rightarrow>
                    (case mdisks (md s1) of
                       j # _ \<Rightarrow>
                         if nb_dev (md s1) \<noteq> 0 \<and>
                            uuid_equal (the (rd_sb (rd s1 j))) (the (rd_sb (rd s1 i))) = 0
                         then Ret (Some EINVAL, export_jrdev i s1)
                         else Ret (None, bind_rdev_to_array i s1)
                     | [] \<Rightarrow> Ret (None, bind_rdev_to_array i s1))))
      | Some sb \<Rightarrow>
          if nr_disks sb \<le> in_number info then Ret (Some EINVAL, s)
          else if MD_SB_DISKS \<le> unat (in_number info) then Bug
          else
            let s1 = upd_md (\<lambda>d. d\<lparr>md_sb := Some (put_desc info sb)\<rparr>) s in
            if bit (in_state info) MD_DISK_FAULTY then Ret (None, sync_sbs ev s1)
            else case jmd_import_device ev dv False s1 of
              (Some e, s2) \<Rightarrow> Ret (Some EINVAL, s2)
            | (None, s2) \<Rightarrow>
                (case find_jrdev_all s2 dv of
                   None \<Rightarrow> Ret (Some EINVAL, s2)
                 | Some i \<Rightarrow> Ret (None, sync_sbs ev (place_rdev ev dv info i s2))))"

section \<open>The lists of devices\<close>

definition rdevs_ok :: "jmd_state \<Rightarrow> bool" where
  "rdevs_ok s \<longleftrightarrow> distinct (all_jraid_disks s) \<and> distinct (mdisks (md s)) \<and>
     set (mdisks (md s)) \<subseteq> set (all_jraid_disks s) \<and>
     nb_dev (md s) = of_nat (length (mdisks (md s))) \<and>
     inj_on (\<lambda>i. rd_dev (rd s i)) (set (all_jraid_disks s)) \<and>
     (\<forall>i \<in> set (all_jraid_disks s). rd_bound (rd s i) \<longleftrightarrow> i \<in> set (mdisks (md s)))"

lemma find_jrdev_all_None:
  "find_jrdev_all s dv = None \<longleftrightarrow> (\<forall>i \<in> set (all_jraid_disks s). rd_dev (rd s i) \<noteq> dv)"
  by (auto simp: find_jrdev_all_def find_None_iff)

lemma find_jrdev_all_Some:
  "find_jrdev_all s dv = Some i \<Longrightarrow> i \<in> set (all_jraid_disks s) \<and> rd_dev (rd s i) = dv"
  by (auto simp: find_jrdev_all_def find_Some_iff)

text \<open>An import either changes nothing or puts one new device, unbound, on the list.\<close>

lemma import_cases:
  assumes "jmd_import_device ev dv od s = (e, s')"
  obtains (fail) e' where "e = Some e'" "s' = s"
  | (ok) i where "e = None" "ev_kmalloc ev = Some i" "find_jrdev_all s dv = None"
      "rd s' = (rd s)(i := rd s' i)" "md s' = md s" "all_jraid_disks s' = i # all_jraid_disks s"
      "rd_dev (rd s' i) = dv" "\<not> rd_bound (rd s' i)" "\<not> faulty (rd s' i)" "rd_sb (rd s' i) \<noteq> None"
      "od \<Longrightarrow> \<exists>sb. rd_sb (rd s' i) = Some sb \<and> check_disk_sb (Some sb) = None"
proof (cases e)
  case (Some e')
  then have "s' = s" using assms
    by (auto simp: jmd_import_device_def Let_def split: option.splits if_splits)
  then show thesis using Some fail by blast
next
  case None
  then show thesis using assms ok
    by (auto simp: jmd_import_device_def Let_def zero_rdev_def upd_rd_def split: option.splits if_splits)
qed

lemma sync_rdev_frame [simp]:
  "rd_dev (sync_rdev ev sb r) = rd_dev r" "rd_bound (sync_rdev ev sb r) = rd_bound r"
  "faulty (sync_rdev ev sb r) = faulty r"
  by (simp_all add: sync_rdev_def set_this_disk_def Let_def split: option.splits)

lemma fold_upd_rd:
  "distinct is \<Longrightarrow> fold (\<lambda>i. upd_rd i f) is s = s\<lparr>rd := (\<lambda>i. if i \<in> set is then f (rd s i) else rd s i)\<rparr>"
  by (induction "is" arbitrary: s) (auto simp: upd_rd_def fun_eq_iff)

lemma sync_sbs_eq:
  assumes "distinct (mdisks (md s))" "md_sb (md s) = Some sb"
  shows "sync_sbs ev s = s\<lparr>rd := (\<lambda>i. if i \<in> set (mdisks (md s)) then sync_rdev ev sb (rd s i) else rd s i)\<rparr>"
  using fold_upd_rd [OF assms(1)] assms(2) by (simp add: sync_sbs_def)

lemma sync_sbs_lists:
  "all_jraid_disks (sync_sbs ev s) = all_jraid_disks s \<and> md (sync_sbs ev s) = md s \<and>
   rd_dev (rd (sync_sbs ev s) i) = rd_dev (rd s i) \<and> rd_bound (rd (sync_sbs ev s) i) = rd_bound (rd s i)"
proof -
  have "all_jraid_disks (fold (\<lambda>i. upd_rd i (sync_rdev ev sb)) ks t) = all_jraid_disks t \<and>
        md (fold (\<lambda>i. upd_rd i (sync_rdev ev sb)) ks t) = md t \<and>
        rd_dev (rd (fold (\<lambda>i. upd_rd i (sync_rdev ev sb)) ks t) i) = rd_dev (rd t i) \<and>
        rd_bound (rd (fold (\<lambda>i. upd_rd i (sync_rdev ev sb)) ks t) i) = rd_bound (rd t i)" for sb ks t
    by (induction ks arbitrary: t) auto
  then show ?thesis by (simp add: sync_sbs_def split: option.split)
qed

lemma rdevs_ok_cong:
  assumes "all_jraid_disks t = all_jraid_disks s" "mdisks (md t) = mdisks (md s)"
    "nb_dev (md t) = nb_dev (md s)" "\<And>i. rd_dev (rd t i) = rd_dev (rd s i)"
    "\<And>i. rd_bound (rd t i) = rd_bound (rd s i)"
  shows "rdevs_ok t = rdevs_ok s"
  using assms by (simp add: rdevs_ok_def)

lemma rdevs_ok_sync_sbs: "rdevs_ok (sync_sbs ev s) = rdevs_ok s"
  by (rule rdevs_ok_cong) (simp_all add: sync_sbs_lists)

text \<open>A device fresh on the list of all devices is bound: the lists stay consistent.\<close>

lemma rdevs_ok_bind:
  assumes ok: "rdevs_ok s" and fresh: "i \<notin> set (all_jraid_disks s)"
    and dev: "find_jrdev_all s (rd_dev r) = None" and r: "\<not> rd_bound r"
    and t: "rd t = (rd s)(i := r)" "md t = (md s)\<lparr>md_sb := z\<rparr>" "all_jraid_disks t = i # all_jraid_disks s"
  shows "rdevs_ok (bind_rdev_to_array i t)" "mdisks (md (bind_rdev_to_array i t)) = i # mdisks (md s)"
    "all_jraid_disks (bind_rdev_to_array i t) = i # all_jraid_disks s"
    "rd_dev (rd (bind_rdev_to_array i t) i) = rd_dev r"
proof -
  have bind: "bind_rdev_to_array i t = upd_md (\<lambda>d. d\<lparr>mdisks := i # mdisks d, nb_dev := nb_dev d + 1\<rparr>)
       (upd_rd i (\<lambda>r. r\<lparr>rd_bound := True\<rparr>) t)"
    using r t by (simp add: bind_rdev_to_array_def)
  have no: "rd_dev (rd s j) \<noteq> rd_dev r" if "j \<in> set (all_jraid_disks s)" for j
    using dev that by (simp add: find_jrdev_all_None)
  have no': "rd_dev r \<noteq> rd_dev (rd s j)" if "j \<in> set (all_jraid_disks s)" for j
    using no [OF that] by metis
  have mem: "i \<notin> set (mdisks (md s))" using ok fresh by (auto simp: rdevs_ok_def)
  have inj: "inj_on (\<lambda>j. rd_dev (rd (bind_rdev_to_array i t) j)) (insert i (set (all_jraid_disks s)))"
    unfolding bind using ok fresh no no' t
    by (auto simp: rdevs_ok_def inj_on_def)
  show "mdisks (md (bind_rdev_to_array i t)) = i # mdisks (md s)"
    "all_jraid_disks (bind_rdev_to_array i t) = i # all_jraid_disks s"
    "rd_dev (rd (bind_rdev_to_array i t) i) = rd_dev r" using t by (simp_all add: bind)
  have bound: "\<forall>j \<in> set (i # all_jraid_disks s).
      rd_bound (rd (bind_rdev_to_array i t) j) \<longleftrightarrow> j \<in> set (i # mdisks (md s))"
    unfolding bind using ok fresh t by (auto simp: rdevs_ok_def)
  show "rdevs_ok (bind_rdev_to_array i t)"
    unfolding rdevs_ok_def using ok fresh mem inj bound t
    by (simp add: bind rdevs_ok_def) (auto simp: inj_on_def)
qed

lemma find_imported:
  assumes "rd_dev (rd t i) = dv" "all_jraid_disks t = i # js"
  shows "find_jrdev_all t dv = Some i"
  using assms by (simp add: find_jrdev_all_def)

text \<open>Binding leaves everything but the lists and the flag alone.\<close>

lemma place_rdev_lists:
  assumes "\<not> rd_bound (rd s i)"
  shows "all_jraid_disks (place_rdev ev dv info i s) = all_jraid_disks (bind_rdev_to_array i s)"
    "mdisks (md (place_rdev ev dv info i s)) = mdisks (md (bind_rdev_to_array i s))"
    "nb_dev (md (place_rdev ev dv info i s)) = nb_dev (md (bind_rdev_to_array i s))"
    "rd_dev (rd (place_rdev ev dv info i s) j) = rd_dev (rd (bind_rdev_to_array i s) j)"
    "rd_bound (rd (place_rdev ev dv info i s) j) = rd_bound (rd (bind_rdev_to_array i s) j)"
  using assms by (simp_all add: place_rdev_def bind_rdev_to_array_def Let_def)

lemma rdevs_ok_place:
  assumes "\<not> rd_bound (rd s i)"
  shows "rdevs_ok (place_rdev ev dv info i s) = rdevs_ok (bind_rdev_to_array i s)"
  by (rule rdevs_ok_cong) (simp_all add: place_rdev_lists [OF assms])

lemma rdevs_ok_upd_md: "rdevs_ok (upd_md (\<lambda>d. d\<lparr>md_sb := z\<rparr>) s) = rdevs_ok s"
  by (rule rdevs_ok_cong) simp_all

definition new_member :: "nat \<Rightarrow> dev_t \<Rightarrow> jmd_state \<Rightarrow> jmd_state \<Rightarrow> bool" where
  "new_member i dv s s' \<longleftrightarrow> mdisks (md s') = i # mdisks (md s) \<and>
     all_jraid_disks s' = i # all_jraid_disks s \<and> rd_dev (rd s' i) = dv"

definition same_members :: "jmd_state \<Rightarrow> jmd_state \<Rightarrow> bool" where
  "same_members s s' \<longleftrightarrow> mdisks (md s') = mdisks (md s) \<and> all_jraid_disks s' = all_jraid_disks s"

lemma add_new_disk_read:
  assumes ok: "rdevs_ok s" and fresh: "\<And>i. ev_kmalloc ev = Some i \<Longrightarrow> i \<notin> set (all_jraid_disks s)"
    and dv: "dv = (in_major info, in_minor info)" and sb: "md_sb (md s) = None"
    and new: "find_jrdev_all s dv = None"
    and run: "add_new_disk ev info s = Ret (e, s')"
  shows "rdevs_ok s' \<and> (if e = None then ev_kmalloc ev \<noteq> None \<and> new_member (the (ev_kmalloc ev)) dv s s'
      else same_members s s')"
proof -
  obtain e1 s1 where imp: "jmd_import_device ev dv True s = (e1, s1)" by fastforce
  from imp show ?thesis
  proof (cases rule: import_cases)
    case (fail e')
    then show ?thesis using run sb new imp dv ok
      by (auto simp: add_new_disk_def Let_def same_members_def)
  next
    case (ok i)
    note r = this
    have find: "find_jrdev_all s1 dv = Some i" by (rule find_imported) (use r in simp_all)
    have "(e, s') = (None, bind_rdev_to_array i s1)"
      using run sb new imp r(1) find dv
      by (simp add: add_new_disk_def Let_def uuid_equal_def split: list.splits)
    moreover have "rdevs_ok (bind_rdev_to_array i s1)" "mdisks (md (bind_rdev_to_array i s1)) = i # mdisks (md s)"
        "all_jraid_disks (bind_rdev_to_array i s1) = i # all_jraid_disks s"
        "rd_dev (rd (bind_rdev_to_array i s1) i) = rd_dev (rd s1 i)"
      by (rule rdevs_ok_bind [OF \<open>rdevs_ok s\<close> fresh [OF r(2)], of "rd s1 i" s1 "md_sb (md s)"]; use r in simp)+
    ultimately show ?thesis using r by (simp add: new_member_def)
  qed
qed

lemma add_new_disk_put:
  assumes ok: "rdevs_ok s" and fresh: "\<And>i. ev_kmalloc ev = Some i \<Longrightarrow> i \<notin> set (all_jraid_disks s)"
    and dv: "dv = (in_major info, in_minor info)" and sb: "md_sb (md s) = Some sb"
    and new: "find_jrdev_all s dv = None"
    and run: "add_new_disk ev info s = Ret (e, s')"
  shows "rdevs_ok s' \<and> (if e = None \<and> \<not> bit (in_state info) MD_DISK_FAULTY
      then ev_kmalloc ev \<noteq> None \<and> new_member (the (ev_kmalloc ev)) dv s s' else same_members s s')"
proof (cases "nr_disks sb \<le> in_number info \<or> MD_SB_DISKS \<le> unat (in_number info)")
  case True
  then show ?thesis using run sb new dv ok
    by (auto simp: add_new_disk_def Let_def same_members_def split: if_splits)
next
  case False
  define s1 where "s1 = upd_md (\<lambda>d. d\<lparr>md_sb := Some (put_desc info sb)\<rparr>) s"
  have s1: "rd s1 = rd s" "all_jraid_disks s1 = all_jraid_disks s" "mdisks (md s1) = mdisks (md s)"
    "md s1 = (md s)\<lparr>md_sb := Some (put_desc info sb)\<rparr>" "rdevs_ok s1"
    using ok by (simp_all add: s1_def rdevs_ok_upd_md)
  show ?thesis
  proof (cases "bit (in_state info) MD_DISK_FAULTY")
    case True
    then have "(e, s') = (None, sync_sbs ev s1)"
      using run sb new dv False by (simp add: add_new_disk_def Let_def s1_def)
    then show ?thesis using True s1 by (simp add: rdevs_ok_sync_sbs same_members_def sync_sbs_lists)
  next
    case healthy: False
    obtain e1 s2 where imp: "jmd_import_device ev dv False s1 = (e1, s2)" by fastforce
    from imp show ?thesis
    proof (cases rule: import_cases)
      case (fail e')
      then show ?thesis using run sb new imp dv s1 False healthy
        by (auto simp: add_new_disk_def Let_def s1_def same_members_def)
    next
      case r: (ok i)
      have find: "find_jrdev_all s2 dv = Some i" by (rule find_imported) (use r in simp_all)
      have "(e, s') = (None, sync_sbs ev (place_rdev ev dv info i s2))"
        using run sb new imp r(1) find dv False healthy
        by (simp add: add_new_disk_def Let_def s1_def)
      moreover have "rdevs_ok (bind_rdev_to_array i s2)" "mdisks (md (bind_rdev_to_array i s2)) = i # mdisks (md s)"
          "all_jraid_disks (bind_rdev_to_array i s2) = i # all_jraid_disks s"
          "rd_dev (rd (bind_rdev_to_array i s2) i) = rd_dev (rd s2 i)"
        by (rule rdevs_ok_bind [OF ok fresh [OF r(2)], of "rd s2 i" s2 "md_sb (md s2)"];
            use r s1 new in simp)+
      ultimately show ?thesis using r healthy
        by (simp add: rdevs_ok_sync_sbs rdevs_ok_place new_member_def sync_sbs_lists place_rdev_lists)
    qed
  qed
qed

section \<open>Properties\<close>

text \<open>
  C20 \<open>add_new_disk\<close> on consistent lists of devices, with fresh memory for the new device:
  the lists stay consistent; \<open>-EBUSY\<close> is returned exactly for a device that is a member
  already; a success (not of a faulty descriptor) puts the device, and nothing else, on both
  lists, and every failure and a faulty descriptor leave the lists as they are.
\<close>

theorem add_new_disk_correct:
  assumes "rdevs_ok s" "ev_kmalloc ev \<noteq> None \<Longrightarrow> the (ev_kmalloc ev) \<notin> set (all_jraid_disks s)"
    and "add_new_disk ev info s = Ret (e, s')"
  shows "rdevs_ok s' \<and>
    (e = Some EBUSY \<longleftrightarrow> (\<exists>i \<in> set (all_jraid_disks s). rd_dev (rd s i) = (in_major info, in_minor info))) \<and>
    (if e = None \<and> \<not> (md_sb (md s) \<noteq> None \<and> bit (in_state info) MD_DISK_FAULTY)
     then ev_kmalloc ev \<noteq> None \<and> new_member (the (ev_kmalloc ev)) (in_major info, in_minor info) s s'
     else same_members s s')"
proof (cases "find_jrdev_all s (in_major info, in_minor info)")
  case (Some i)
  then have "find_jrdev_all s (in_major info, in_minor info) \<noteq> None" by simp
  then have "(\<exists>i \<in> set (all_jraid_disks s). rd_dev (rd s i) = (in_major info, in_minor info))"
    unfolding find_jrdev_all_None by blast
  moreover have "e = Some EBUSY" "s' = s" using assms(3) Some by (simp_all add: add_new_disk_def)
  ultimately show ?thesis using assms(1) by (simp add: same_members_def)
next
  case None
  have fresh: "\<And>i. ev_kmalloc ev = Some i \<Longrightarrow> i \<notin> set (all_jraid_disks s)" using assms(2) by simp
  have no: "\<not> (\<exists>i \<in> set (all_jraid_disks s). rd_dev (rd s i) = (in_major info, in_minor info))"
    using None unfolding find_jrdev_all_None by blast
  have e: "e \<noteq> Some EBUSY"
    using assms(3) None by (auto simp: add_new_disk_def Let_def split: option.splits prod.splits list.splits if_splits)
  show ?thesis
  proof (cases "md_sb (md s)")
    case sb: None
    then show ?thesis using add_new_disk_read [OF assms(1) fresh refl sb None assms(3)] e no by (auto split: if_splits)
  next
    case sb: (Some sb)
    then show ?thesis using add_new_disk_put [OF assms(1) fresh refl sb None assms(3)] e no by (auto split: if_splits)
  qed
qed

definition ev_example :: env where
  "ev_example = \<lparr>ev_kmalloc = Some 7, ev_sb_mem = True, ev_super = (\<lambda>_. False), ev_page = True, ev_open = (\<lambda>_. True),
     ev_read = (\<lambda>_. None), ev_size = (\<lambda>_. 10485760), ev_csum = (\<lambda>sb. events_lo sb + dk_number (this_disk sb)),
     ev_time = 5, ev_uuid = (1, 2, 3, 4), ev_junk = zero_sb\<rparr>"

definition info_example :: jmd_disk_info where
  "info_example = \<lparr>in_number = 1, in_major = 8, in_minor = 16, in_raid_disk = 1, in_state = 0\<rparr>"

definition md_example :: jmd_state where
  "md_example = \<lparr>rd = (\<lambda>_. zero_rdev\<lparr>rd_dev := (8, 0), rd_bound := True, rd_sb := Some zero_sb\<rparr>),
     all_jraid_disks = [0],
     md = \<lparr>md_sb = Some (zero_sb\<lparr>nr_disks := 3, sb_chunk_size := 32768, events_lo := 4\<rparr>), mdisks = [0], nb_dev = 1,
       md_pers = None, sb_dirty = False, param = \<lparr>pm_personality = 0, pm_chunk_size = 0\<rparr>,
       chunk_sectors_md = 0, array_sectors = 0, pending_writes = 0, openers = 0,
       md_private = None, md_thread = None, recovery = 0, recovery_active = 0,
       curr_resync = 0, resync_mark = 0, resync_mark_cnt = 0\<rparr>,
     pers_table = [RAID5 \<mapsto> ''jraid5''], jmd_size = 0, jmd_maxreadahead = 0,
     jmd_recovery_thread = None, kthreads = [], capacity = 0, hd_nr_sects = 0\<rparr>"

lemma md_example_ok: "rdevs_ok md_example"
  by (simp add: rdevs_ok_def md_example_def)

lemma md_example_add:
  "\<exists>s'. add_new_disk ev_example info_example md_example = Ret (None, s')"
  by (simp add: add_new_disk_def md_example_def ev_example_def info_example_def find_jrdev_all_def
      Let_def jmd_import_device_def MD_SB_DISKS_def MD_DISK_FAULTY_def word_le_nat_alt)

theorem add_new_disk_correct_witness:
  "\<exists>s'. add_new_disk ev_example info_example md_example = Ret (None, s') \<and> rdevs_ok s' \<and>
     new_member 7 (8, 16) md_example s'"
proof -
  obtain s' where run: "add_new_disk ev_example info_example md_example = Ret (None, s')"
    using md_example_add by blast
  have "the (ev_kmalloc ev_example) \<notin> set (all_jraid_disks md_example)"
    by (simp add: md_example_def ev_example_def)
  with add_new_disk_correct [OF md_example_ok _ run] run show ?thesis
    by (simp add: info_example_def ev_example_def md_example_def MD_DISK_FAULTY_def)
qed

text \<open>
  \<open>sync_sbs\<close> gives every member that is not faulty the array's superblock with this
  member's descriptor as \<open>this_disk\<close>, whose checksum is the one \<open>calc_sb_csum\<close> computes for
  it; a faulty member and a device outside the array keep their memory.
\<close>

lemma sync_sbs_correct:
  assumes "distinct (mdisks (md s))" "md_sb (md s) = Some sb" "s' = sync_sbs ev s"
  shows "(if i \<in> set (mdisks (md s)) \<and> \<not> faulty (rd s i)
     then \<exists>sb'. rd_sb (rd s' i) = Some sb' \<and> sb_csum sb' = calc_sb_csum ev sb' \<and>
       sb'\<lparr>this_disk := this_disk sb, sb_csum := sb_csum sb\<rparr> = sb \<and>
       (case find (\<lambda>d. dk_dev d = rd_dev (rd s i)) (take MD_SB_DISKS (sb_disks sb)) of
          None \<Rightarrow> this_disk sb' = this_disk sb \<and> desc_nr (rd s' i) = desc_nr (rd s i)
        | Some d \<Rightarrow> this_disk sb' = d \<and> desc_nr (rd s' i) = dk_number d)
     else rd s' i = rd s i) \<and> md s' = md s \<and> all_jraid_disks s' = all_jraid_disks s"
proof (cases "i \<in> set (mdisks (md s)) \<and> \<not> faulty (rd s i)")
  case True
  then show ?thesis using assms(3) unfolding sync_sbs_eq [OF assms(1,2)]
    by (simp add: sync_rdev_def set_this_disk_def Let_def calc_sb_csum_def split: option.split)
next
  case False
  then show ?thesis using assms(3) unfolding sync_sbs_eq [OF assms(1,2)]
    by (auto simp: sync_rdev_def)
qed

lemma and_mask_chunk:
  assumes "k \<le> 32"
  shows "(x :: u64) AND ucast (NOT (2 ^ k - 1 :: u32)) = push_bit k (drop_bit k (take_bit 32 x))"
  using assms by (intro bit_eqI) (auto simp: bit_simps mask_eq_exp_minus_1 [symmetric])

lemma unat_chunk_floor:
  assumes "k \<le> 32"
  shows "unat ((x :: u64) AND ucast (NOT (2 ^ k - 1 :: u32))) = unat x mod 2 ^ 32 div 2 ^ k * 2 ^ k"
proof -
  have "unat (push_bit k (drop_bit k (take_bit 32 x))) = take_bit 64 (push_bit k (drop_bit k (take_bit 32 (unat x))))"
    by (simp add: unsigned_push_bit_eq unsigned_drop_bit_eq unsigned_take_bit_eq)
  also have "\<dots> = take_bit 64 (unat x mod 2 ^ 32 div 2 ^ k * 2 ^ k)"
    by (simp add: push_bit_eq_mult drop_bit_eq_div take_bit_eq_mod)
  also have "\<dots> = unat x mod 2 ^ 32 div 2 ^ k * 2 ^ k"
  proof (rule take_bit_nat_eq_self)
    have "unat x mod 2 ^ 32 div 2 ^ k * 2 ^ k \<le> unat x mod 2 ^ 32" by (rule div_times_less_eq_dividend)
    also have "\<dots> < 2 ^ 64" by (rule less_trans [of _ "2 ^ 32"]) simp_all
    finally show "unat x mod 2 ^ 32 div 2 ^ k * 2 ^ k < 2 ^ 64" .
  qed
  finally show ?thesis unfolding and_mask_chunk [OF assms] .
qed

text \<open>
  With a chunk size of \<open>512 * 2 ^ k\<close> bytes, \<open>calc_dev_size\<close> rounds the offset of the
  superblock down to whole chunks, but only after reducing it modulo \<open>2 ^ 32\<close>: the mask is a
  32-bit number, and a device of 2 TiB or more is taken for a smaller one.
\<close>

lemma calc_dev_size_truncates:
  assumes "md_sb (md s) = Some sb" "sb_chunk_size sb = 512 * 2 ^ k" "k \<le> 22"
  shows "unat (calc_dev_size ev s dv p) =
    unat (calc_dev_sboffset ev s dv p) mod 2 ^ 32 div 2 ^ k * 2 ^ k"
proof -
  have eq: "512 * 2 ^ k = (2 ^ (9 + k) :: u32)" by (simp add: power_add)
  have "sb_chunk_size sb \<noteq> 0" unfolding assms(2) eq using assms(3) by (simp add: exp_eq_zero_iff)
  moreover have "sb_chunk_size sb div 512 = 2 ^ k"
  proof -
    have "2 ^ (9 + k) div 2 ^ 9 = (2 ^ k :: u32)"
      using assms(3) exp_div_exp_eq [of "9 + k" 9, where 'a = u32] by simp
    then show ?thesis unfolding assms(2) eq by simp
  qed
  ultimately show ?thesis using assms(1,3) unat_chunk_floor [of k "calc_dev_sboffset ev s dv p"]
    by (simp add: calc_dev_size_def Let_def)
qed

end
