(* ===== verification/Jmd_Analyze.thy ===== *)
theory Jmd_Analyze
  imports Jmd_Rdev
begin

text \<open>
  \<open>analyze_sbs\<close>, \<open>remove_descriptor\<close>, \<open>zoned_jraid_size\<close> and \<open>device_size_calculation\<close> of
  \<^verbatim>\<open>src/src/jmd.c\<close>: the choice of the superblock an array starts from, the consistency checks
  between its descriptors and the members, and the size of the array.

  The passes of \<open>analyze_sbs\<close> over the members and over the descriptors are one definition
  each. An index outside \<open>sb->disks\<close> is \<open>Bug\<close>, and so is the copy from \<open>freshest\<close> when the
  array has no member.
\<close>

unbundle bit_operations_syntax

section \<open>The code\<close>

definition remove_descriptor :: "jmd_disk \<Rightarrow> jmd_superblock \<Rightarrow> jmd_disk \<times> jmd_superblock" where
  "remove_descriptor d sb =
     (let sb1 =
        (if disk_active d then sb\<lparr>sb_working_disks := sb_working_disks sb - 1\<rparr>
         else if disk_spare d
           then sb\<lparr>spare_disks := spare_disks sb - 1, sb_working_disks := sb_working_disks sb - 1\<rparr>
         else sb\<lparr>sb_failed_disks := sb_failed_disks sb - 1\<rparr>)
      in (mark_disk_removed (d\<lparr>dk_major := 0, dk_minor := 0\<rparr>), sb1\<lparr>nr_disks := nr_disks sb1 - 1\<rparr>))"

definition members_ok :: "jmd_state \<Rightarrow> bool" where
  "members_ok s = list_all (\<lambda>i. \<not> faulty (rd s i) \<and> check_disk_sb (rd_sb (rd s i)) = None) (mdisks (md s))"

text \<open>A superblock with a bad checksum counts as one event older.\<close>

definition age_bad_csum :: "env \<Rightarrow> jmd_superblock \<Rightarrow> jmd_superblock" where
  "age_bad_csum ev sb =
     (if calc_sb_csum ev sb \<noteq> sb_csum sb \<and> (events_lo sb \<noteq> 0 \<or> events_hi sb \<noteq> 0)
      then sb\<lparr>events_lo := events_lo sb - 1,
              events_hi := (if events_lo sb = 0 then events_hi sb - 1 else events_hi sb)\<rparr>
      else sb)"

definition rdev_event :: "jmd_state \<Rightarrow> nat \<Rightarrow> u64" where
  "rdev_event s i = (case rd_sb (rd s i) of None \<Rightarrow> 0 | Some sb \<Rightarrow> jmd_event sb)"

primrec freshest_loop :: "env \<Rightarrow> nat list \<Rightarrow> nat option \<Rightarrow> jmd_state \<Rightarrow> nat option \<times> jmd_state" where
  "freshest_loop ev [] fr s = (fr, s)"
| "freshest_loop ev (i # js) fr s =
     (let s1 = upd_rd i (\<lambda>r. r\<lparr>rd_sb := map_option (age_bad_csum ev) (rd_sb r)\<rparr>) s in
      freshest_loop ev js
        (case fr of None \<Rightarrow> Some i | Some f \<Rightarrow> if rdev_event s1 i > rdev_event s1 f then Some i else Some f) s1)"

definition set_dev :: "dev_t \<Rightarrow> jmd_disk \<Rightarrow> jmd_disk" where
  "set_dev dv d = d\<lparr>dk_major := fst dv, dk_minor := snd dv\<rparr>"

text \<open>A member whose device number changed gets its descriptor renamed; \<open>None\<close> is \<open>abort\<close>.\<close>

primrec rename_loop :: "nat list \<Rightarrow> jmd_superblock \<Rightarrow> jmd_state \<Rightarrow> (bool \<times> jmd_superblock \<times> jmd_state) outcome" where
  "rename_loop [] sb s = Ret (True, sb, s)"
| "rename_loop (i # js) sb s =
     (let r = rd s i; ev1 = rdev_event s i; ev2 = jmd_event sb in
      if faulty r then Ret (False, sb, s)
      else if rd_dev r \<noteq> old_dev r \<and> (ev1 = ev2 \<or> ev1 = ev2 - 1) then
        if desc_nr r = - 1 then Ret (False, sb, s)
        else if MD_SB_DISKS \<le> unat (desc_nr r) then Bug
        else let d = sb_disks sb ! unat (desc_nr r) in
          if old_dev r \<noteq> dk_dev d then Ret (False, sb, s)
          else rename_loop js (sb\<lparr>sb_disks := (sb_disks sb)[unat (desc_nr r) := set_dev (rd_dev r) d]\<rparr>)
                 (upd_rd i (\<lambda>r. r\<lparr>rd_sb := map_option
                    (\<lambda>b. b\<lparr>this_disk := set_dev (rd_dev r) (this_disk b)\<rparr>) (rd_sb r)\<rparr>) s)
      else rename_loop js sb s)"

definition has_member :: "jmd_state \<Rightarrow> jmd_disk \<Rightarrow> bool" where
  "has_member s d = list_ex (\<lambda>i. desc_nr (rd s i) = dk_number d) (mdisks (md s))"

definition clean_slot :: "jmd_state \<Rightarrow> nat \<Rightarrow> jmd_superblock \<Rightarrow> jmd_superblock" where
  "clean_slot s k sb =
     (let d = sb_disks sb ! k;
          removed = (let (d', sb') = remove_descriptor d sb in sb'\<lparr>sb_disks := (sb_disks sb)[k := d']\<rparr>) in
      if disk_faulty d then
        if \<not> has_member s d \<and> dk_dev d = (0, 0) then sb else removed
      else if dk_dev d = (0, 0) then sb
      else if has_member s d then sb
      else removed)"

definition slots_ok :: "jmd_state \<Rightarrow> jmd_superblock \<Rightarrow> bool" where
  "slots_ok s sb = list_all (\<lambda>d. dk_dev d = (0, 0) \<or> \<not> disk_faulty d \<and> find_jrdev s (dk_dev d) \<noteq> None)
     (take MD_SB_DISKS (sb_disks sb))"

definition rdevs_distinct :: "jmd_state \<Rightarrow> bool" where
  "rdevs_distinct s = list_all (\<lambda>i. desc_nr (rd s i) \<noteq> - 1 \<and>
     list_all (\<lambda>j. \<not> (j \<noteq> i \<and> desc_nr (rd s j) = desc_nr (rd s i))) (mdisks (md s)) \<and>
     list_all (\<lambda>j. \<not> (j \<noteq> i \<and> rd_dev (rd s j) = rd_dev (rd s i))) (mdisks (md s))) (mdisks (md s))"

text \<open>\<open>analyze_sbs\<close> returns 0 (\<open>True\<close>) or, from \<open>abort\<close>, 1 (\<open>False\<close>).\<close>

definition put_sb :: "jmd_superblock \<Rightarrow> jmd_state \<Rightarrow> jmd_state" where
  "put_sb sb s = upd_md (\<lambda>d. d\<lparr>md_sb := Some sb\<rparr>) s"

definition analyze_sbs :: "env \<Rightarrow> jmd_state \<Rightarrow> (bool \<times> jmd_state) outcome" where
  "analyze_sbs ev s =
     (if \<not> members_ok s then Ret (False, s)
      else
        let (e, s0) = (if md_sb (md s) = None then alloc_array_sb ev s else (None, s));
            (fr, s1) = freshest_loop ev (mdisks (md s0)) None s0
        in if e \<noteq> None then Ret (False, s0)
        else case fr of
          None \<Rightarrow> Bug
        | Some f \<Rightarrow>
            (case rename_loop (mdisks (md s1)) (the (rd_sb (rd s1 f))) s1 of
               Bug \<Rightarrow> Bug
             | Hang \<Rightarrow> Hang
             | Ret (False, sb, s2) \<Rightarrow> Ret (False, put_sb sb s2)
             | Ret (True, sb, s2) \<Rightarrow>
                 let sb' = fold (clean_slot s2) [0..<MD_SB_DISKS] sb; s3 = put_sb sb' s2 in
                 if \<not> slots_ok s3 sb' then Ret (False, s3)
                 else if \<not> rdevs_distinct s3 then Ret (False, s3)
                 else if major_version sb' \<noteq> 0 \<or> minor_version sb' > 90 then Ret (False, s3)
                 else Ret (True, s3)))"

definition zoned_jraid_size :: "jmd_state \<Rightarrow> jmd_state" where
  "zoned_jraid_size s =
     (case md_sb (md s) of
        None \<Rightarrow> s
      | Some sb \<Rightarrow>
          fold (\<lambda>i s. let z = rd_size (rd s i) AND ucast (NOT (sb_chunk_size sb div 1024 - 1)) in
                  (upd_rd i (\<lambda>r. r\<lparr>rd_size := z\<rparr>) s)\<lparr>jmd_size := jmd_size s + ucast z\<rparr>)
            (mdisks (md s)) s)"

primrec size_loop :: "env \<Rightarrow> jmd_superblock \<Rightarrow> nat list \<Rightarrow> jmd_state \<Rightarrow> bool \<times> jmd_state" where
  "size_loop ev sb [] s = (True, s)"
| "size_loop ev sb (i # js) s =
     (if faulty (rd s i) then size_loop ev sb js s
      else if rd_size (rd s i) \<noteq> 0 then size_loop ev sb js s
      else
        let z = calc_dev_size ev s (rd_dev (rd s i)) (not_persistent sb = 0);
            s1 = upd_rd i (\<lambda>r. r\<lparr>rd_size := z\<rparr>) s
        in if z < ucast (sb_chunk_size sb div 512) then (False, s1) else size_loop ev sb js s1)"

definition data_disks_of :: "jmd_superblock \<Rightarrow> u32 option" where
  "data_disks_of sb =
     (if sb_level sb = - 3 \<or> sb_level sb = - 2 \<or> sb_level sb = - 1 then Some 1
      else if sb_level sb = 0 then Some (sb_raid_disks sb)
      else if sb_level sb = 1 then Some 1
      else if sb_level sb = 4 \<or> sb_level sb = 5 then Some (sb_raid_disks sb - 1)
      else None)"

definition readahead_of :: "jmd_superblock \<Rightarrow> u32 \<Rightarrow> u32" where
  "readahead_of sb data_disks =
     (if sb_level sb = 0 \<or> sb_level sb = 4 \<or> sb_level sb = 5 then
        let r = drop_bit 12 (sb_chunk_size sb) * 4 * data_disks; lim = data_disks * of_nat (254 div 2 ^ 3) * 2
        in if r < lim then lim else r
      else if sb_level sb = - 3 then 0
      else 31)"

text \<open>The result is 0, \<open>-EINVAL\<close> (-22) or 1.\<close>

definition device_size_calculation :: "env \<Rightarrow> jmd_state \<Rightarrow> (cint \<times> jmd_state) outcome" where
  "device_size_calculation ev s =
     (case md_sb (md s) of
        None \<Rightarrow> Bug
      | Some sb \<Rightarrow>
          (case size_loop ev sb (mdisks (md s)) s of
             (False, s1) \<Rightarrow> Ret (- 22, s1)
           | (True, s1) \<Rightarrow>
               (case data_disks_of sb of
                  None \<Rightarrow> Ret (1, s1)
                | Some n \<Rightarrow>
                    let s2 = (if sb_level sb = - 1 \<or> sb_level sb = 0 then zoned_jraid_size s1 else s1);
                        s3 = (if jmd_size s2 = 0 then s2\<lparr>jmd_size := sb_size sb * n\<rparr> else s2)
                    in Ret (0, s3\<lparr>jmd_maxreadahead := readahead_of sb n\<rparr>))))"

section \<open>The pass over the descriptors\<close>

definition removable :: "jmd_state \<Rightarrow> jmd_disk \<Rightarrow> bool" where
  "removable s d = (if disk_faulty d then has_member s d \<or> dk_dev d \<noteq> (0, 0)
     else dk_dev d \<noteq> (0, 0) \<and> \<not> has_member s d)"

definition cleaned :: "jmd_state \<Rightarrow> jmd_disk \<Rightarrow> jmd_disk" where
  "cleaned s d = (if removable s d then mark_disk_removed (d\<lparr>dk_major := 0, dk_minor := 0\<rparr>) else d)"

lemma clean_slot_step:
  "sb_disks (clean_slot s k sb) = (sb_disks sb)[k := cleaned s (sb_disks sb ! k)]"
  "nr_disks (clean_slot s k sb) = nr_disks sb - (if removable s (sb_disks sb ! k) then 1 else 0)"
  "sb_working_disks (clean_slot s k sb) + sb_failed_disks (clean_slot s k sb) - nr_disks (clean_slot s k sb) =
     sb_working_disks sb + sb_failed_disks sb - nr_disks sb"
  "jmd_event (clean_slot s k sb) = jmd_event sb"
  "major_version (clean_slot s k sb) = major_version sb"
  "minor_version (clean_slot s k sb) = minor_version sb"
  by (auto simp: clean_slot_def removable_def cleaned_def remove_descriptor_def Let_def jmd_event_def
      disk_active_def mark_disk_removed_def)

lemma clean_slots:
  assumes "n \<le> length (sb_disks sb)"
  shows "sb_disks (fold (clean_slot s) [0..<n] sb) = map (cleaned s) (take n (sb_disks sb)) @ drop n (sb_disks sb) \<and>
    nr_disks (fold (clean_slot s) [0..<n] sb) =
      nr_disks sb - of_nat (length (filter (removable s) (take n (sb_disks sb)))) \<and>
    sb_working_disks (fold (clean_slot s) [0..<n] sb) + sb_failed_disks (fold (clean_slot s) [0..<n] sb) -
      nr_disks (fold (clean_slot s) [0..<n] sb) = sb_working_disks sb + sb_failed_disks sb - nr_disks sb \<and>
    jmd_event (fold (clean_slot s) [0..<n] sb) = jmd_event sb \<and>
    major_version (fold (clean_slot s) [0..<n] sb) = major_version sb \<and>
    minor_version (fold (clean_slot s) [0..<n] sb) = minor_version sb"
  using assms
proof (induction n)
  case (Suc n)
  define t where "t = fold (clean_slot s) [0..<n] sb"
  have IH: "sb_disks t = map (cleaned s) (take n (sb_disks sb)) @ drop n (sb_disks sb)"
    "nr_disks t = nr_disks sb - of_nat (length (filter (removable s) (take n (sb_disks sb))))"
    "sb_working_disks t + sb_failed_disks t - nr_disks t = sb_working_disks sb + sb_failed_disks sb - nr_disks sb"
    "jmd_event t = jmd_event sb" "major_version t = major_version sb" "minor_version t = minor_version sb"
    using Suc.IH [OF Suc_leD [OF Suc.prems], folded t_def] by blast+
  have n: "n < length (sb_disks sb)" using Suc.prems by simp
  have take: "take (Suc n) (sb_disks sb) = take n (sb_disks sb) @ [sb_disks sb ! n]"
    using n by (rule take_Suc_conv_app_nth)
  have nth: "sb_disks t ! n = sb_disks sb ! n" using n by (simp add: IH(1) nth_append)
  have upd: "(sb_disks t)[n := x] = map (cleaned s) (take n (sb_disks sb)) @ x # drop (Suc n) (sb_disks sb)" for x
    using n by (simp add: IH(1) list_update_append Cons_nth_drop_Suc [symmetric])
  have step: "fold (clean_slot s) [0..<Suc n] sb = clean_slot s n t" by (simp add: t_def)
  have "sb_disks (clean_slot s n t) = map (cleaned s) (take (Suc n) (sb_disks sb)) @ drop (Suc n) (sb_disks sb)"
    by (simp add: clean_slot_step(1) nth take upd)
  moreover have "nr_disks (clean_slot s n t) =
      nr_disks sb - of_nat (length (filter (removable s) (take (Suc n) (sb_disks sb))))"
    by (simp add: clean_slot_step(2) nth take IH(2))
  ultimately show ?case unfolding step clean_slot_step(3-6) using IH(3-6) by blast
qed simp

lemma cleaned_cases:
  "dk_dev (cleaned s d) = (0, 0) \<or> cleaned s d = d \<and> \<not> disk_faulty d \<and> has_member s d"
  by (auto simp: cleaned_def removable_def dk_dev_def mark_disk_removed_def)

section \<open>The choice of the freshest superblock\<close>

definition aged_event :: "env \<Rightarrow> jmd_state \<Rightarrow> nat \<Rightarrow> u64" where
  "aged_event ev s i = (case rd_sb (rd s i) of None \<Rightarrow> 0 | Some sb \<Rightarrow> jmd_event (age_bad_csum ev sb))"

definition age_rdev :: "env \<Rightarrow> jmd_rdev \<Rightarrow> jmd_rdev" where
  "age_rdev ev r = r\<lparr>rd_sb := map_option (age_bad_csum ev) (rd_sb r)\<rparr>"

lemma freshest_loop_correct:
  assumes "distinct js" "freshest_loop ev js fr s = (fr', s')"
    and "\<And>f. fr = Some f \<Longrightarrow> f \<notin> set js"
  shows "s' = s\<lparr>rd := (\<lambda>i. if i \<in> set js then age_rdev ev (rd s i) else rd s i)\<rparr> \<and>
    (fr' = None \<longleftrightarrow> fr = None \<and> js = []) \<and>
    (\<forall>f. fr' = Some f \<longrightarrow> f \<in> set js \<union> set_option fr \<and>
       (\<forall>i \<in> set js \<union> set_option fr. rdev_event s' i \<le> rdev_event s' f))"
  using assms
proof (induction js arbitrary: fr s)
  case (Cons i js)
  define s1 where "s1 = upd_rd i (age_rdev ev) s"
  define fr1 where "fr1 = (case fr of None \<Rightarrow> Some i
     | Some f \<Rightarrow> if rdev_event s1 i > rdev_event s1 f then Some i else Some f)"
  have loop: "freshest_loop ev js fr1 s1 = (fr', s')"
    using Cons.prems(2) unfolding fr1_def s1_def age_rdev_def by (simp add: Let_def)
  have fr1: "\<exists>f. fr1 = Some f \<and> f \<notin> set js \<and> f \<in> insert i (set_option fr)"
    using Cons.prems(1,3) by (auto simp: fr1_def split: option.split)
  have IH: "s' = s1\<lparr>rd := (\<lambda>i. if i \<in> set js then age_rdev ev (rd s1 i) else rd s1 i)\<rparr>"
    "fr' \<noteq> None" "\<And>f. fr' = Some f \<Longrightarrow> f \<in> set js \<union> set_option fr1"
    "\<And>f k. fr' = Some f \<Longrightarrow> k \<in> set js \<union> set_option fr1 \<Longrightarrow> rdev_event s' k \<le> rdev_event s' f"
    using Cons.IH [OF _ loop] Cons.prems(1) fr1 by auto
  have s': "s' = s\<lparr>rd := (\<lambda>k. if k \<in> set (i # js) then age_rdev ev (rd s k) else rd s k)\<rparr>"
    using Cons.prems(1) by (auto simp: IH(1) s1_def upd_rd_def fun_eq_iff)
  have same: "rdev_event s' k = rdev_event s1 k" if "k \<notin> set js" for k
    using that by (simp add: IH(1) rdev_event_def)
  have le: "rdev_event s' k \<le> rdev_event s' f" if f: "fr' = Some f" and k: "k \<in> insert i (set_option fr)" for f k
  proof -
    obtain g where g: "fr1 = Some g" "g \<notin> set js" using fr1 by blast
    have "k \<notin> set js" using k Cons.prems(1,3) by auto
    moreover have "rdev_event s1 k \<le> rdev_event s1 g"
      using k g(1) by (auto simp: fr1_def split: option.splits if_splits)
    moreover have "rdev_event s' g \<le> rdev_event s' f" using IH(4) [OF f] g(1) by simp
    ultimately show ?thesis using g(2) by (simp add: same)
  qed
  show ?case
  proof (intro conjI allI impI ballI)
    fix f assume f: "fr' = Some f"
    show "f \<in> set (i # js) \<union> set_option fr" using IH(3) [OF f] fr1 by auto
    fix k assume "k \<in> set (i # js) \<union> set_option fr"
    then show "rdev_event s' k \<le> rdev_event s' f" using le [OF f] IH(4) [OF f] by auto
  qed (use s' IH(2) in simp_all)
qed auto

corollary freshest_loop_None:
  assumes "distinct js" "freshest_loop ev js None s = (Some f, s')"
  shows "s' = s\<lparr>rd := (\<lambda>i. if i \<in> set js then age_rdev ev (rd s i) else rd s i)\<rparr>"
    "f \<in> set js" "\<And>i. i \<in> set js \<Longrightarrow> rdev_event s' i \<le> rdev_event s' f"
proof -
  have "f \<in> set js \<union> set_option None \<and> (\<forall>i \<in> set js \<union> set_option None. rdev_event s' i \<le> rdev_event s' f)"
    and *: "s' = s\<lparr>rd := (\<lambda>i. if i \<in> set js then age_rdev ev (rd s i) else rd s i)\<rparr>"
    using freshest_loop_correct [OF assms] by blast+
  then show "f \<in> set js" "\<And>i. i \<in> set js \<Longrightarrow> rdev_event s' i \<le> rdev_event s' f" by blast+
  show "s' = s\<lparr>rd := (\<lambda>i. if i \<in> set js then age_rdev ev (rd s i) else rd s i)\<rparr>" by (rule *)
qed

section \<open>Renamed devices\<close>

lemma rename_loop_frame:
  assumes "rename_loop js sb s = Ret (b, sb', s')"
  shows "length (sb_disks sb') = length (sb_disks sb) \<and> jmd_event sb' = jmd_event sb \<and>
    major_version sb' = major_version sb \<and> minor_version sb' = minor_version sb \<and>
    md s' = md s \<and> all_jraid_disks s' = all_jraid_disks s \<and>
    rd_dev (rd s' i) = rd_dev (rd s i) \<and> desc_nr (rd s' i) = desc_nr (rd s i) \<and>
    faulty (rd s' i) = faulty (rd s i) \<and> rd_size (rd s' i) = rd_size (rd s i) \<and>
    sb_offset (rd s' i) = sb_offset (rd s i) \<and> rd_bound (rd s' i) = rd_bound (rd s i)"
  using assms
proof (induction js arbitrary: sb s)
  case (Cons k js)
  from Cons.prems consider "rename_loop js sb s = Ret (b, sb', s')" | "sb' = sb" "s' = s"
    | d where "rename_loop js (sb\<lparr>sb_disks := (sb_disks sb)[unat (desc_nr (rd s k)) := d]\<rparr>)
        (upd_rd k (\<lambda>r. r\<lparr>rd_sb := map_option
                    (\<lambda>b. b\<lparr>this_disk := set_dev (rd_dev r) (this_disk b)\<rparr>) (rd_sb r)\<rparr>) s) = Ret (b, sb', s')"
    by (auto simp: Let_def split: if_splits)
  then show ?case
  proof cases
    case 3
    show ?thesis using Cons.IH [OF 3] by (simp add: jmd_event_def)
  qed (use Cons.IH in simp_all)
qed simp

section \<open>Analysing the superblocks\<close>

definition with_sb :: "env \<Rightarrow> jmd_state \<Rightarrow> jmd_state" where
  "with_sb ev s = (if md_sb (md s) = None then snd (alloc_array_sb ev s) else s)"

lemma with_sb_simps [simp]:
  "rd (with_sb ev s) = rd s" "mdisks (md (with_sb ev s)) = mdisks (md s)"
  "all_jraid_disks (with_sb ev s) = all_jraid_disks s"
  by (simp_all add: with_sb_def alloc_array_sb_def)

lemma analyze_cases:
  assumes "analyze_sbs ev s = Ret (True, s')"
  obtains f s1 sb s2 where "members_ok s"
    "freshest_loop ev (mdisks (md s)) None (with_sb ev s) = (Some f, s1)"
    "rename_loop (mdisks (md s1)) (the (rd_sb (rd s1 f))) s1 = Ret (True, sb, s2)"
    "s' = put_sb (fold (clean_slot s2) [0..<MD_SB_DISKS] sb) s2"
    "slots_ok s' (fold (clean_slot s2) [0..<MD_SB_DISKS] sb)" "rdevs_distinct s'"
    "major_version (fold (clean_slot s2) [0..<MD_SB_DISKS] sb) = 0"
    "minor_version (fold (clean_slot s2) [0..<MD_SB_DISKS] sb) \<le> 90"
proof -
  obtain e s0 where al: "(if md_sb (md s) = None then alloc_array_sb ev s else (None, s)) = (e, s0)" by fastforce
  then have s0: "s0 = with_sb ev s" by (auto simp: with_sb_def split: if_splits)
  obtain fr s1 where fl: "freshest_loop ev (mdisks (md s)) None (with_sb ev s) = (fr, s1)" by fastforce
  have fl0: "freshest_loop ev (mdisks (md s0)) None s0 = (fr, s1)" using fl by (simp add: s0)
  note run = assms [unfolded analyze_sbs_def al Let_def prod.case fl0]
  from run obtain f where f: "fr = Some f" and ok: "members_ok s"
    by (auto split: if_splits option.splits)
  from run f ok obtain sb s2 where
    rl: "rename_loop (mdisks (md s1)) (the (rd_sb (rd s1 f))) s1 = Ret (True, sb, s2)"
    by (auto split: if_splits outcome.splits bool.splits)
  show thesis
    by (rule that [OF ok fl [unfolded f] rl])
       (use run f ok rl in \<open>auto split: if_splits\<close>)
qed

lemma rdevs_distinctD:
  assumes "rdevs_distinct s" "i \<in> set (mdisks (md s))" "j \<in> set (mdisks (md s))"
  shows "desc_nr (rd s i) = desc_nr (rd s j) \<Longrightarrow> i = j" "rd_dev (rd s i) = rd_dev (rd s j) \<Longrightarrow> i = j"
    "desc_nr (rd s i) \<noteq> - 1"
  using assms unfolding rdevs_distinct_def list_all_iff by blast+

definition sbs_full :: "jmd_state \<Rightarrow> bool" where
  "sbs_full s \<longleftrightarrow> (\<forall>i \<in> set (mdisks (md s)). \<forall>sb. rd_sb (rd s i) = Some sb \<longrightarrow>
     length (sb_disks sb) = MD_SB_DISKS)"

lemma aged_disks: "sb_disks (age_bad_csum ev sb) = sb_disks sb"
  by (simp add: age_bad_csum_def)

lemma analyze_sbs_sound:
  assumes dist: "distinct (mdisks (md s))" and full: "sbs_full s"
    and run: "analyze_sbs ev s = Ret (True, s')"
  shows "\<exists>sb. md_sb (md s') = Some sb \<and> length (sb_disks sb) = MD_SB_DISKS \<and>
    mdisks (md s') = mdisks (md s) \<and>
    (\<exists>f \<in> set (mdisks (md s)). jmd_event sb = aged_event ev s f) \<and>
    (\<forall>i \<in> set (mdisks (md s)). aged_event ev s i \<le> jmd_event sb \<and> \<not> faulty (rd s i) \<and>
       check_disk_sb (rd_sb (rd s i)) = None) \<and>
    (\<forall>d \<in> set (sb_disks sb). dk_dev d \<noteq> (0, 0) \<longrightarrow> \<not> disk_faulty d \<and>
       (\<exists>!i. i \<in> set (mdisks (md s)) \<and> rd_dev (rd s i) = dk_dev d) \<and>
       (\<exists>!i. i \<in> set (mdisks (md s)) \<and> desc_nr (rd s i) = dk_number d)) \<and>
    major_version sb = 0 \<and> minor_version sb \<le> 90"
  using run
proof (rule analyze_cases)
  fix f s1 sb s2
  define s0 where "s0 = (with_sb ev s)"
  define sb' where "sb' = fold (clean_slot s2) [0..<MD_SB_DISKS] sb"
  assume ok: "members_ok s"
    and "freshest_loop ev (mdisks (md s)) None (with_sb ev s) = (Some f, s1)"
    and rl: "rename_loop (mdisks (md s1)) (the (rd_sb (rd s1 f))) s1 = Ret (True, sb, s2)"
    and "s' = put_sb (fold (clean_slot s2) [0..<MD_SB_DISKS] sb) s2"
      "slots_ok s' (fold (clean_slot s2) [0..<MD_SB_DISKS] sb)"
    and dis: "rdevs_distinct s'"
    and "major_version (fold (clean_slot s2) [0..<MD_SB_DISKS] sb) = 0"
      "minor_version (fold (clean_slot s2) [0..<MD_SB_DISKS] sb) \<le> 90"
  then have fl: "freshest_loop ev (mdisks (md s)) None s0 = (Some f, s1)"
    and s': "s' = put_sb sb' s2" and slots: "slots_ok s' sb'"
    and ver: "major_version sb' = 0" "minor_version sb' \<le> 90"
    by (simp_all only: s0_def sb'_def)
  have s0: "rd s0 = rd s" "mdisks (md s0) = mdisks (md s)" by (simp_all add: s0_def)
  have fresh: "s1 = s0\<lparr>rd := (\<lambda>i. if i \<in> set (mdisks (md s)) then age_rdev ev (rd s0 i) else rd s0 i)\<rparr>"
    "f \<in> set (mdisks (md s))" "\<And>i. i \<in> set (mdisks (md s)) \<Longrightarrow> rdev_event s1 i \<le> rdev_event s1 f"
    by (rule freshest_loop_None [OF dist fl]; assumption)+
  have mem: "\<not> faulty (rd s i) \<and> check_disk_sb (rd_sb (rd s i)) = None" if "i \<in> set (mdisks (md s))" for i
    using ok that by (simp add: members_ok_def list_all_iff)
  obtain sbf where sbf: "rd_sb (rd s f) = Some sbf" using mem [OF fresh(2)]
    by (cases "rd_sb (rd s f)") (auto simp: check_disk_sb_def)
  have aged: "rdev_event s1 i = aged_event ev s i" if "i \<in> set (mdisks (md s))" for i
    using that by (simp add: fresh(1) s0(1) rdev_event_def aged_event_def age_rdev_def split: option.split)
  have the_f: "the (rd_sb (rd s1 f)) = age_bad_csum ev sbf"
    using fresh(2) sbf by (simp add: fresh(1) s0(1) age_rdev_def)
  have len: "length (sb_disks (age_bad_csum ev sbf)) = MD_SB_DISKS"
    using full fresh(2) sbf by (simp add: sbs_full_def aged_disks)
  note fr = rename_loop_frame [OF rl]
  have lists: "mdisks (md s') = mdisks (md s)" using fr by (simp add: s' put_sb_def fresh(1) s0(2))
  have rdv: "rd_dev (rd s' i) = rd_dev (rd s i) \<and> desc_nr (rd s' i) = desc_nr (rd s i)" for i
    using fr by (auto simp: s' put_sb_def fresh(1) s0(1) age_rdev_def)
  have n: "MD_SB_DISKS \<le> length (sb_disks sb)" using fr len by (simp add: the_f)
  have len_sb: "length (sb_disks sb) = MD_SB_DISKS" using fr len by (simp add: the_f)
  have cl: "sb_disks sb' = map (cleaned s2) (sb_disks sb)" "jmd_event sb' = jmd_event sb"
    using clean_slots [OF n, of s2, folded sb'_def] len_sb by simp_all
  have ev: "jmd_event sb' = aged_event ev s f"
    using fr aged [OF fresh(2)] fresh(2) sbf by (simp add: cl(2) the_f aged_event_def)
  have has2: "has_member s2 d = has_member s' d" for d by (simp add: s' put_sb_def has_member_def)
  have slot: "\<not> disk_faulty d \<and> (\<exists>!i. i \<in> set (mdisks (md s)) \<and> rd_dev (rd s i) = dk_dev d) \<and>
      (\<exists>!i. i \<in> set (mdisks (md s)) \<and> desc_nr (rd s i) = dk_number d)"
    if d: "d \<in> set (sb_disks sb')" "dk_dev d \<noteq> (0, 0)" for d
  proof -
    obtain d0 where "d = cleaned s2 d0" using d(1) by (auto simp: cl(1))
    then have h: "has_member s' d" "\<not> disk_faulty d" using cleaned_cases [of s2 d0] d(2) has2 by auto
    have "find_jrdev s' (dk_dev d) \<noteq> None"
      using slots d len_sb by (auto simp: slots_ok_def list_all_iff cl(1))
    then have "\<exists>i \<in> set (mdisks (md s)). rd_dev (rd s i) = dk_dev d"
      by (auto simp: find_jrdev_def find_None_iff lists rdv)
    moreover have "\<exists>i \<in> set (mdisks (md s)). desc_nr (rd s i) = dk_number d"
      using h(1) by (auto simp: has_member_def list_ex_iff lists rdv)
    ultimately show ?thesis
      using h(2) rdevs_distinctD [OF dis] unfolding lists by (simp only: rdv) metis
  qed
  have "md_sb (md s') = Some sb'" "length (sb_disks sb') = MD_SB_DISKS"
    by (simp_all add: s' put_sb_def cl(1) len_sb)
  then show ?thesis using lists ev fresh(2,3) aged mem slot ver by (intro exI [of _ sb']) auto
qed

section \<open>Sizes\<close>

lemma calc_dev_size_upd:
  assumes "\<And>r. rd_dev (g r) = rd_dev r"
  shows "calc_dev_size ev (upd_rd i g s) dv p = calc_dev_size ev s dv p"
proof -
  have find: "find_jrdev (upd_rd i g s) dv = find_jrdev s dv"
    using assms by (auto simp: find_jrdev_def intro!: arg_cong [of _ _ "\<lambda>P. find P _"])
  have "calc_dev_sboffset ev (upd_rd i g s) dv p = calc_dev_sboffset ev s dv p"
    unfolding calc_dev_sboffset_def find using assms by (simp split: option.split)
  then show ?thesis by (simp add: calc_dev_size_def)
qed

definition sized :: "env \<Rightarrow> jmd_superblock \<Rightarrow> jmd_state \<Rightarrow> nat \<Rightarrow> u64" where
  "sized ev sb s i = calc_dev_size ev s (rd_dev (rd s i)) (not_persistent sb = 0)"

definition big_enough :: "env \<Rightarrow> jmd_superblock \<Rightarrow> jmd_state \<Rightarrow> nat \<Rightarrow> bool" where
  "big_enough ev sb s i \<longleftrightarrow> faulty (rd s i) \<or> rd_size (rd s i) \<noteq> 0 \<or> ucast (sb_chunk_size sb div 512) \<le> sized ev sb s i"

lemma size_loop_correct:
  assumes "distinct js" "size_loop ev sb js s = (b, s')"
  shows "md s' = md s \<and> jmd_size s' = jmd_size s \<and> (b \<longleftrightarrow> (\<forall>i \<in> set js. big_enough ev sb s i)) \<and>
    (b \<longrightarrow> (\<forall>i. rd s' i = (if i \<in> set js \<and> \<not> faulty (rd s i) \<and> rd_size (rd s i) = 0
       then (rd s i)\<lparr>rd_size := sized ev sb s i\<rparr> else rd s i)))"
  using assms
proof (induction js arbitrary: s)
  case (Cons i js)
  show ?case
  proof (cases "faulty (rd s i) \<or> rd_size (rd s i) \<noteq> 0")
    case True
    have "size_loop ev sb js s = (b, s')" using Cons.prems(2) True by (simp split: if_splits)
    from Cons.IH [OF _ this] Cons.prems(1) have IH: "md s' = md s" "jmd_size s' = jmd_size s"
      "b \<longleftrightarrow> (\<forall>k \<in> set js. big_enough ev sb s k)"
      "b \<Longrightarrow> rd s' k = (if k \<in> set js \<and> \<not> faulty (rd s k) \<and> rd_size (rd s k) = 0
           then (rd s k)\<lparr>rd_size := sized ev sb s k\<rparr> else rd s k)" for k
      by auto
    have "big_enough ev sb s i" using True by (auto simp: big_enough_def)
    then show ?thesis using IH(1-3) IH(4) True by auto
  next
    case False
    define s1 where "s1 = upd_rd i (\<lambda>r. r\<lparr>rd_size := sized ev sb s i\<rparr>) s"
    have rd1: "rd s1 = (rd s)(i := (rd s i)\<lparr>rd_size := sized ev sb s i\<rparr>)" "md s1 = md s" "jmd_size s1 = jmd_size s"
      by (simp_all add: s1_def upd_rd_def)
    have keep: "sized ev sb s1 k = sized ev sb s k" for k
      by (simp add: sized_def s1_def calc_dev_size_upd)
    have big: "big_enough ev sb s1 k = big_enough ev sb s k" if "k \<in> set js" for k
      using that Cons.prems(1) by (auto simp: big_enough_def keep rd1)
    show ?thesis
    proof (cases "sized ev sb s i < ucast (sb_chunk_size sb div 512)")
      case True
      then show ?thesis using False Cons.prems(2) rd1
        by (auto simp: Let_def s1_def [symmetric] sized_def [symmetric] big_enough_def)
    next
      case no: False
      have "size_loop ev sb js s1 = (b, s')"
        using False no Cons.prems(2) by (auto simp: Let_def s1_def sized_def)
      from Cons.IH [OF _ this] Cons.prems(1)
      have IH: "md s' = md s" "jmd_size s' = jmd_size s" "b \<longleftrightarrow> (\<forall>k \<in> set js. big_enough ev sb s k)"
        "b \<Longrightarrow> rd s' k = (if k \<in> set js \<and> \<not> faulty (rd s1 k) \<and> rd_size (rd s1 k) = 0
           then (rd s1 k)\<lparr>rd_size := sized ev sb s k\<rparr> else rd s1 k)" for k
        using rd1 big keep by auto
      have "big_enough ev sb s i" using no by (simp add: big_enough_def not_less)
      moreover have "rd s' k = (if k \<in> set (i # js) \<and> \<not> faulty (rd s k) \<and> rd_size (rd s k) = 0
           then (rd s k)\<lparr>rd_size := sized ev sb s k\<rparr> else rd s k)" if b for k
        using IH(4) [OF that, of k] False Cons.prems(1) by (auto simp: rd1)
      ultimately show ?thesis using IH(1-3) by auto
    qed
  qed
qed simp

section \<open>Properties\<close>

text \<open>
  C19 When \<open>analyze_sbs\<close> accepts an array, its superblock carries the highest event counter of
  all members (one less for a member with a bad checksum) and was taken from such a member; no
  member is faulty or has an implausible superblock; and every descriptor that is left names
  exactly one member by device number and exactly one by descriptor number.
\<close>

theorem analyze_sbs_correct:
  assumes "distinct (mdisks (md s))" "sbs_full s" "analyze_sbs ev s = Ret (True, s')"
  shows "\<exists>sb. md_sb (md s') = Some sb \<and> length (sb_disks sb) = MD_SB_DISKS \<and>
    mdisks (md s') = mdisks (md s) \<and>
    (\<exists>f \<in> set (mdisks (md s)). jmd_event sb = aged_event ev s f) \<and>
    (\<forall>i \<in> set (mdisks (md s)). aged_event ev s i \<le> jmd_event sb \<and> \<not> faulty (rd s i) \<and>
       check_disk_sb (rd_sb (rd s i)) = None) \<and>
    (\<forall>d \<in> set (sb_disks sb). dk_dev d \<noteq> (0, 0) \<longrightarrow> \<not> disk_faulty d \<and>
       (\<exists>!i. i \<in> set (mdisks (md s)) \<and> rd_dev (rd s i) = dk_dev d) \<and>
       (\<exists>!i. i \<in> set (mdisks (md s)) \<and> desc_nr (rd s i) = dk_number d)) \<and>
    major_version sb = 0 \<and> minor_version sb \<le> 90"
  by (rule analyze_sbs_sound [OF assms])

definition disk_example :: "u32 \<Rightarrow> jmd_disk" where
  "disk_example k = \<lparr>dk_number = k, dk_major = 8, dk_minor = 16 * k, dk_raid_disk = k, dk_state = 0\<rparr>"

definition sb_example :: "u32 \<Rightarrow> u32 \<Rightarrow> jmd_superblock" where
  "sb_example k e = zero_sb\<lparr>md_magic := MD_SB_MAGIC, sb_level := 5, sb_raid_disks := 2, nr_disks := 2,
     sb_chunk_size := 32768, events_lo := e, sb_csum := e + k,
     sb_disks := disk_example 0 # disk_example 1 # replicate 25 zero_disk, this_disk := disk_example k\<rparr>"

definition asm_example :: jmd_state where
  "asm_example = md_example\<lparr>rd := (\<lambda>i. zero_rdev\<lparr>rd_dev := (8, 16 * of_nat i), old_dev := (8, 16 * of_nat i),
       rd_bound := True, desc_nr := of_nat i, rd_sb := Some (sb_example (of_nat i) (4 + of_nat i))\<rparr>),
     all_jraid_disks := [0, 1], md := (md md_example)\<lparr>mdisks := [0, 1], nb_dev := 2\<rparr>\<rparr>"

lemma sb_example_sel:
  "sb_disks (sb_example k e) = disk_example 0 # disk_example 1 # replicate 25 zero_disk"
  "md_magic (sb_example k e) = MD_SB_MAGIC" "md_minor (sb_example k e) = 0" "events_lo (sb_example k e) = e"
  "events_hi (sb_example k e) = 0" "sb_csum (sb_example k e) = e + k" "this_disk (sb_example k e) = disk_example k"
  "major_version (sb_example k e) = 0" "minor_version (sb_example k e) = 0" "sb_level (sb_example k e) = 5"
  "sb_chunk_size (sb_example k e) = 32768" "not_persistent (sb_example k e) = 0" "nr_disks (sb_example k e) = 2"
  "sb_raid_disks (sb_example k e) = 2" "sb_size (sb_example k e) = 0" "sb_state (sb_example k e) = 0"
  "layout (sb_example k e) = 0"
  by (simp_all add: sb_example_def zero_sb_def)

lemma asm_example_sel:
  "mdisks (md asm_example) = [0, 1]" "all_jraid_disks asm_example = [0, 1]" "nb_dev (md asm_example) = 2"
  "rd_dev (rd asm_example i) = (8, 16 * of_nat i)" "old_dev (rd asm_example i) = (8, 16 * of_nat i)"
  "rd_bound (rd asm_example i)" "\<not> faulty (rd asm_example i)" "desc_nr (rd asm_example i) = of_nat i"
  "rd_size (rd asm_example i) = 0" "sb_offset (rd asm_example i) = 0"
  "rd_sb (rd asm_example i) = Some (sb_example (of_nat i) (4 + of_nat i))"
  by (simp_all add: asm_example_def zero_rdev_def)

lemma asm_example_wf: "distinct (mdisks (md asm_example))" "sbs_full asm_example" "rdevs_ok asm_example"
  by (auto simp: asm_example_sel sbs_full_def sb_example_sel MD_SB_DISKS_def rdevs_ok_def inj_on_def)

lemma sb_example_csum: "age_bad_csum ev_example (sb_example k e) = sb_example k e"
  by (simp add: age_bad_csum_def sb_example_sel calc_sb_csum_def ev_example_def disk_example_def)

lemma clean_slots_none:
  "(\<And>k. k < n \<Longrightarrow> \<not> removable s (sb_disks sb ! k)) \<Longrightarrow> fold (clean_slot s) [0..<n] sb = sb"
proof (induction n)
  case (Suc n)
  have "clean_slot s n sb = sb" using Suc.prems [of n] by (auto simp: clean_slot_def Let_def removable_def split: if_splits)
  then show ?case using Suc by simp
qed simp

lemma asm_example_run:
  "\<exists>f \<in> {0, 1}. analyze_sbs ev_example asm_example =
     Ret (True, put_sb (sb_example (of_nat f) (4 + of_nat f)) asm_example)"
proof -
  let ?s = asm_example
  obtain sb0 where sb0: "md_sb (md ?s) = Some sb0" by (simp add: asm_example_def md_example_def)
  obtain fr s1 where fl: "freshest_loop ev_example [0, 1] None ?s = (fr, s1)" by fastforce
  have fr: "\<exists>f \<in> {0, 1}. fr = Some f" using fl by (auto simp: Let_def split: if_splits)
  then obtain f where f: "fr = Some f" "f \<in> {0, 1}" by blast
  have "age_rdev ev_example (rd ?s i) = rd ?s i" for i
    by (simp add: age_rdev_def asm_example_def sb_example_csum)
  then have s1: "s1 = ?s" using freshest_loop_None(1) [of "[0, 1]" ev_example ?s f s1] fl f(1)
    by (simp add: fun_eq_iff)
  define sb where "sb = sb_example (of_nat f) (4 + of_nat f)"
  have rl: "rename_loop [0, 1] sb ?s = Ret (True, sb, ?s)" by (simp add: asm_example_sel)
  have keep: "\<not> removable ?s d" if "d \<in> set (sb_disks sb)" for d
    using that by (auto simp: sb_def sb_example_sel removable_def disk_example_def zero_disk_def
        disk_faulty_def dk_dev_def has_member_def asm_example_sel)
  have len: "MD_SB_DISKS = length (sb_disks sb)" by (simp add: sb_def sb_example_sel MD_SB_DISKS_def)
  have ver: "major_version sb = 0" "minor_version sb = 0" by (simp_all add: sb_def sb_example_sel)
  have fold: "fold (clean_slot ?s) [0..<MD_SB_DISKS] sb = sb" by (rule clean_slots_none) (simp add: keep len)
  have the_f: "the (rd_sb (rd ?s f)) = sb" by (simp add: asm_example_sel sb_def)
  have slots: "slots_ok (put_sb sb ?s) sb"
    by (auto simp: slots_ok_def len sb_def sb_example_sel list_all_iff zero_disk_def disk_example_def
        dk_dev_def disk_faulty_def put_sb_def find_jrdev_def asm_example_sel)
  have dis: "rdevs_distinct (put_sb sb ?s)"
    by (auto simp: rdevs_distinct_def put_sb_def asm_example_sel)
  have ok: "members_ok ?s"
    by (auto simp: members_ok_def asm_example_sel check_disk_sb_def sb_example_sel MAX_MD_DEVS_def)
  have "analyze_sbs ev_example ?s = Ret (True, put_sb sb ?s)"
    by (simp add: analyze_sbs_def Let_def ok sb0 asm_example_sel(1) fl f(1) s1 the_f rl slots dis ver fold
        del: freshest_loop.simps rename_loop.simps One_nat_def)
  then show ?thesis using f(2) unfolding sb_def by blast
qed

theorem analyze_sbs_correct_witness:
  "\<exists>s' sb. analyze_sbs ev_example asm_example = Ret (True, s') \<and> md_sb (md s') = Some sb \<and>
     4 \<le> jmd_event sb"
proof -
  obtain s' where run: "analyze_sbs ev_example asm_example = Ret (True, s')"
    using asm_example_run by blast
  obtain sb where sb: "md_sb (md s') = Some sb"
    "\<forall>i \<in> set (mdisks (md asm_example)). aged_event ev_example asm_example i \<le> jmd_event sb"
    by (insert analyze_sbs_correct [OF asm_example_wf(1,2) run], elim exE conjE, rule that, assumption, intro ballI, drule bspec, assumption, elim conjE, assumption)
  have "aged_event ev_example asm_example 0 = 4"
    by (simp add: aged_event_def asm_example_sel sb_example_csum jmd_event_def sb_example_sel)
  then show ?thesis using run sb by (auto simp: asm_example_sel)
qed

text \<open>
  The pass of \<open>analyze_sbs\<close> over the \<open>n\<close> first descriptors removes exactly the removable ones, each
  once: \<open>nr_disks\<close> drops by their number, the difference between \<open>working_disks + failed_disks\<close>
  and \<open>nr_disks\<close> stays (both modulo \<open>2 ^ 32\<close>), and so does the event counter; what is left in
  use is not faulty and has a member.
\<close>

lemma descriptor_pass_correct:
  assumes "n \<le> length (sb_disks sb)" "sb' = fold (clean_slot s) [0..<n] sb"
  shows "sb_disks sb' = map (cleaned s) (take n (sb_disks sb)) @ drop n (sb_disks sb) \<and>
    nr_disks sb' = nr_disks sb - of_nat (length (filter (removable s) (take n (sb_disks sb)))) \<and>
    sb_working_disks sb' + sb_failed_disks sb' - nr_disks sb' =
      sb_working_disks sb + sb_failed_disks sb - nr_disks sb \<and>
    jmd_event sb' = jmd_event sb \<and>
    (\<forall>d \<in> set (take n (sb_disks sb')). dk_dev d \<noteq> (0, 0) \<longrightarrow> \<not> disk_faulty d \<and> has_member s d)"
proof -
  have "dk_dev (cleaned s d) \<noteq> (0, 0) \<longrightarrow> \<not> disk_faulty (cleaned s d) \<and> has_member s (cleaned s d)" for d
    using cleaned_cases [of s d] by auto
  then show ?thesis using clean_slots [OF assms(1), of s] assms(1) unfolding assms(2) by auto
qed

lemma device_size_calculation_raid5:
  assumes "distinct (mdisks (md s))" "md_sb (md s) = Some sb" "sb_level sb = 4 \<or> sb_level sb = 5"
    and "device_size_calculation ev s = Ret (r, s')"
  shows "md s' = md s \<and> (r = 0 \<longleftrightarrow> (\<forall>i \<in> set (mdisks (md s)). big_enough ev sb s i)) \<and>
    (r \<noteq> 0 \<longrightarrow> r = - 22) \<and>
    (r = 0 \<longrightarrow> jmd_size s' = (if jmd_size s = 0 then sb_size sb * (sb_raid_disks sb - 1) else jmd_size s) \<and>
       (\<forall>i. rd s' i = (if i \<in> set (mdisks (md s)) \<and> \<not> faulty (rd s i) \<and> rd_size (rd s i) = 0
          then (rd s i)\<lparr>rd_size := sized ev sb s i\<rparr> else rd s i)))"
proof -
  obtain b s1 where loop: "size_loop ev sb (mdisks (md s)) s = (b, s1)" by fastforce
  note lc = size_loop_correct [OF assms(1) loop]
  show ?thesis
  proof (cases b)
    case True
    have lev: "sb_level sb \<noteq> 0" "sb_level sb \<noteq> - 1" "data_disks_of sb = Some (sb_raid_disks sb - 1)"
      using assms(3) by (auto simp: data_disks_of_def)
    with assms(2,4) loop True have "r = 0" "s' = (if jmd_size s1 = 0
        then s1\<lparr>jmd_size := sb_size sb * (sb_raid_disks sb - 1)\<rparr> else s1)\<lparr>jmd_maxreadahead := readahead_of sb (sb_raid_disks sb - 1)\<rparr>"
      by (simp_all add: device_size_calculation_def Let_def)
    then show ?thesis using lc True by simp
  next
    case False
    then have "r = - 22" "s' = s1" using assms(2,4) loop by (simp_all add: device_size_calculation_def)
    then show ?thesis using lc False by simp
  qed
qed

text \<open>
  C21 \<open>device_size_calculation\<close> for a RAID-4/5 array: it succeeds exactly when every healthy
  member that has no size yet holds at least one chunk, and returns \<open>-EINVAL\<close> otherwise; after
  success these members have the size \<open>calc_dev_size\<close> gives, all others keep theirs, and the
  array's size, if it was 0, is \<open>size * (raid_disks - 1)\<close> as a 32-bit number.
\<close>

theorem device_size_calculation_correct:
  assumes "distinct (mdisks (md s))" "md_sb (md s) = Some sb" "sb_level sb = 4 \<or> sb_level sb = 5"
    and "device_size_calculation ev s = Ret (r, s')"
  shows "md s' = md s \<and> (r = 0 \<longleftrightarrow> (\<forall>i \<in> set (mdisks (md s)). big_enough ev sb s i)) \<and>
    (r \<noteq> 0 \<longrightarrow> r = - 22) \<and>
    (r = 0 \<longrightarrow> jmd_size s' = (if jmd_size s = 0 then sb_size sb * (sb_raid_disks sb - 1) else jmd_size s) \<and>
       (\<forall>i. rd s' i = (if i \<in> set (mdisks (md s)) \<and> \<not> faulty (rd s i) \<and> rd_size (rd s i) = 0
          then (rd s i)\<lparr>rd_size := sized ev sb s i\<rparr> else rd s i)))"
  by (rule device_size_calculation_raid5 [OF assms])

definition sized_example :: jmd_state where
  "sized_example = asm_example\<lparr>md := (md asm_example)\<lparr>md_sb := Some (sb_example 0 4)\<rparr>\<rparr>"

lemma sized_example_sel:
  "rd sized_example = rd asm_example" "mdisks (md sized_example) = [0, 1]"
  "md_sb (md sized_example) = Some (sb_example 0 4)" "jmd_size sized_example = 0"
  "nb_dev (md sized_example) = 2" "pers_table sized_example = [RAID5 \<mapsto> ''jraid5'']" "md_pers (md sized_example) = None"
  by (simp_all add: sized_example_def asm_example_sel) (simp_all add: asm_example_def md_example_def)

lemma example_offset:
  assumes "mdisks (md s) = [0, 1]" "\<And>i. rd_dev (rd s i) = (8, 16 * of_nat i)" "i < 2"
  shows "calc_dev_sboffset ev_example s (rd_dev (rd s i)) True = 20352"
  using assms less_2_cases_iff [of i]
  by (auto simp: calc_dev_sboffset_def find_jrdev_def ev_example_def MD_NEW_SIZE_BLOCKS_def
      MD_RESERVED_BLOCKS_def MD_RESERVED_BYTES_def)

lemma example_size:
  assumes "mdisks (md s) = [0, 1]" "\<And>i. rd_dev (rd s i) = (8, 16 * of_nat i)" "i < 2"
    and "md_sb (md s) = Some (sb_example k e)"
  shows "sized ev_example (sb_example k e) s i = 20352"
  using example_offset [OF assms(1-3)] assms(2,4) by (simp add: sized_def calc_dev_size_def sb_example_sel)

lemma example_device_size:
  assumes "mdisks (md s) = [0, 1]" "\<And>i. rd_dev (rd s i) = (8, 16 * of_nat i)"
    and "md_sb (md s) = Some (sb_example k e)"
  shows "\<exists>s'. device_size_calculation ev_example s = Ret (0, s')"
proof -
  obtain b s1 where loop: "size_loop ev_example (sb_example k e) [0, 1] s = (b, s1)" by fastforce
  obtain r s' where run: "device_size_calculation ev_example s = Ret (r, s')"
    using loop assms by (cases b) (auto simp: device_size_calculation_def data_disks_of_def sb_example_sel Let_def)
  have "distinct (mdisks (md s))" "sb_level (sb_example k e) = 4 \<or> sb_level (sb_example k e) = 5"
    using assms(1) by (simp_all add: sb_example_sel)
  note ds = device_size_calculation_raid5 [OF this(1) assms(3) this(2) run]
  have "big_enough ev_example (sb_example k e) s i" if "i < 2" for i
    using example_size [OF assms(1,2) that assms(3)] by (simp add: big_enough_def sb_example_sel)
  then have "\<forall>i \<in> set (mdisks (md s)). big_enough ev_example (sb_example k e) s i" using assms(1) by simp
  then have "r = 0" using ds by blast
  then show ?thesis using run by simp
qed

theorem device_size_calculation_correct_witness:
  "\<exists>s'. device_size_calculation ev_example sized_example = Ret (0, s') \<and> rd_size (rd s' 1) \<noteq> 0"
proof -
  have d: "\<And>i. rd_dev (rd sized_example i) = (8, 16 * of_nat i)" by (simp add: sized_example_sel asm_example_sel)
  obtain s' where run: "device_size_calculation ev_example sized_example = Ret (0, s')"
    using example_device_size [OF sized_example_sel(2) d sized_example_sel(3)] by blast
  have "distinct (mdisks (md sized_example))" "sb_level (sb_example 0 4) = 4 \<or> sb_level (sb_example 0 4) = 5"
    by (simp_all add: sized_example_sel sb_example_sel)
  from device_size_calculation_correct [OF this(1) sized_example_sel(3) this(2) run] run show ?thesis
    using example_size [OF sized_example_sel(2) d _ sized_example_sel(3), of 1]
    by (auto simp: sized_example_sel asm_example_sel)
qed

end
