(* ===== verification/Jmd_Super.thy ===== *)
theory Jmd_Super
  imports Jmd_Analyze
begin

text \<open>
  Writing superblocks, \<^verbatim>\<open>src/src/jmd.c\<close>: \<open>write_disk_sb\<close>, its completion \<open>super_written\<close>
  and \<open>jmd_update_sb\<close>.

  \<open>sb_io\<close> records what these functions do to the outside: the requests submitted (device,
  sector and contents), and how many bios and pages they hold. Whether the two allocations of
  the \<open>n\<close>-th call of \<open>write_disk_sb\<close> succeed is a parameter. The loop of \<open>jmd_update_sb\<close>
  counts down from 100, so it is a recursion on the count.
\<close>

unbundle bit_operations_syntax

section \<open>The code\<close>

record sb_io =
  wr_calls :: nat
  wr_bios :: int
  wr_pages :: int
  wr_sent :: "(dev_t \<times> sector_t \<times> jmd_superblock) list"

type_synonym mem_answers = "nat \<Rightarrow> bool \<times> bool"

definition super_written :: "jmd_state \<times> sb_io \<Rightarrow> jmd_state \<times> sb_io" where
  "super_written = (\<lambda>(s, io). (upd_md (\<lambda>d. d\<lparr>pending_writes := pending_writes d - 1\<rparr>) s,
     io\<lparr>wr_bios := wr_bios io - 1\<rparr>))"

text \<open>The results are \<open>-ENOMEM\<close> (-12), -1, 1 (skipped) and 0.\<close>

definition write_disk_sb :: "env \<Rightarrow> mem_answers \<Rightarrow> nat \<Rightarrow> jmd_state \<times> sb_io \<Rightarrow> cint \<times> jmd_state \<times> sb_io" where
  "write_disk_sb ev mem i = (\<lambda>(s, io0).
     let (bio_ok, page_ok) = mem (wr_calls io0);
         io = io0\<lparr>wr_calls := wr_calls io0 + 1\<rparr>
     in if \<not> bio_ok then (- 12, s, io)
        else if \<not> page_ok then (- 12, s, io)
        else
          let io1 = io\<lparr>wr_bios := wr_bios io + 1, wr_pages := wr_pages io + 1\<rparr>; r = rd s i
          in case rd_sb r of
               None \<Rightarrow> (- 1, s, io1)
             | Some sb \<Rightarrow>
                 if faulty r then (- 1, s, io1)
                 else if md_magic sb \<noteq> MD_SB_MAGIC then (- 1, s, io1)
                 else
                   let off = calc_dev_sboffset ev s (rd_dev r) True in
                   if sb_offset r \<noteq> off then (1, s, io1)
                   else if calc_dev_size ev s (rd_dev r) True \<noteq> rd_size r then (1, s, io1)
                   else (0, upd_md (\<lambda>d. d\<lparr>pending_writes := pending_writes d + 1\<rparr>) s,
                         io1\<lparr>wr_sent := wr_sent io1 @ [(rd_dev r, off, sb)]\<rparr>))"

primrec write_all :: "env \<Rightarrow> mem_answers \<Rightarrow> nat list \<Rightarrow> cint \<Rightarrow> jmd_state \<times> sb_io \<Rightarrow> cint \<times> jmd_state \<times> sb_io" where
  "write_all ev mem [] err w = (err, w)"
| "write_all ev mem (i # js) err w =
     (if faulty (rd (fst w) i) then write_all ev mem js err w
      else let (e, w1) = write_disk_sb ev mem i w in write_all ev mem js (err + e) w1)"

definition bump_events :: "u32 \<Rightarrow> jmd_superblock \<Rightarrow> jmd_superblock" where
  "bump_events now sb =
     (let lo = events_lo sb + 1; hi = (if lo = 0 then events_hi sb + 1 else events_hi sb) in
      if lo OR hi = 0 then sb\<lparr>utime := now, events_lo := 0xffffffff, events_hi := 0xffffffff\<rparr>
      else sb\<lparr>utime := now, events_lo := lo, events_hi := hi\<rparr>)"

primrec update_loop :: "env \<Rightarrow> mem_answers \<Rightarrow> nat \<Rightarrow> jmd_superblock \<Rightarrow> jmd_state \<times> sb_io \<Rightarrow> jmd_state \<times> sb_io" where
  "update_loop ev mem 0 sb w = w"
| "update_loop ev mem (Suc count) sb w =
     (let sb1 = bump_events (ev_time ev) sb; s1 = sync_sbs ev (put_sb sb1 (fst w)) in
      if not_persistent sb1 \<noteq> 0 then (s1, snd w)
      else let (err, w1) = write_all ev mem (mdisks (md s1)) 0 (s1, snd w) in
        if err \<noteq> 0 \<and> count \<noteq> 0 then update_loop ev mem count sb1 w1 else w1)"

text \<open>\<open>jmd_update_sb\<close> always returns 0; without a superblock it dereferences \<open>NULL\<close>.\<close>

definition jmd_update_sb :: "env \<Rightarrow> mem_answers \<Rightarrow> jmd_state \<times> sb_io \<Rightarrow> (jmd_state \<times> sb_io) outcome" where
  "jmd_update_sb ev mem w =
     (case md_sb (md (fst w)) of None \<Rightarrow> Bug | Some sb \<Rightarrow> Ret (update_loop ev mem 100 sb w))"

section \<open>The event counter\<close>

lemma bump_events_keeps:
  "sb_disks (bump_events t sb) = sb_disks sb" "not_persistent (bump_events t sb) = not_persistent sb"
  "sb_chunk_size (bump_events t sb) = sb_chunk_size sb" "md_magic (bump_events t sb) = md_magic sb"
  "sb_level (bump_events t sb) = sb_level sb" "sb_raid_disks (bump_events t sb) = sb_raid_disks sb"
  "sb_state (bump_events t sb) = sb_state sb"
  by (simp_all add: bump_events_def Let_def)

text \<open>The two-word counter counts up and stops at its maximum.\<close>

lemma or_zero_iff: "(a :: u32) OR b = 0 \<longleftrightarrow> a = 0 \<and> b = 0"
  by (rule or_eq_0_iff)

lemma u32_Suc: "unat ((w :: u32) + 1) = (if w + 1 = 0 then 0 else unat w + 1)"
  using unatSuc [of w] by (auto simp: add.commute [of 1])

lemma bump_events_count:
  "unat (jmd_event (bump_events t sb)) = min (unat (jmd_event sb) + 1) (2 ^ 64 - 1)"
proof -
  define lo where "lo = unat (events_lo sb)"
  define hi where "hi = unat (events_hi sb)"
  have b: "lo < 2 ^ 32" "hi < 2 ^ 32" unfolding lo_def hi_def by (rule u32_less)+
  have wrap: "w + 1 = 0 \<longleftrightarrow> unat w = 2 ^ 32 - 1" for w :: u32
  proof
    assume "w + 1 = 0"
    then have "w = - 1" by (simp only: eq_neg_iff_add_eq_0)
    then show "unat w = 2 ^ 32 - 1" by (simp add: unsigned_minus_1_eq_mask mask_eq_exp_minus_1)
  next
    assume "unat w = 2 ^ 32 - 1"
    then have "w = of_nat (2 ^ 32 - 1)" by (rule of_nat_unat_eq)
    then show "w + 1 = 0" by simp
  qed
  show ?thesis
  proof (cases "lo = 2 ^ 32 - 1")
    case False
    then have "events_lo sb + 1 \<noteq> 0" using wrap by (simp add: lo_def)
    then have "unat (jmd_event (bump_events t sb)) = hi * 2 ^ 32 + (lo + 1)"
      by (simp add: unat_jmd_event bump_events_def Let_def or_zero_iff u32_Suc lo_def hi_def)
    moreover have "hi * 2 ^ 32 + (lo + 1) \<le> 2 ^ 64 - 1" using b False by simp
    ultimately show ?thesis by (simp add: unat_jmd_event [of sb] lo_def hi_def)
  next
    case lo: True
    then have z: "events_lo sb + 1 = 0" using wrap by (simp add: lo_def)
    show ?thesis
    proof (cases "hi = 2 ^ 32 - 1")
      case True
      then have "events_hi sb + 1 = 0" using wrap by (simp add: hi_def)
      then have "unat (jmd_event (bump_events t sb)) = 2 ^ 64 - 1"
        using z by (simp add: unat_jmd_event bump_events_def Let_def)
      then show ?thesis using lo True by (simp add: unat_jmd_event [of sb] lo_def [symmetric] hi_def [symmetric])
    next
      case False
      then have "events_hi sb + 1 \<noteq> 0" using wrap by (simp add: hi_def)
      then have "unat (jmd_event (bump_events t sb)) = (hi + 1) * 2 ^ 32"
        using z by (simp add: unat_jmd_event bump_events_def Let_def or_zero_iff u32_Suc hi_def)
      then show ?thesis using lo b False by (simp add: unat_jmd_event [of sb] lo_def [symmetric] hi_def [symmetric])
    qed
  qed
qed

section \<open>One write\<close>

definition writable :: "env \<Rightarrow> jmd_state \<Rightarrow> nat \<Rightarrow> bool" where
  "writable ev s i \<longleftrightarrow> \<not> faulty (rd s i) \<and> (\<exists>sb. rd_sb (rd s i) = Some sb \<and> md_magic sb = MD_SB_MAGIC) \<and>
     sb_offset (rd s i) = calc_dev_sboffset ev s (rd_dev (rd s i)) True \<and>
     rd_size (rd s i) = calc_dev_size ev s (rd_dev (rd s i)) True"

text \<open>What a write does to the bookkeeping: a page is taken and never given back.\<close>

lemma write_disk_sb_effect:
  assumes "write_disk_sb ev mem i (s, io) = (e, s', io')"
  shows "rd s' = rd s \<and> all_jraid_disks s' = all_jraid_disks s \<and> md_sb (md s') = md_sb (md s) \<and>
    mdisks (md s') = mdisks (md s) \<and> md_pers (md s') = md_pers (md s) \<and> md_private (md s') = md_private (md s) \<and>
    wr_calls io' = wr_calls io + 1 \<and> wr_pages io' = wr_pages io + (if mem (wr_calls io) = (True, True) then 1 else 0) \<and>
    wr_bios io' = wr_bios io + (if mem (wr_calls io) = (True, True) then 1 else 0) \<and>
    (e = 0 \<longleftrightarrow> mem (wr_calls io) = (True, True) \<and> writable ev s i) \<and>
    pending_writes (md s') = pending_writes (md s) + (if e = 0 then 1 else 0) \<and>
    wr_sent io' = wr_sent io @ (if e = 0 then [(rd_dev (rd s i), sb_offset (rd s i), the (rd_sb (rd s i)))] else [])"
proof (cases "mem (wr_calls io) = (True, True)")
  case True
  then show ?thesis using assms
    by (cases "rd_sb (rd s i)") (auto simp: write_disk_sb_def writable_def Let_def split: if_splits)
next
  case False
  then show ?thesis using assms
    by (cases "mem (wr_calls io)") (auto simp: write_disk_sb_def Let_def split: if_splits)
qed

lemma calc_dev_sboffset_cong:
  assumes "mdisks (md t) = mdisks (md s)" "\<And>i. rd_dev (rd t i) = rd_dev (rd s i)"
  shows "calc_dev_sboffset ev t dv p = calc_dev_sboffset ev s dv p"
  using assms by (simp add: calc_dev_sboffset_def find_jrdev_def split: option.split)

lemma calc_dev_size_cong:
  assumes "mdisks (md t) = mdisks (md s)" "\<And>i. rd_dev (rd t i) = rd_dev (rd s i)"
    "map_option sb_chunk_size (md_sb (md t)) = map_option sb_chunk_size (md_sb (md s))"
  shows "calc_dev_size ev t dv p = calc_dev_size ev s dv p"
proof -
  have off: "calc_dev_sboffset ev t dv p = calc_dev_sboffset ev s dv p"
    by (rule calc_dev_sboffset_cong [OF assms(1,2)])
  show ?thesis using assms(3)
    by (cases "md_sb (md t)"; cases "md_sb (md s)") (simp_all add: calc_dev_size_def off Let_def)
qed

text \<open>A pass over the members: if nothing fails, every healthy member is written once.\<close>

lemma write_all_ok:
  assumes "write_all ev mem js 0 (s, io) = (err, s', io')"
    and "\<And>n. mem n = (True, True)" "\<And>i. i \<in> set js \<Longrightarrow> faulty (rd s i) \<or> writable ev s i"
  shows "err = 0 \<and> rd s' = rd s \<and> all_jraid_disks s' = all_jraid_disks s \<and> md_sb (md s') = md_sb (md s) \<and>
    mdisks (md s') = mdisks (md s) \<and>
    wr_sent io' = wr_sent io @ map (\<lambda>i. (rd_dev (rd s i), sb_offset (rd s i), the (rd_sb (rd s i))))
      (filter (\<lambda>i. \<not> faulty (rd s i)) js)"
  using assms
proof (induction js arbitrary: s io)
  case (Cons i js)
  show ?case
  proof (cases "faulty (rd s i)")
    case True
    then show ?thesis using Cons by simp
  next
    case False
    obtain e s1 io1 where w: "write_disk_sb ev mem i (s, io) = (e, s1, io1)" by (metis prod_cases3)
    note eff = write_disk_sb_effect [OF w]
    have "writable ev s i" using Cons.prems(3) [of i] False by simp
    then have e: "e = 0" using eff Cons.prems(2) by simp
    have s1: "rd s1 = rd s" "md_sb (md s1) = md_sb (md s)" "mdisks (md s1) = mdisks (md s)"
      "all_jraid_disks s1 = all_jraid_disks s"
      "wr_sent io1 = wr_sent io @ [(rd_dev (rd s i), sb_offset (rd s i), the (rd_sb (rd s i)))]"
      using eff e by simp_all
    have same: "writable ev s1 k = writable ev s k" for k
      unfolding writable_def using calc_dev_sboffset_cong [of s1 s ev] calc_dev_size_cong [of s1 s ev] s1 by simp
    have "write_all ev mem js 0 (s1, io1) = (err, s', io')" using Cons.prems(1) False w e by simp
    from Cons.IH [OF this Cons.prems(2)] Cons.prems(3) s1 False show ?thesis by (auto simp: same)
  qed
qed simp

text \<open>In any case the lists, the superblock and the devices stay as they are.\<close>

lemma write_all_frame:
  "write_all ev mem js err (s, io) = (e', s', io') \<Longrightarrow>
   rd s' = rd s \<and> all_jraid_disks s' = all_jraid_disks s \<and> md_sb (md s') = md_sb (md s) \<and>
   mdisks (md s') = mdisks (md s) \<and> md_pers (md s') = md_pers (md s) \<and> md_private (md s') = md_private (md s) \<and>
   wr_pages io' \<ge> wr_pages io \<and> wr_calls io' \<ge> wr_calls io"
proof (induction js arbitrary: err s io)
  case (Cons i js)
  show ?case
  proof (cases "faulty (rd s i)")
    case False
    obtain e s1 io1 where w: "write_disk_sb ev mem i (s, io) = (e, s1, io1)" by (metis prod_cases3)
    have "write_all ev mem js (err + e) (s1, io1) = (e', s', io')" using Cons.prems False w by simp
    from Cons.IH [OF this] write_disk_sb_effect [OF w] show ?thesis by (auto split: if_splits)
  qed (use Cons in simp)
qed simp

section \<open>The loop\<close>

lemma sync_put_lists:
  "all_jraid_disks (sync_sbs ev (put_sb sb s)) = all_jraid_disks s"
  "md (sync_sbs ev (put_sb sb s)) = (md s)\<lparr>md_sb := Some sb\<rparr>"
  "rd_dev (rd (sync_sbs ev (put_sb sb s)) i) = rd_dev (rd s i)"
  "rd_bound (rd (sync_sbs ev (put_sb sb s)) i) = rd_bound (rd s i)"
  using sync_sbs_lists [of ev "put_sb sb s" i] by (simp_all add: put_sb_def)

lemma update_loop_effect:
  assumes "0 < count" "update_loop ev mem count sb (s, io) = (s', io')"
  shows "\<exists>k. 1 \<le> k \<and> k \<le> count \<and> (not_persistent sb \<noteq> 0 \<longrightarrow> k = 1 \<and> io' = io) \<and>
    md_sb (md s') = Some ((bump_events (ev_time ev) ^^ k) sb) \<and> mdisks (md s') = mdisks (md s) \<and>
    md_pers (md s') = md_pers (md s) \<and> md_private (md s') = md_private (md s) \<and>
    all_jraid_disks s' = all_jraid_disks s \<and> wr_pages io \<le> wr_pages io'"
  using assms
proof (induction count arbitrary: sb s io)
  case (Suc count)
  define sb1 where "sb1 = bump_events (ev_time ev) sb"
  define s1 where "s1 = sync_sbs ev (put_sb sb1 s)"
  have s1: "md s1 = (md s)\<lparr>md_sb := Some sb1\<rparr>" "all_jraid_disks s1 = all_jraid_disks s"
    by (simp_all add: s1_def sync_put_lists)
  have np: "not_persistent sb1 = not_persistent sb" by (simp add: sb1_def bump_events_keeps)
  show ?case
  proof (cases "not_persistent sb = 0")
    case False
    then have "s' = s1" "io' = io"
      using Suc.prems(2) by (simp_all add: Let_def sb1_def [symmetric] s1_def [symmetric] np)
    then show ?thesis using s1 by (intro exI [of _ 1]) (simp add: sb1_def)
  next
    case True
    obtain err s2 io2 where w: "write_all ev mem (mdisks (md s1)) 0 (s1, io) = (err, s2, io2)"
      by (metis prod_cases3)
    note wf = write_all_frame [OF w]
    show ?thesis
    proof (cases "err \<noteq> 0 \<and> count \<noteq> 0")
      case again: True
      then have "update_loop ev mem count sb1 (s2, io2) = (s', io')"
        using Suc.prems(2) True w by (simp add: Let_def sb1_def [symmetric] s1_def [symmetric] np)
      from Suc.IH [OF _ this] again obtain k where "1 \<le> k" "k \<le> count" "wr_pages io2 \<le> wr_pages io'"
        "md_sb (md s') = Some ((bump_events (ev_time ev) ^^ k) sb1)" "mdisks (md s') = mdisks (md s2)"
        "md_pers (md s') = md_pers (md s2)" "md_private (md s') = md_private (md s2)"
        "all_jraid_disks s' = all_jraid_disks s2" by blast
      then show ?thesis using wf s1 True
        by (intro exI [of _ "Suc k"]) (simp add: sb1_def funpow_swap1)
    next
      case False
      then have "s' = s2" "io' = io2"
        using Suc.prems(2) True w by (simp_all add: Let_def sb1_def [symmetric] s1_def [symmetric] np split: if_splits)
      then show ?thesis using wf s1 True by (intro exI [of _ 1]) (simp add: sb1_def)
    qed
  qed
qed simp

lemma bump_events_iter_keeps:
  "sb_state ((bump_events t ^^ k) sb) = sb_state sb" "sb_chunk_size ((bump_events t ^^ k) sb) = sb_chunk_size sb"
  by (induction k) (simp_all add: bump_events_keeps)

lemma bump_events_iter:
  "unat (jmd_event ((bump_events t ^^ k) sb)) = min (unat (jmd_event sb) + k) (2 ^ 64 - 1)"
proof (induction k)
  case 0
  then show ?case using u64_less [of "jmd_event sb"] by simp
next
  case (Suc k)
  then show ?case by (simp add: bump_events_count)
qed

definition placed :: "env \<Rightarrow> jmd_state \<Rightarrow> nat \<Rightarrow> bool" where
  "placed ev s i \<longleftrightarrow> sb_offset (rd s i) = calc_dev_sboffset ev s (rd_dev (rd s i)) True \<and>
     rd_size (rd s i) = calc_dev_size ev s (rd_dev (rd s i)) True"

lemma sync_rdev_places [simp]:
  "sb_offset (sync_rdev ev sb r) = sb_offset r" "rd_size (sync_rdev ev sb r) = rd_size r"
  by (simp_all add: sync_rdev_def set_this_disk_def Let_def split: option.split)

lemma sync_rdev_sb:
  assumes "\<not> faulty r"
  shows "\<exists>sb'. rd_sb (sync_rdev ev sb r) = Some sb' \<and> jmd_event sb' = jmd_event sb \<and> md_magic sb' = md_magic sb \<and>
    sb_csum sb' = calc_sb_csum ev sb' \<and> sb_disks sb' = sb_disks sb"
  using assms by (simp add: sync_rdev_def set_this_disk_def Let_def calc_sb_csum_def jmd_event_def split: option.split)

lemma update_loop_ok:
  assumes "distinct (mdisks (md s))" "md_sb (md s) = Some sb" "not_persistent sb = 0" "md_magic sb = MD_SB_MAGIC"
    and mem: "\<And>n. mem n = (True, True)"
    and placed: "\<And>i. i \<in> set (mdisks (md s)) \<Longrightarrow> faulty (rd s i) \<or> placed ev s i"
    and run: "update_loop ev mem (Suc count) sb (s, io) = (s', io')"
  shows "md_sb (md s') = Some (bump_events (ev_time ev) sb) \<and>
    wr_sent io' = wr_sent io @ map (\<lambda>i. (rd_dev (rd s i), sb_offset (rd s i), the (rd_sb (rd s' i))))
      (filter (\<lambda>i. \<not> faulty (rd s i)) (mdisks (md s))) \<and>
    (\<forall>i \<in> set (mdisks (md s)). \<not> faulty (rd s i) \<longrightarrow> (\<exists>sb'. rd_sb (rd s' i) = Some sb' \<and>
       jmd_event sb' = jmd_event (bump_events (ev_time ev) sb) \<and> sb_csum sb' = calc_sb_csum ev sb' \<and>
       sb_disks sb' = sb_disks sb))"
proof -
  define sb1 where "sb1 = bump_events (ev_time ev) sb"
  define s1 where "s1 = sync_sbs ev (put_sb sb1 s)"
  have eq: "s1 = (put_sb sb1 s)\<lparr>rd := (\<lambda>i. if i \<in> set (mdisks (md s)) then sync_rdev ev sb1 (rd s i) else rd s i)\<rparr>"
  proof -
    have put: "rd (put_sb sb1 s) = rd s" "mdisks (md (put_sb sb1 s)) = mdisks (md s)"
      "md_sb (md (put_sb sb1 s)) = Some sb1" by (simp_all add: put_sb_def)
    show ?thesis using sync_sbs_eq [of "put_sb sb1 s" sb1 ev] assms(1) unfolding s1_def put by simp
  qed
  have lists: "mdisks (md s1) = mdisks (md s)" "rd_dev (rd s1 i) = rd_dev (rd s i)" "faulty (rd s1 i) = faulty (rd s i)"
    "md_sb (md s1) = Some sb1" for i by (simp_all add: eq put_sb_def)
  have off: "calc_dev_sboffset ev s1 dv p = calc_dev_sboffset ev s dv p" for dv p
    by (rule calc_dev_sboffset_cong) (simp_all add: lists)
  have size: "calc_dev_size ev s1 dv p = calc_dev_size ev s dv p" for dv p
    by (rule calc_dev_size_cong) (simp_all add: lists assms(2) sb1_def bump_events_keeps)
  have sbi: "\<exists>sb'. rd_sb (rd s1 i) = Some sb' \<and> jmd_event sb' = jmd_event sb1 \<and> md_magic sb' = MD_SB_MAGIC \<and>
      sb_csum sb' = calc_sb_csum ev sb' \<and> sb_disks sb' = sb_disks sb"
    if "i \<in> set (mdisks (md s))" "\<not> faulty (rd s i)" for i
    using sync_rdev_sb [OF that(2), of ev sb1] that(1) assms(4) by (simp add: eq sb1_def bump_events_keeps)
  have wr: "faulty (rd s1 i) \<or> writable ev s1 i" if "i \<in> set (mdisks (md s1))" for i
    using placed [of i] sbi [of i] that unfolding writable_def placed_def
    by (auto simp: lists off size) (auto simp: eq)
  have np: "not_persistent sb1 = 0" using assms(3) by (simp add: sb1_def bump_events_keeps)
  obtain err s2 io2 where w: "write_all ev mem (mdisks (md s1)) 0 (s1, io) = (err, s2, io2)" by (metis prod_cases3)
  note ok = write_all_ok [OF w mem wr]
  have fin: "s' = s2" "io' = io2"
    using run w ok np by (simp_all add: Let_def sb1_def [symmetric] s1_def [symmetric])
  have "sb_offset (rd s1 i) = sb_offset (rd s i)" for i by (simp add: eq)
  then have "wr_sent io' = wr_sent io @ map (\<lambda>i. (rd_dev (rd s i), sb_offset (rd s i), the (rd_sb (rd s' i))))
      (filter (\<lambda>i. \<not> faulty (rd s i)) (mdisks (md s)))"
    using ok by (simp add: fin lists)
  moreover have "md_sb (md s') = Some sb1" using ok by (simp add: fin lists)
  moreover have "rd s' = rd s1" using ok by (simp add: fin)
  ultimately show ?thesis using sbi by (simp add: sb1_def) blast
qed

section \<open>Properties\<close>


text \<open>
  Whatever fails, \<open>jmd_update_sb\<close> ends after at most 100 passes, and the event counter of the
  array has then grown by the number of passes, short of running past its maximum; a
  superblock that is not persistent is never written, and one pass is made.
\<close>

lemma jmd_update_sb_counts:
  assumes "md_sb (md s) = Some sb"
  shows "\<exists>s' io' sb' k. jmd_update_sb ev mem (s, io) = Ret (s', io') \<and> md_sb (md s') = Some sb' \<and>
    1 \<le> k \<and> k \<le> 100 \<and> unat (jmd_event sb') = min (unat (jmd_event sb) + k) (2 ^ 64 - 1) \<and>
    (not_persistent sb \<noteq> 0 \<longrightarrow> k = 1 \<and> io' = io)"
proof -
  obtain s' io' where run: "update_loop ev mem 100 sb (s, io) = (s', io')" by fastforce
  have "0 < (100 :: nat)" by simp
  from update_loop_effect [OF this run] obtain k where "1 \<le> k" "k \<le> 100"
    "md_sb (md s') = Some ((bump_events (ev_time ev) ^^ k) sb)" "not_persistent sb \<noteq> 0 \<longrightarrow> k = 1 \<and> io' = io" by blast
  moreover have "jmd_update_sb ev mem (s, io) = Ret (s', io')"
    using assms run by (simp add: jmd_update_sb_def)
  ultimately show ?thesis using bump_events_iter by blast
qed

text \<open>
  Resources of \<open>write_disk_sb\<close>: once the write, if there is one, has completed, every call
  that got its memory has lost its page, and a call that did not write has lost its bio too.
\<close>

lemma write_disk_sb_leaks:
  assumes "write_disk_sb ev mem i (s, io) = (e, w)"
  shows "wr_pages (snd (if e = 0 then super_written w else w)) =
      wr_pages io + (if mem (wr_calls io) = (True, True) then 1 else 0) \<and>
    wr_bios (snd (if e = 0 then super_written w else w)) =
      wr_bios io + (if mem (wr_calls io) = (True, True) \<and> \<not> writable ev s i then 1 else 0) \<and>
    pending_writes (md (fst (if e = 0 then super_written w else w))) = pending_writes (md s)"
proof -
  obtain s' io' where w: "w = (s', io')" by fastforce
  from write_disk_sb_effect [OF assms [unfolded w]] show ?thesis
    unfolding w by (auto simp: super_written_def)
qed

section \<open>Witnesses\<close>

definition placed_example :: jmd_state where
  "placed_example = sized_example\<lparr>rd := (\<lambda>i. (rd sized_example i)\<lparr>sb_offset := 20352, rd_size := 20352\<rparr>)\<rparr>"

definition io_start :: sb_io where
  "io_start = \<lparr>wr_calls = 0, wr_bios = 0, wr_pages = 0, wr_sent = []\<rparr>"

lemma placed_example_ok:
  "distinct (mdisks (md placed_example))" "md_sb (md placed_example) = Some (sb_example 0 4)"
  "i \<in> set (mdisks (md placed_example)) \<Longrightarrow> faulty (rd placed_example i) \<or> placed ev_example placed_example i"
proof -
  have off: "calc_dev_sboffset ev_example placed_example dv p = calc_dev_sboffset ev_example sized_example dv p" for dv p
    by (rule calc_dev_sboffset_cong) (simp_all add: placed_example_def)
  have size: "calc_dev_size ev_example placed_example dv p = calc_dev_size ev_example sized_example dv p" for dv p
    by (rule calc_dev_size_cong) (simp_all add: placed_example_def)
  show "distinct (mdisks (md placed_example))" "md_sb (md placed_example) = Some (sb_example 0 4)"
    by (simp_all add: placed_example_def sized_example_sel)
  assume "i \<in> set (mdisks (md placed_example))"
  then have "i < 2" by (auto simp: placed_example_def sized_example_sel)
  have d: "\<And>i. rd_dev (rd sized_example i) = (8, 16 * of_nat i)" by (simp add: sized_example_sel asm_example_sel)
  from example_offset [OF sized_example_sel(2) d \<open>i < 2\<close>] example_size [OF sized_example_sel(2) d \<open>i < 2\<close> sized_example_sel(3)]
  show "faulty (rd placed_example i) \<or> placed ev_example placed_example i"
    by (simp add: placed_def off size) (simp add: placed_example_def sized_def sb_example_sel)
qed


end
