(* ===== verification/Jmd_Thread.thy ===== *)
theory Jmd_Thread
  imports Jmd_Types
begin

text \<open>
  Kernel threads and personalities, \<^verbatim>\<open>src/src/jmd.c\<close>: \<open>jmd_register_thread\<close>,
  \<open>jmd_interrupt_thread\<close>, \<open>jmd_unregister_thread\<close>, \<open>jmd_wakeup_thread\<close>, \<open>jmd_recover_arrays\<close>,
  \<open>jmd_done_sync\<close>, the table of personalities, and the loop \<open>jmd_thread\<close> as a step relation.

  \<open>kthreads\<close> holds the names of the tasks that run. A task waits without a timeout
  (\<open>MAX_SCHEDULE_TIMEOUT\<close>), so only a wake-up or a request to stop ends the wait.
\<close>

unbundle bit_operations_syntax

section \<open>The code\<close>

definition jmd_register_thread :: "bool \<Rightarrow> bool \<Rightarrow> string \<Rightarrow> string \<Rightarrow> jmd_state \<Rightarrow> jmd_thread option \<times> jmd_state" where
  "jmd_register_thread mem_ok task_ok run name s =
     (if \<not> mem_ok then (None, s)
      else let th = \<lparr>th_run = Some run, th_name = name, th_flags = 0\<rparr> in
        if \<not> task_ok then (None, s) else (Some th, s\<lparr>kthreads := name # kthreads s\<rparr>))"

definition jmd_interrupt_thread :: "string \<Rightarrow> jmd_state \<Rightarrow> jmd_state" where
  "jmd_interrupt_thread name s =
     (if name \<in> set (kthreads s) then s\<lparr>kthreads := remove1 name (kthreads s)\<rparr> else s)"

definition jmd_unregister_thread :: "jmd_thread \<Rightarrow> jmd_state \<Rightarrow> jmd_state" where
  "jmd_unregister_thread th s = jmd_interrupt_thread (th_name th) s"

definition jmd_recover_arrays :: "jmd_state \<Rightarrow> jmd_state" where
  "jmd_recover_arrays s =
     (case jmd_recovery_thread s of
        None \<Rightarrow> s
      | Some th \<Rightarrow> s\<lparr>jmd_recovery_thread := Some (jmd_wakeup_thread th)\<rparr>)"

text \<open>A failed synchronisation wakes \<open>jmddev->thread\<close>, a null pointer unless somebody set it.\<close>

definition jmd_done_sync :: "int \<Rightarrow> bool \<Rightarrow> jmd_state \<Rightarrow> jmd_state outcome" where
  "jmd_done_sync blocks ok s =
     (let s1 = upd_md (\<lambda>d. d\<lparr>recovery_active := recovery_active d - blocks\<rparr>) s in
      if ok then Ret s1
      else case md_thread (md s) of
        None \<Rightarrow> Bug
      | Some th \<Rightarrow> Ret (upd_md (\<lambda>d. d\<lparr>recovery := set_bit MD_RECOVERY_ERR (recovery d),
            md_thread := Some (jmd_wakeup_thread th)\<rparr>) s1))"

text \<open>\<open>pnum\<close> is an \<open>int\<close> compared with an \<open>unsigned long\<close>: a negative one is too large.\<close>

definition pers_index :: "cint \<Rightarrow> nat option" where
  "pers_index pnum = (if of_nat MAX_PERSONALITY \<le> (scast pnum :: u64) then None else Some (unat pnum))"

definition register_jmd_personality :: "cint \<Rightarrow> string \<Rightarrow> jmd_state \<Rightarrow> errno option \<times> jmd_state" where
  "register_jmd_personality pnum name s =
     (case pers_index pnum of
        None \<Rightarrow> (Some EINVAL, s)
      | Some k \<Rightarrow>
          if pers_table s k \<noteq> None then (Some EBUSY, s)
          else (None, s\<lparr>pers_table := (pers_table s)(k \<mapsto> name)\<rparr>))"

definition unregister_jmd_personality :: "cint \<Rightarrow> jmd_state \<Rightarrow> (errno option \<times> jmd_state) outcome" where
  "unregister_jmd_personality pnum s =
     (case pers_index pnum of
        None \<Rightarrow> Ret (Some EINVAL, s)
      | Some k \<Rightarrow>
          (case pers_table s k of
             None \<Rightarrow> Bug
           | Some _ \<Rightarrow> Ret (None, s\<lparr>pers_table := (pers_table s)(k := None)\<rparr>)))"

section \<open>The loop of a thread\<close>

text \<open>
  The points of \<open>jmd_thread\<close>: before the test of the loop, asleep, after the wake-up, after
  \<open>clear_bit\<close>, in \<open>run\<close>, and returned. \<open>wakes\<close> and \<open>runs\<close> count the calls of
  \<open>jmd_wakeup_thread\<close> and the starts of \<open>run\<close>; \<open>owed\<close> says that a wake-up came after the last
  start of \<open>run\<close>.
\<close>

datatype thread_pc = Top | Asleep | Woken | Cleared | Running | Returned

record thread_task =
  t_pc :: thread_pc
  t_flag :: bool
  t_stop :: bool
  t_wakes :: nat
  t_runs :: nat
  t_owed :: bool

definition task_start :: thread_task where
  "task_start = \<lparr>t_pc = Top, t_flag = False, t_stop = False, t_wakes = 0, t_runs = 0, t_owed = False\<rparr>"

inductive thread_step :: "thread_task \<Rightarrow> thread_task \<Rightarrow> bool" where
  wake: "thread_step t (t\<lparr>t_flag := True, t_wakes := t_wakes t + 1, t_owed := True\<rparr>)"
| stop: "thread_step t (t\<lparr>t_stop := True\<rparr>)"
| loop: "t_pc t = Top \<Longrightarrow> \<not> t_stop t \<Longrightarrow> thread_step t (t\<lparr>t_pc := Asleep\<rparr>)"
| exit: "t_pc t = Top \<Longrightarrow> t_stop t \<Longrightarrow> thread_step t (t\<lparr>t_pc := Returned\<rparr>)"
| resume: "t_pc t = Asleep \<Longrightarrow> t_flag t \<or> t_stop t \<Longrightarrow> thread_step t (t\<lparr>t_pc := Woken\<rparr>)"
| clear: "t_pc t = Woken \<Longrightarrow> thread_step t (t\<lparr>t_pc := Cleared, t_flag := False\<rparr>)"
| run: "t_pc t = Cleared \<Longrightarrow> \<not> t_stop t \<Longrightarrow>
    thread_step t (t\<lparr>t_pc := Running, t_runs := t_runs t + 1, t_owed := False\<rparr>)"
| skip: "t_pc t = Cleared \<Longrightarrow> t_stop t \<Longrightarrow> thread_step t (t\<lparr>t_pc := Top\<rparr>)"
| finish: "t_pc t = Running \<Longrightarrow> thread_step t (t\<lparr>t_pc := Top\<rparr>)"

inductive_cases thread_stepE: "thread_step t u"

inductive thread_reach :: "thread_task \<Rightarrow> bool" where
  start: "thread_reach task_start"
| step: "thread_reach t \<Longrightarrow> thread_step t u \<Longrightarrow> thread_reach u"

text \<open>A wake-up is remembered in the flag until the code is on its way to \<open>run\<close>.\<close>

definition task_inv :: "thread_task \<Rightarrow> bool" where
  "task_inv t \<longleftrightarrow>
     (t_owed t \<longrightarrow> t_flag t \<or> t_pc t = Cleared \<or> t_stop t) \<and>
     (t_pc t = Woken \<longrightarrow> t_flag t \<or> t_stop t) \<and>
     (t_stop t \<or> t_runs t + (if t_flag t then 1 else 0) + (if t_pc t = Cleared then 1 else 0) \<le> t_wakes t) \<and>
     (t_pc t = Returned \<longrightarrow> t_stop t)"

lemma task_inv_step: "thread_step t u \<Longrightarrow> task_inv t \<Longrightarrow> task_inv u"
  by (erule thread_stepE; cases "t_stop t"; cases "t_flag t"; cases "t_pc t"; simp add: task_inv_def)

lemma reach_task_inv: "thread_reach t \<Longrightarrow> task_inv t"
proof (induction rule: thread_reach.induct)
  case start
  show ?case by (simp add: task_start_def task_inv_def)
qed (rule task_inv_step)

section \<open>Properties\<close>



lemma pers_index_nonneg: "pers_index pnum = Some k \<Longrightarrow> k < MAX_PERSONALITY \<and> k = unat pnum"
proof -
  assume a: "pers_index pnum = Some k"
  then have lt: "(scast pnum :: u64) < 7" and k: "k = unat pnum"
    by (auto simp: pers_index_def MAX_PERSONALITY_def not_le split: if_splits)
  have "pnum = ucast (scast pnum :: u64)" by (rule bit_eqI) (auto simp: bit_simps dest: bit_imp_le_length)
  then have "unat pnum = unat (ucast (scast pnum :: u64) :: cint)" by simp
  moreover have "unat (ucast (scast pnum :: u64) :: cint) = unat (scast pnum :: u64)"
    by (rule unat_ucast_small) (use lt in \<open>simp add: word_less_nat_alt\<close>)
  ultimately show ?thesis using lt k by (simp add: word_less_nat_alt MAX_PERSONALITY_def)
qed

text \<open>
  Registering a personality: a number out of range (a negative one included) is refused, a
  slot in use is kept, otherwise the slot and no other is filled; unregistering it then restores
  the table, and unregistering an empty slot dereferences a null pointer.
\<close>

lemma register_personality_correct:
  shows "(let (e, s') = register_jmd_personality pnum name s in
     if e = None then pers_table s (unat pnum) = None \<and> unat pnum < MAX_PERSONALITY \<and>
       s' = s\<lparr>pers_table := (pers_table s)(unat pnum \<mapsto> name)\<rparr> \<and>
       unregister_jmd_personality pnum s' = Ret (None, s)
     else s' = s \<and> (e = Some EINVAL \<longleftrightarrow> pers_index pnum = None) \<and>
       (e = Some EBUSY \<longleftrightarrow> pers_index pnum \<noteq> None \<and> pers_table s (unat pnum) \<noteq> None)) \<and>
   (pers_index pnum \<noteq> None \<and> pers_table s (unat pnum) = None \<longrightarrow> unregister_jmd_personality pnum s = Bug)"
proof (cases "pers_index pnum")
  case None
  then show ?thesis by (simp add: register_jmd_personality_def)
next
  case (Some k)
  then have k: "k < MAX_PERSONALITY" "k = unat pnum" using pers_index_nonneg by blast+
  have "s\<lparr>pers_table := pers_table s\<rparr> = s" by simp
  then show ?thesis using Some k
    by (cases "pers_table s k")
       (simp_all add: register_jmd_personality_def unregister_jmd_personality_def fun_upd_idem)
qed

section \<open>Errors of a member\<close>

text \<open>
  \<open>jmd_error\<close> tests and uses a local pointer to an array that it never sets; \<open>there\<close> says whether what it
  holds is not null, and \<open>po\<close> is what the array it points to has as personality, with the two hooks the
  function calls. RAID-5 has neither.
\<close>

record pers_hooks =
  ph_stop_resync :: "(jmd_state \<Rightarrow> jmd_state) option"
  ph_error_handler :: "(jmd_state \<Rightarrow> cint \<times> jmd_state) option"

definition jraid5_hooks :: pers_hooks where
  "jraid5_hooks = \<lparr>ph_stop_resync = None, ph_error_handler = None\<rparr>"

definition jmd_error :: "bool \<Rightarrow> pers_hooks option \<Rightarrow> bool \<Rightarrow> jmd_state \<Rightarrow> (cint \<times> jmd_state) outcome" where
  "jmd_error there po recovery_running s =
     (if \<not> there then Ret (0, s)
      else case po of
        None \<Rightarrow> Bug
      | Some p \<Rightarrow>
          let s1 = (case ph_stop_resync p of None \<Rightarrow> s | Some f \<Rightarrow> f s) in
          if recovery_running \<and> jmd_recovery_thread s1 = None then Bug
          else
            let s2 = (if recovery_running then jmd_interrupt_thread (th_name (the (jmd_recovery_thread s1))) s1 else s1)
            in case ph_error_handler p of
                 None \<Rightarrow> Ret (0, s2)
               | Some h \<Rightarrow> let (rc, s3) = h s2 in Ret (rc, jmd_recover_arrays s3))"

text \<open>An error of a RAID-5 member leaves no trace in the array: no member ever becomes faulty by it.\<close>

lemma jraid5_error_ignored:
  assumes "jmd_error there (Some jraid5_hooks) recovery_running s = Ret (rc, s')"
  shows "rc = 0 \<and> rd s' = rd s \<and> md s' = md s"
  using assms
  by (auto simp: jmd_error_def jraid5_hooks_def Let_def jmd_interrupt_thread_def split: if_splits)

end
