(* ===== verification/Raid5_Run.thy ===== *)
theory Raid5_Run
  imports Jmd_Thread Jmd_Analyze Stripe_Alloc
begin

text \<open>
  Starting and stopping a RAID-5 array, \<^verbatim>\<open>src/src/jraid5.c\<close>: \<open>jraid5_run\<close>, in the parts it
  falls into, and \<open>jraid5_exit\<close>.

  Whether the allocations and the starts of threads succeed is the record \<open>run_env\<close>; pages and
  slab objects are those of \<open>mem_ops\<close>. A configuration that is freed is dropped from the state,
  with whatever it still pointed to. An index outside \<open>sb->disks\<close> or \<open>conf->disks\<close> is \<open>Bug\<close>.
\<close>

unbundle bit_operations_syntax

section \<open>The code\<close>

record run_env =
  re_conf :: bool
  re_hash :: bool
  re_thread :: "bool \<times> bool"
  re_resync :: "bool \<times> bool"

definition set_slot :: "nat \<Rightarrow> (disk_info \<Rightarrow> disk_info) \<Rightarrow> jraid5_conf \<Rightarrow> jraid5_conf" where
  "set_slot k f conf = conf\<lparr>disks := (disks conf)[k := f (disks conf ! k)]\<rparr>"

text \<open>The first pass: every member is marked active and in sync and given its slot.\<close>

primrec run_members :: "jmd_state \<Rightarrow> nat list \<Rightarrow> jmd_superblock \<Rightarrow> jraid5_conf \<Rightarrow>
    (bool \<times> jmd_superblock \<times> jraid5_conf) outcome" where
  "run_members s [] sb conf = Ret (True, sb, conf)"
| "run_members s (i # js) sb conf =
     (let n = unat (desc_nr (rd s i)) in
      if MD_SB_DISKS \<le> n then Bug
      else
        let d = mark_disk_sync (mark_disk_active (sb_disks sb ! n));
            sb1 = sb\<lparr>sb_disks := (sb_disks sb)[n := d]\<rparr>;
            k = unat (dk_raid_disk d)
        in if disk_active d then
             if \<not> disk_sync d then Ret (False, sb1, conf)
             else if dk_raid_disk d > sb_raid_disks sb1 then run_members s js sb1 conf
             else if MD_SB_DISKS \<le> k then Bug
             else if operational (disks conf ! k) then run_members s js sb1 conf
             else run_members s js sb1
               ((set_slot k (\<lambda>p. p\<lparr>di_number := dk_number d, di_raid_disk := dk_raid_disk d,
                    di_dev := rd_dev (rd s i), operational := True, used_slot := True, di_jrdev := Some i\<rparr>) conf)
                  \<lparr>working_disks := working_disks conf + 1\<rparr>)
           else if MD_SB_DISKS \<le> k then Bug
           else run_members s js sb1
             (set_slot k (\<lambda>p. p\<lparr>di_number := dk_number d, di_raid_disk := dk_raid_disk d,
                di_dev := rd_dev (rd s i), operational := False, write_only := False, spare := True,
                used_slot := True, di_jrdev := Some i\<rparr>) conf))"

text \<open>The second pass: slots of descriptors that are faulty.\<close>

primrec run_faulty :: "jmd_superblock \<Rightarrow> jmd_disk list \<Rightarrow> jraid5_conf \<Rightarrow> jraid5_conf outcome" where
  "run_faulty sb [] conf = Ret conf"
| "run_faulty sb (d # ds) conf =
     (let k = unat (dk_raid_disk d) in
      if disk_faulty d \<and> dk_raid_disk d < sb_raid_disks sb then
        if MD_SB_DISKS \<le> k then Bug
        else if \<not> used_slot (disks conf ! k) then
          run_faulty sb ds (set_slot k (\<lambda>p. p\<lparr>di_number := dk_number d, di_raid_disk := dk_raid_disk d,
             di_dev := (0, 0), operational := False, write_only := False, spare := False,
             used_slot := True\<rparr>) conf)
        else run_faulty sb ds conf
      else run_faulty sb ds conf)"

definition run_params :: "jmd_superblock \<Rightarrow> jraid5_conf \<Rightarrow> jraid5_conf" where
  "run_params sb conf = conf\<lparr>raid_disks := sb_raid_disks sb,
     failed_disks := sb_raid_disks sb - working_disks conf, chunk_size := sb_chunk_size sb,
     level := sb_level sb, algorithm := layout sb, max_nr_stripes := of_nat NR_STRIPES\<rparr>"

text \<open>The checks; the comparisons of \<open>algorithm\<close> and \<open>failed_disks\<close> are signed.\<close>

definition run_checks :: "jraid5_conf \<Rightarrow> bool" where
  "run_checks conf \<longleftrightarrow> chunk_size conf \<noteq> 0 \<and> chunk_size conf mod 4 = 0 \<and>
     \<not> sint ALGORITHM_RIGHT_SYMMETRIC < sint (algorithm conf) \<and> \<not> 1 < sint (failed_disks conf)"

text \<open>The descriptors of operational slots are marked in sync, all others are not.\<close>

definition run_sync_disk :: "jraid5_conf \<Rightarrow> nat \<Rightarrow> jmd_disk \<Rightarrow> jmd_disk" where
  "run_sync_disk conf n d =
     (if list_ex (\<lambda>p. operational p \<and> dk_number d = di_number p) (take n (disks conf))
      then mark_disk_sync (mark_disk_nonsync d) else mark_disk_nonsync d)"

definition run_sync :: "jraid5_conf \<Rightarrow> jmd_superblock \<Rightarrow> jmd_superblock outcome" where
  "run_sync conf sb =
     (if MD_SB_DISKS < unat (sb_raid_disks sb) then Bug
      else Ret (sb\<lparr>sb_disks := map (run_sync_disk conf (unat (sb_raid_disks sb))) (sb_disks sb),
                  active_disks := working_disks conf\<rparr>))"

definition run_abort :: "jmd_state \<Rightarrow> jmd_state" where
  "run_abort s = upd_md (\<lambda>d. d\<lparr>md_private := None\<rparr>) s"

text \<open>
  The end: the descriptors are marked, and unless a recovery is to start the superblock is not
  clean and the thread for the resynchronisation is made; then the threads are woken.
\<close>

definition run_finish :: "run_env \<Rightarrow> bool \<Rightarrow> jmd_superblock \<Rightarrow> jraid5_conf \<Rightarrow> jmd_thread \<Rightarrow> jmd_state \<Rightarrow>
    (bool \<times> jmd_state) outcome" where
  "run_finish re start_recovery sb conf th s =
     bind_outcome (run_sync conf sb) (\<lambda>sb2.
       let store = (\<lambda>c s. put_sb sb2 (upd_md (\<lambda>d. d\<lparr>md_private :=
             Some (c\<lparr>thread := Some (jmd_wakeup_thread th)\<rparr>)\<rparr>) s))
       in if \<not> start_recovery \<and> \<not> bit (sb_state sb2) MD_SB_CLEAN then
            case jmd_register_thread (fst (re_resync re)) (snd (re_resync re)) ''jraid5syncd'' ''jraid5syncd'' s of
              (None, s2) \<Rightarrow> Ret (False, run_abort (put_sb sb2 s2))
            | (Some rth, s2) \<Rightarrow>
                Ret (True, store (conf\<lparr>resync_thread := Some (jmd_wakeup_thread rth), resync_parity := 1\<rparr>) s2)
          else if start_recovery then Ret (True, jmd_recover_arrays (store conf s))
          else Ret (True, store conf s))"

text \<open>An array without missing members is marked not clean before anything is started.\<close>

definition clear_clean :: "jmd_superblock \<Rightarrow> jraid5_conf \<Rightarrow> jmd_superblock" where
  "clear_clean sb conf = (if working_disks conf = sb_raid_disks sb \<and> bit (sb_state sb) MD_SB_CLEAN
     then sb\<lparr>sb_state := unset_bit MD_SB_CLEAN (sb_state sb)\<rparr> else sb)"

definition run_start :: "run_env \<Rightarrow> 'm mem_ops \<Rightarrow> jmd_superblock \<Rightarrow> jraid5_conf \<Rightarrow> jmd_state \<Rightarrow> 'm \<Rightarrow>
    (bool \<times> jmd_state \<times> 'm) outcome" where
  "run_start re ops sb conf s m =
     (let sb1 = clear_clean sb conf in
      case jmd_register_thread (fst (re_thread re)) (snd (re_thread re)) ''jraid5d'' ''jraid5d'' s of
        (None, s1) \<Rightarrow> Ret (False, run_abort (put_sb sb1 s1), m)
      | (Some th, s1) \<Rightarrow>
          bind_outcome (grow_stripes ops NR_STRIPES (conf\<lparr>thread := Some th\<rparr>) m) (\<lambda>(failed, conf1, m1).
            if failed then
              bind_outcome (shrink_stripes ops NR_STRIPES conf1 m1) (\<lambda>(conf2, m2).
                Ret (False, run_abort (put_sb sb1 s1), m2))
            else
              bind_outcome (run_finish re (working_disks conf \<noteq> sb_raid_disks sb) sb1 conf1 th s1)
                (\<lambda>(b, s2). Ret (b, s2, m1))))"

text \<open>\<open>True\<close> is the result 0, \<open>False\<close> is \<open>-EIO\<close>.\<close>

definition jraid5_run :: "run_env \<Rightarrow> 'm mem_ops \<Rightarrow> jmd_state \<Rightarrow> 'm \<Rightarrow> (bool \<times> jmd_state \<times> 'm) outcome" where
  "jraid5_run re ops s m =
     (case md_sb (md s) of
        None \<Rightarrow> Bug
      | Some sb \<Rightarrow>
          if sb_level sb \<noteq> 5 \<and> sb_level sb \<noteq> 4 then Ret (False, s, m)
          else if \<not> re_conf re \<or> \<not> re_hash re then Ret (False, run_abort s, m)
          else
            let conf0 = zero_conf\<lparr>jraid_disks := nb_dev (md s), buffer_size := of_nat PAGE_SIZE\<rparr> in
            (case run_members s (mdisks (md s)) sb conf0 of
               Bug \<Rightarrow> Bug
             | Hang \<Rightarrow> Hang
             | Ret (False, sb1, conf1) \<Rightarrow> Ret (False, run_abort (put_sb sb1 s), m)
             | Ret (True, sb1, conf1) \<Rightarrow>
                 bind_outcome (run_faulty sb1 (take MD_SB_DISKS (sb_disks sb1)) conf1) (\<lambda>conf2.
                   let conf3 = run_params sb1 conf2 in
                   if \<not> run_checks conf3 then Ret (False, run_abort (put_sb sb1 s), m)
                   else run_start re ops sb1 conf3 s m)))"

definition jraid5_init :: "jmd_state \<Rightarrow> errno option \<times> jmd_state" where
  "jraid5_init s = register_jmd_personality (of_nat RAID5) ''jraid5'' s"

text \<open>\<open>jraid5_exit\<close> stops both threads, frees the stripes and the configuration.\<close>

definition stop_thread :: "jmd_thread option \<Rightarrow> jmd_state \<Rightarrow> jmd_state" where
  "stop_thread th s = (case th of None \<Rightarrow> s | Some t \<Rightarrow> jmd_unregister_thread t s)"

definition jraid5_exit :: "'m mem_ops \<Rightarrow> jmd_state \<Rightarrow> 'm \<Rightarrow> (jmd_state \<times> 'm) outcome" where
  "jraid5_exit ops s m =
     bind_outcome
       (case md_private (md s) of
          None \<Rightarrow> Ret (s, m)
        | Some conf \<Rightarrow>
            let s1 = stop_thread (thread conf) (stop_thread (resync_thread conf) s) in
            bind_outcome (shrink_stripes ops (unat (max_nr_stripes conf)) conf m) (\<lambda>(_, m1). Ret (s1, m1)))
       (\<lambda>(s1, m1). bind_outcome (unregister_jmd_personality (of_nat RAID5) s1) (\<lambda>(_, s2). Ret (s2, m1)))"

section \<open>What the passes keep\<close>

lemma set_slot_simps [simp]:
  "working_disks (set_slot k f conf) = working_disks conf"
  "disks (set_slot k f conf) = (disks conf)[k := f (disks conf ! k)]"
  by (simp_all add: set_slot_def)

definition only_disks :: "jraid5_conf \<Rightarrow> jraid5_conf \<Rightarrow> bool" where
  "only_disks conf conf' \<longleftrightarrow>
     (\<exists>ds w. conf' = conf\<lparr>disks := ds, working_disks := w\<rparr> \<and> length ds = length (disks conf))"

lemma only_disks_refl: "only_disks conf conf"
  unfolding only_disks_def by (rule exI [of _ "disks conf"], rule exI [of _ "working_disks conf"]) simp

lemma only_disks_trans: "only_disks a b \<Longrightarrow> only_disks b c \<Longrightarrow> only_disks a c"
proof -
  assume "only_disks a b" "only_disks b c"
  then obtain ds w ds' w' where b: "b = a\<lparr>disks := ds, working_disks := w\<rparr>" "length ds = length (disks a)"
    and c: "c = b\<lparr>disks := ds', working_disks := w'\<rparr>" "length ds' = length (disks b)"
    unfolding only_disks_def by blast
  show ?thesis unfolding only_disks_def
    by (rule exI [of _ ds'], rule exI [of _ w']) (simp add: b c)
qed

lemma only_disks_slot: "only_disks conf (set_slot k f conf)"
  unfolding only_disks_def set_slot_def
  by (rule exI [of _ "(disks conf)[k := f (disks conf ! k)]"], rule exI [of _ "working_disks conf"]) simp

lemma only_disks_slot_work: "only_disks conf ((set_slot k f conf)\<lparr>working_disks := w\<rparr>)"
  unfolding only_disks_def set_slot_def
  by (rule exI [of _ "(disks conf)[k := f (disks conf ! k)]"], rule exI [of _ w]) simp

text \<open>The superblock a pass leaves differs in the states of descriptors only.\<close>

definition same_numbers :: "jmd_superblock \<Rightarrow> jmd_superblock \<Rightarrow> bool" where
  "same_numbers sb sb' \<longleftrightarrow> (\<exists>ds. sb' = sb\<lparr>sb_disks := ds\<rparr> \<and>
     map (\<lambda>d. d\<lparr>dk_state := 0\<rparr>) ds = map (\<lambda>d. d\<lparr>dk_state := 0\<rparr>) (sb_disks sb))"

lemma same_numbers_refl: "same_numbers sb sb"
  unfolding same_numbers_def by (rule exI [of _ "sb_disks sb"]) simp

lemma same_numbers_trans: "same_numbers a b \<Longrightarrow> same_numbers b c \<Longrightarrow> same_numbers a c"
  by (auto simp: same_numbers_def)

definition mark_member :: "jmd_disk \<Rightarrow> jmd_disk" where
  "mark_member d = mark_disk_sync (mark_disk_active d)"

lemma mark_member_simps [simp]:
  "disk_active (mark_member d)" "disk_sync (mark_member d)" "dk_raid_disk (mark_member d) = dk_raid_disk d"
  "dk_number (mark_member d) = dk_number d" "dk_dev (mark_member d) = dk_dev d"
  "disk_faulty (mark_member d) = disk_faulty d"
  by (auto simp: mark_member_def mark_disk_sync_def mark_disk_active_def disk_active_def disk_sync_def
      disk_bits bit_set_bit_iff dk_dev_def disk_faulty_def)

lemma same_numbers_mark:
  assumes "n < length (sb_disks sb)"
  shows "same_numbers sb (sb\<lparr>sb_disks := (sb_disks sb)[n := mark_member (sb_disks sb ! n)]\<rparr>)"
proof -
  have "mark_member d\<lparr>dk_state := 0\<rparr> = d\<lparr>dk_state := 0\<rparr>" for d
    by (simp add: mark_member_def mark_disk_sync_def mark_disk_active_def)
  then have "map (\<lambda>d. d\<lparr>dk_state := 0\<rparr>) ((sb_disks sb)[n := mark_member (sb_disks sb ! n)]) =
      map (\<lambda>d. d\<lparr>dk_state := 0\<rparr>) (sb_disks sb)"
    using assms by (intro nth_equalityI) (simp_all add: nth_list_update)
  then show ?thesis unfolding same_numbers_def by blast
qed

text \<open>One round of the first pass, the dead branches left out.\<close>

definition take_slot :: "jmd_state \<Rightarrow> nat \<Rightarrow> jmd_disk \<Rightarrow> jraid5_conf \<Rightarrow> jraid5_conf" where
  "take_slot s i d conf = (set_slot (unat (dk_raid_disk d)) (\<lambda>p. p\<lparr>di_number := dk_number d,
     di_raid_disk := dk_raid_disk d, di_dev := rd_dev (rd s i), operational := True, used_slot := True,
     di_jrdev := Some i\<rparr>) conf)\<lparr>working_disks := working_disks conf + 1\<rparr>"

lemma run_members_step:
  "run_members s (i # js) sb conf =
     (let n = unat (desc_nr (rd s i)); d = sb_disks sb ! n; k = unat (dk_raid_disk d);
          sb1 = sb\<lparr>sb_disks := (sb_disks sb)[n := mark_member d]\<rparr> in
      if MD_SB_DISKS \<le> n then Bug
      else if dk_raid_disk d > sb_raid_disks sb then run_members s js sb1 conf
      else if MD_SB_DISKS \<le> k then Bug
      else if operational (disks conf ! k) then run_members s js sb1 conf
      else run_members s js sb1 (take_slot s i d conf))"
  by (simp add: Let_def mark_member_def [symmetric] take_slot_def)

declare run_members.simps(2) [simp del]

lemma run_members_frame:
  assumes "run_members s js sb conf = Ret (b, sb', conf')" "length (sb_disks sb) = MD_SB_DISKS"
  shows "b \<and> only_disks conf conf' \<and> same_numbers sb sb'"
  using assms
proof (induction js arbitrary: sb conf)
  case Nil
  then show ?case by (simp add: only_disks_refl same_numbers_refl)
next
  case (Cons i js)
  define n where "n = unat (desc_nr (rd s i))"
  define sb1 where "sb1 = sb\<lparr>sb_disks := (sb_disks sb)[n := mark_member (sb_disks sb ! n)]\<rparr>"
  have n: "n < length (sb_disks sb)"
    using Cons.prems by (auto simp: run_members_step n_def [symmetric] Let_def split: if_splits)
  have sb1: "same_numbers sb sb1" using same_numbers_mark [OF n] by (simp add: sb1_def)
  have len: "length (sb_disks sb1) = MD_SB_DISKS" using Cons.prems(2) by (simp add: sb1_def)
  from Cons.prems consider "run_members s js sb1 conf = Ret (b, sb', conf')"
    | "run_members s js sb1 (take_slot s i (sb_disks sb ! n) conf) = Ret (b, sb', conf')"
    by (auto simp: run_members_step n_def [symmetric] sb1_def [symmetric] Let_def split: if_splits)
  then show ?case
  proof cases
    case 1
    show ?thesis using Cons.IH [OF 1 len] same_numbers_trans [OF sb1] by blast
  next
    case 2
    have "only_disks conf (take_slot s i (sb_disks sb ! n) conf)"
      by (simp add: take_slot_def only_disks_slot_work)
    then show ?thesis using Cons.IH [OF 2 len] same_numbers_trans [OF sb1] only_disks_trans by blast
  qed
qed

lemma run_faulty_frame:
  "run_faulty sb ds conf = Ret conf' \<Longrightarrow> only_disks conf conf' \<and> working_disks conf' = working_disks conf"
proof (induction ds arbitrary: conf)
  case Nil
  then show ?case by (simp add: only_disks_refl)
next
  case (Cons d ds)
  then show ?case
    by (auto simp: Let_def split: if_splits dest!: Cons.IH intro: only_disks_trans [OF only_disks_slot])
qed

section \<open>Which slots are operational\<close>

definition member_desc :: "jmd_state \<Rightarrow> jmd_superblock \<Rightarrow> nat \<Rightarrow> jmd_disk" where
  "member_desc s sb i = sb_disks sb ! unat (desc_nr (rd s i))"

definition slot_holds :: "jmd_state \<Rightarrow> jmd_superblock \<Rightarrow> nat set \<Rightarrow> nat \<Rightarrow> disk_info \<Rightarrow> bool" where
  "slot_holds s sb M k p \<longleftrightarrow> (\<exists>i \<in> M. di_jrdev p = Some i \<and> di_dev p = rd_dev (rd s i) \<and>
     di_number p = dk_number (member_desc s sb i) \<and> unat (dk_raid_disk (member_desc s sb i)) = k \<and>
     k \<le> unat (sb_raid_disks sb) \<and> used_slot p)"

definition run_slots :: "jmd_state \<Rightarrow> jmd_superblock \<Rightarrow> nat set \<Rightarrow> jraid5_conf \<Rightarrow> bool" where
  "run_slots s sb M conf \<longleftrightarrow> length (disks conf) = MD_SB_DISKS \<and>
     working_disks conf = of_nat (length (filter operational (disks conf))) \<and>
     (\<forall>k < MD_SB_DISKS. operational (disks conf ! k) \<longrightarrow> slot_holds s sb M k (disks conf ! k))"

lemma same_numbersD:
  assumes "same_numbers sb sb'"
  shows "length (sb_disks sb') = length (sb_disks sb)" "sb_raid_disks sb' = sb_raid_disks sb"
    "sb_chunk_size sb' = sb_chunk_size sb" "layout sb' = layout sb" "sb_level sb' = sb_level sb"
    "sb_state sb' = sb_state sb" "not_persistent sb' = not_persistent sb" "sb_size sb' = sb_size sb"
    "md_magic sb' = md_magic sb" "jmd_event sb' = jmd_event sb"
    "n < length (sb_disks sb) \<Longrightarrow> dk_raid_disk (sb_disks sb' ! n) = dk_raid_disk (sb_disks sb ! n) \<and>
       dk_number (sb_disks sb' ! n) = dk_number (sb_disks sb ! n) \<and> dk_dev (sb_disks sb' ! n) = dk_dev (sb_disks sb ! n)"
proof -
  obtain ds where ds: "sb' = sb\<lparr>sb_disks := ds\<rparr>"
    "map (\<lambda>d. d\<lparr>dk_state := 0\<rparr>) ds = map (\<lambda>d. d\<lparr>dk_state := 0\<rparr>) (sb_disks sb)"
    using assms unfolding same_numbers_def by blast
  show "length (sb_disks sb') = length (sb_disks sb)" "sb_raid_disks sb' = sb_raid_disks sb"
    "sb_chunk_size sb' = sb_chunk_size sb" "layout sb' = layout sb" "sb_level sb' = sb_level sb"
    "sb_state sb' = sb_state sb" "not_persistent sb' = not_persistent sb" "sb_size sb' = sb_size sb"
    "md_magic sb' = md_magic sb" "jmd_event sb' = jmd_event sb"
    using ds(1) map_eq_imp_length_eq [OF ds(2)] by (simp_all add: jmd_event_def)
  assume n: "n < length (sb_disks sb)"
  then have "(\<lambda>d. d\<lparr>dk_state := 0\<rparr>) (ds ! n) = (\<lambda>d. d\<lparr>dk_state := 0\<rparr>) (sb_disks sb ! n)"
    using ds(2) map_eq_imp_length_eq [OF ds(2)] by (metis nth_map)
  then have z: "(ds ! n)\<lparr>dk_state := 0\<rparr> = (sb_disks sb ! n)\<lparr>dk_state := 0\<rparr>" by simp
  from arg_cong [OF z, of dk_raid_disk] arg_cong [OF z, of dk_number] arg_cong [OF z, of dk_dev] ds(1)
  show "dk_raid_disk (sb_disks sb' ! n) = dk_raid_disk (sb_disks sb ! n) \<and>
       dk_number (sb_disks sb' ! n) = dk_number (sb_disks sb ! n) \<and> dk_dev (sb_disks sb' ! n) = dk_dev (sb_disks sb ! n)"
    by (simp add: dk_dev_def)
qed

lemma count_new_slot:
  assumes "k < length ps" "\<not> P (ps ! k)" "P q"
  shows "length (filter P (ps[k := q])) = length (filter P ps) + 1"
proof -
  have "ps = take k ps @ ps ! k # drop (Suc k) ps" using assms(1) by (rule id_take_nth_drop)
  then have "length (filter P ps) = length (filter P (take k ps)) + length (filter P (drop (Suc k) ps))"
    using assms(2) by (metis filter.simps(2) filter_append length_append)
  then show ?thesis using assms by (simp add: upd_conv_take_nth_drop)
qed

lemma run_slots_take:
  assumes "run_slots s sb M conf" "unat (dk_raid_disk (member_desc s sb i)) = k" "k < MD_SB_DISKS"
    "k \<le> unat (sb_raid_disks sb)" "\<not> operational (disks conf ! k)"
  shows "run_slots s sb (insert i M) (take_slot s i (member_desc s sb i) conf)"
proof -
  define q where "q = (disks conf ! k)\<lparr>di_number := dk_number (member_desc s sb i),
     di_raid_disk := dk_raid_disk (member_desc s sb i), di_dev := rd_dev (rd s i), operational := True,
     used_slot := True, di_jrdev := Some i\<rparr>"
  have t: "disks (take_slot s i (member_desc s sb i) conf) = (disks conf)[k := q]"
    "working_disks (take_slot s i (member_desc s sb i) conf) = working_disks conf + 1"
    by (simp_all add: take_slot_def assms(2) q_def)
  have len: "length (disks conf) = MD_SB_DISKS" using assms(1) by (simp add: run_slots_def)
  have cnt: "length (filter operational ((disks conf)[k := q])) = length (filter operational (disks conf)) + 1"
    by (rule count_new_slot) (use assms(3,5) len in \<open>simp_all add: q_def\<close>)
  have q: "slot_holds s sb (insert i M) k q" using assms(2,4) by (simp add: slot_holds_def q_def)
  have mono: "slot_holds s sb M j p \<Longrightarrow> slot_holds s sb (insert i M) j p" for j p
    by (auto simp: slot_holds_def)
  show ?thesis unfolding run_slots_def t cnt
    using assms(1,3) len q mono by (auto simp: run_slots_def nth_list_update)
qed

lemma run_slots_cong:
  assumes "same_numbers sb sb'" "\<And>i. i \<in> M \<Longrightarrow> unat (desc_nr (rd s i)) < length (sb_disks sb)"
  shows "run_slots s sb' M conf = run_slots s sb M conf"
proof -
  have "slot_holds s sb' M k p = slot_holds s sb M k p" for k p
    using same_numbersD(2,11) [OF assms(1)] assms(2) by (auto simp: slot_holds_def member_desc_def)
  then show ?thesis by (simp add: run_slots_def)
qed

text \<open>The first pass fills exactly the slots its members name, each with one of them.\<close>

lemma run_members_slots:
  assumes "run_members s js sb conf = Ret (b, sb', conf')" "length (sb_disks sb) = MD_SB_DISKS"
    "run_slots s sb M conf" "\<And>i. i \<in> M \<Longrightarrow> unat (desc_nr (rd s i)) < MD_SB_DISKS"
  shows "run_slots s sb' (M \<union> set js) conf' \<and> (\<forall>i \<in> set js. unat (desc_nr (rd s i)) < MD_SB_DISKS) \<and>
    (\<forall>k < MD_SB_DISKS. operational (disks conf ! k) \<longrightarrow> operational (disks conf' ! k)) \<and>
    (\<forall>i \<in> set js. dk_raid_disk (member_desc s sb i) \<le> sb_raid_disks sb \<longrightarrow>
       unat (dk_raid_disk (member_desc s sb i)) < MD_SB_DISKS \<and>
       operational (disks conf' ! unat (dk_raid_disk (member_desc s sb i))))"
  using assms
proof (induction js arbitrary: sb conf M)
  case Nil
  then show ?case by simp
next
  case (Cons i js)
  define n where "n = unat (desc_nr (rd s i))"
  define d where "d = member_desc s sb i"
  define sb1 where "sb1 = sb\<lparr>sb_disks := (sb_disks sb)[n := mark_member d]\<rparr>"
  have dn: "d = sb_disks sb ! n" by (simp add: d_def member_desc_def n_def)
  have n: "n < MD_SB_DISKS"
    using Cons.prems(1) by (auto simp: run_members_step n_def [symmetric] Let_def split: if_splits)
  have sn: "same_numbers sb sb1" using same_numbers_mark [of n sb] n Cons.prems(2) by (simp add: sb1_def dn)
  have len: "length (sb_disks sb1) = MD_SB_DISKS" using Cons.prems(2) by (simp add: sb1_def)
  have md1: "dk_raid_disk (member_desc s sb1 j) = dk_raid_disk (member_desc s sb j)"
    if "unat (desc_nr (rd s j)) < MD_SB_DISKS" for j
    using same_numbersD(11) [OF sn] that Cons.prems(2) by (simp add: member_desc_def)
  have rdk: "sb_raid_disks sb1 = sb_raid_disks sb" using same_numbersD(2) [OF sn] .
  define conf1 where "conf1 = (if dk_raid_disk d \<le> sb_raid_disks sb \<and> \<not> operational (disks conf ! unat (dk_raid_disk d))
     then take_slot s i d conf else conf)"
  have small: "dk_raid_disk d \<le> sb_raid_disks sb \<Longrightarrow> unat (dk_raid_disk d) < MD_SB_DISKS"
    using Cons.prems(1) n
    by (auto simp: run_members_step n_def [symmetric] dn [symmetric] Let_def not_le not_less split: if_splits)
  have loop: "run_members s js sb1 conf1 = Ret (b, sb', conf')"
    using Cons.prems(1) n
    by (auto simp: run_members_step n_def [symmetric] dn [symmetric] sb1_def [symmetric] conf1_def Let_def not_le
        split: if_splits)
  have slots1: "run_slots s sb (insert i M) conf1"
  proof (cases "dk_raid_disk d \<le> sb_raid_disks sb \<and> \<not> operational (disks conf ! unat (dk_raid_disk d))")
    case True
    then show ?thesis using run_slots_take [OF Cons.prems(3), of i "unat (dk_raid_disk d)"] small
      by (simp add: conf1_def d_def [symmetric] word_le_nat_alt)
  next
    case False
    then show ?thesis using Cons.prems(3) by (auto simp: conf1_def run_slots_def slot_holds_def)
  qed
  have ins: "unat (desc_nr (rd s j)) < MD_SB_DISKS" if "j \<in> insert i M" for j
    using that n Cons.prems(4) by (auto simp: n_def)
  have "run_slots s sb1 (insert i M) conf1"
    using slots1 run_slots_cong [OF sn, of "insert i M"] ins Cons.prems(2) by simp
  note IH = Cons.IH [OF loop len this ins]
  have lenc: "length (disks conf) = MD_SB_DISKS" using Cons.prems(3) by (simp add: run_slots_def)
  have keep: "operational (disks conf1 ! k)" if "operational (disks conf ! k)" "k < MD_SB_DISKS" for k
    using that lenc by (cases "k = unat (dk_raid_disk d)") (auto simp: conf1_def take_slot_def)
  have mine: "operational (disks conf1 ! unat (dk_raid_disk d))" if "dk_raid_disk d \<le> sb_raid_disks sb"
    using that lenc small by (auto simp: conf1_def take_slot_def)
  have all: "unat (desc_nr (rd s j)) < MD_SB_DISKS" if "j \<in> set (i # js)" for j
    using that IH n by (auto simp: n_def)
  have own: "unat (dk_raid_disk (member_desc s sb j)) < MD_SB_DISKS \<and>
      operational (disks conf' ! unat (dk_raid_disk (member_desc s sb j)))"
    if j: "j \<in> set (i # js)" "dk_raid_disk (member_desc s sb j) \<le> sb_raid_disks sb" for j
  proof (cases "j = i")
    case True
    then show ?thesis using mine small IH j(2) by (simp add: d_def)
  next
    case False
    then have "j \<in> set js" using j(1) by simp
    with IH have "dk_raid_disk (member_desc s sb1 j) \<le> sb_raid_disks sb1 \<longrightarrow>
        unat (dk_raid_disk (member_desc s sb1 j)) < MD_SB_DISKS \<and>
        operational (disks conf' ! unat (dk_raid_disk (member_desc s sb1 j)))" by blast
    then show ?thesis using j(2) unfolding md1 [OF all [OF j(1)]] rdk by blast
  qed
  show ?case using IH all own keep by (simp add: insert_commute Un_commute)
qed

lemma run_faulty_slots:
  assumes "run_faulty sb ds conf = Ret conf'" "run_slots s sb' M conf"
  shows "run_slots s sb' M conf' \<and> (\<forall>k < MD_SB_DISKS. operational (disks conf' ! k) = operational (disks conf ! k))"
  using assms
proof (induction ds arbitrary: conf)
  case (Cons d ds)
  define k where "k = unat (dk_raid_disk d)"
  define conf1 where "conf1 = set_slot k (\<lambda>p. p\<lparr>di_number := dk_number d, di_raid_disk := dk_raid_disk d,
     di_dev := (0, 0), operational := False, write_only := False, spare := False, used_slot := True\<rparr>) conf"
  from Cons.prems(1) consider "run_faulty sb ds conf = Ret conf'"
    | "k < MD_SB_DISKS" "\<not> used_slot (disks conf ! k)" "run_faulty sb ds conf1 = Ret conf'"
    by (auto simp: Let_def k_def [symmetric] conf1_def split: if_splits)
  then show ?case
  proof cases
    case 1
    then show ?thesis using Cons.IH Cons.prems(2) by blast
  next
    case 2
    have len: "length (disks conf) = MD_SB_DISKS" using Cons.prems(2) by (simp add: run_slots_def)
    have nop: "\<not> operational (disks conf ! k)"
      using Cons.prems(2) 2(1,2) by (auto simp: run_slots_def slot_holds_def)
    have same: "map operational (disks conf1) = map operational (disks conf)"
      using nop len 2(1) by (auto simp: conf1_def map_update list_update_same_conv)
    then have cnt: "length (filter operational (disks conf1)) = length (filter operational (disks conf))"
      by (metis (no_types) length_map filter_map comp_id list.map_comp map_eq_imp_length_eq id_o)
    have op: "operational (disks conf1 ! j) = operational (disks conf ! j)" if "j < MD_SB_DISKS" for j
      using same len that by (metis conf1_def length_list_update nth_map set_slot_simps(2))
    have "disks conf1 ! j = disks conf ! j" if "operational (disks conf ! j)" for j
      using that nop by (cases "j = k") (auto simp: conf1_def)
    then have "run_slots s sb' M conf1"
      using Cons.prems(2) cnt op by (auto simp: run_slots_def conf1_def)
    then show ?thesis using Cons.IH [OF 2(3)] op by simp
  qed
qed simp

lemma cache_inv_cong:
  assumes "cache_inv refs conf"
    and "heap c = heap conf" "live c = live conf" "stripe_hashtbl c = stripe_hashtbl conf"
    "buffer_size c = buffer_size conf" "inactive_list c = inactive_list conf" "handle_list c = handle_list conf"
    "active_stripes c = active_stripes conf" "raid_disks c = raid_disks conf"
  shows "cache_inv refs c"
proof -
  have h: "hashed c = hashed conf" using assms(2) by (simp add: hashed_def fun_eq_iff)
  have "index_ok c"
    by (rule index_ok_cong [OF cache_invD(4) [OF assms(1)]]) (simp_all add: assms(2-) h)
  then show ?thesis using assms by (simp add: cache_inv_def lists_ok_def refs_ok_def flags_ok_def on_lru_def)
qed

lemma cache_inv_empty:
  assumes "heap conf = (\<lambda>_. zero_stripe 0)" "live conf = []" "stripe_hashtbl conf = (\<lambda>_. None)"
    "inactive_list conf = []" "handle_list conf = []" "active_stripes conf = 0"
  shows "cache_inv (\<lambda>_. 0) conf"
proof -
  have un: "\<not> hashed conf i" for i by (simp add: hashed_def assms(1) zero_stripe_def)
  then have "hash_ok conf" using hash_rep_zero [OF assms(3)] by (auto simp: hash_ok_def)
  then show ?thesis using un assms by (simp add: cache_inv_defs stripes.unique_def)
qed

text \<open>Growing the cache leaves the rest of the configuration alone.\<close>

definition same_setup :: "jraid5_conf \<Rightarrow> jraid5_conf \<Rightarrow> bool" where
  "same_setup c c' \<longleftrightarrow> disks c' = disks c \<and> working_disks c' = working_disks c \<and> failed_disks c' = failed_disks c \<and>
     chunk_size c' = chunk_size c \<and> level c' = level c \<and> algorithm c' = algorithm c \<and> raid_disks c' = raid_disks c \<and>
     jraid_disks c' = jraid_disks c \<and> max_nr_stripes c' = max_nr_stripes c \<and> resync_thread c' = resync_thread c"

lemma same_setup_refl [simp]: "same_setup c c"
  by (simp add: same_setup_def)

lemma same_setup_add [simp]:
  "same_setup (release_stripe i (upd_stripe i f conf\<lparr>live := l, active_stripes := a\<rparr>)) c' = same_setup conf c'"
  "same_setup conf (upd_stripe i f conf)"
  by (auto simp: same_setup_def release_stripe_def release_stripe_locked_def Let_def atomic_add_count_def upd_stripe_def)

lemma grow_stripes_loop_setup:
  "grow_stripes_loop ops num conf m = Ret (b, conf', m') \<Longrightarrow> same_setup conf conf'"
proof (induction num arbitrary: conf m)
  case (Suc num)
  show ?case using Suc.prems
    by (auto simp: Let_def bind_outcome_Ret_iff split: option.splits prod.splits bool.splits dest!: Suc.IH)
qed simp

lemma grow_stripes_setup:
  "grow_stripes ops num conf m = Ret (b, conf', m') \<Longrightarrow> same_setup conf conf'"
  by (auto simp: grow_stripes_def same_setup_def dest: grow_stripes_loop_setup [unfolded same_setup_def]
      split: option.splits)

section \<open>Running an array\<close>

text \<open>What no branch of \<open>jraid5_run\<close> changes of the superblock.\<close>

definition same_array :: "jmd_superblock \<Rightarrow> jmd_superblock \<Rightarrow> bool" where
  "same_array sb sb' \<longleftrightarrow> not_persistent sb' = not_persistent sb \<and> md_magic sb' = md_magic sb \<and>
     jmd_event sb' = jmd_event sb \<and> sb_size sb' = sb_size sb \<and> sb_chunk_size sb' = sb_chunk_size sb \<and>
     sb_raid_disks sb' = sb_raid_disks sb \<and> sb_level sb' = sb_level sb \<and>
     length (sb_disks sb') = length (sb_disks sb)"

lemma same_array_refl [simp]: "same_array sb sb" by (simp add: same_array_def)

lemma same_array_trans: "same_array a b \<Longrightarrow> same_array b c \<Longrightarrow> same_array a c"
  by (simp add: same_array_def)

lemma same_numbers_array: "same_numbers sb sb' \<Longrightarrow> same_array sb sb'"
  using same_numbersD [of sb sb'] by (simp add: same_array_def)

lemma same_array_state [simp]:
  "same_array (sb\<lparr>sb_state := x\<rparr>) sb' = same_array sb sb'" "same_array sb (sb'\<lparr>sb_state := x\<rparr>) = same_array sb sb'"
  by (simp_all add: same_array_def jmd_event_def)

lemma run_sync_same: "run_sync conf sb = Ret sb' \<Longrightarrow> same_array sb sb' \<and> sb_state sb' = sb_state sb"
  by (auto simp: run_sync_def same_array_def jmd_event_def split: if_splits)

lemma register_thread_simps:
  "jmd_register_thread a b r n s = (th, s') \<Longrightarrow> rd s' = rd s \<and> md s' = md s \<and> all_jraid_disks s' = all_jraid_disks s \<and>
     jmd_size s' = jmd_size s \<and> pers_table s' = pers_table s \<and>
     (th = None \<longrightarrow> s' = s) \<and> (\<forall>t. th = Some t \<longrightarrow> kthreads s' = n # kthreads s \<and> th_name t = n)"
  by (auto simp: jmd_register_thread_def Let_def split: if_splits)

lemma recover_arrays_simps [simp]:
  "rd (jmd_recover_arrays s) = rd s" "md (jmd_recover_arrays s) = md s"
  "all_jraid_disks (jmd_recover_arrays s) = all_jraid_disks s" "jmd_size (jmd_recover_arrays s) = jmd_size s"
  "pers_table (jmd_recover_arrays s) = pers_table s" "kthreads (jmd_recover_arrays s) = kthreads s"
  by (simp_all add: jmd_recover_arrays_def split: option.split)

definition kept :: "jmd_state \<Rightarrow> jmd_state \<Rightarrow> bool" where
  "kept s s' \<longleftrightarrow> rd s' = rd s \<and> all_jraid_disks s' = all_jraid_disks s \<and> jmd_size s' = jmd_size s \<and>
     pers_table s' = pers_table s \<and>
     md s' = (md s)\<lparr>md_sb := md_sb (md s'), md_private := md_private (md s')\<rparr>"

lemma put_sb_simps [simp]:
  "rd (put_sb sb s) = rd s" "md (put_sb sb s) = (md s)\<lparr>md_sb := Some sb\<rparr>"
  "all_jraid_disks (put_sb sb s) = all_jraid_disks s" "jmd_size (put_sb sb s) = jmd_size s"
  "pers_table (put_sb sb s) = pers_table s" "kthreads (put_sb sb s) = kthreads s"
  by (simp_all add: put_sb_def)

lemma run_abort_simps [simp]:
  "rd (run_abort s) = rd s" "md (run_abort s) = (md s)\<lparr>md_private := None\<rparr>"
  "all_jraid_disks (run_abort s) = all_jraid_disks s" "jmd_size (run_abort s) = jmd_size s"
  "pers_table (run_abort s) = pers_table s" "kthreads (run_abort s) = kthreads s"
  by (simp_all add: run_abort_def)

lemma clear_clean_same [simp]: "same_array (clear_clean sb conf) sb' = same_array sb sb'" "same_array sb (clear_clean sb conf)"
  by (simp_all add: clear_clean_def)

definition run_thread :: jmd_thread where
  "run_thread = \<lparr>th_run = Some ''jraid5d'', th_name = ''jraid5d'', th_flags = 0\<rparr>"

text \<open>The outcomes of the second half: what fails first, and success with its configuration.\<close>

lemma run_finish_cases:
  assumes "run_finish re recov sb conf th s = Ret (b, s')"
  obtains (resync) sb2 where "\<not> b" "re_resync re \<noteq> (True, True)" "\<not> recov" "run_sync conf sb = Ret sb2"
      "s' = run_abort (put_sb sb2 s)"
  | (run) sb2 rth pr where "b" "run_sync conf sb = Ret sb2" "kept s s'" "md_sb (md s') = Some sb2"
      "md_private (md s') = Some (conf\<lparr>thread := Some (jmd_wakeup_thread th), resync_thread := rth, resync_parity := pr\<rparr>)"
      "rth = resync_thread conf \<and> kthreads s' = kthreads s \<or> (\<exists>t. rth = Some t \<and> kthreads s' = th_name t # kthreads s)"
proof -
  obtain sb2 where sy: "run_sync conf sb = Ret sb2"
    using assms by (auto simp: run_finish_def bind_outcome_Ret_iff)
  note fin = assms [unfolded run_finish_def sy bind_outcome.simps Let_def]
  have conf: "conf\<lparr>thread := x\<rparr> = conf\<lparr>thread := x, resync_thread := resync_thread conf, resync_parity := resync_parity conf\<rparr>"
    for x by simp
  show thesis
  proof (cases "\<not> recov \<and> \<not> bit (sb_state sb2) MD_SB_CLEAN")
    case True
    show thesis
    proof (cases "re_resync re = (True, True)")
      case ok: True
      have ord: "conf\<lparr>resync_thread := x, resync_parity := 1, thread := y\<rparr> =
        conf\<lparr>thread := y, resync_thread := x, resync_parity := 1\<rparr>" for x y by simp
      have "b" "s' = put_sb sb2 (upd_md (\<lambda>d. d\<lparr>md_private := Some (conf\<lparr>
          resync_thread := Some (jmd_wakeup_thread \<lparr>th_run = Some ''jraid5syncd'', th_name = ''jraid5syncd'', th_flags = 0\<rparr>),
          resync_parity := 1, thread := Some (jmd_wakeup_thread th)\<rparr>)\<rparr>) (s\<lparr>kthreads := ''jraid5syncd'' # kthreads s\<rparr>))"
        using fin True ok by (simp_all add: jmd_register_thread_def)
      then show thesis using run [OF _ sy] unfolding ord
        by (auto simp: kept_def jmd_wakeup_thread_def)
    next
      case no: False
      then have "\<not> b \<and> s' = run_abort (put_sb sb2 s)"
        using fin True by (cases "re_resync re") (auto simp: jmd_register_thread_def split: if_splits)
      then show thesis using resync no sy True by blast
    qed
  next
    case False
    then have "b" "s' = put_sb sb2 (upd_md (\<lambda>d. d\<lparr>md_private := Some (conf\<lparr>thread := Some (jmd_wakeup_thread th)\<rparr>)\<rparr>) s) \<or>
        s' = jmd_recover_arrays (put_sb sb2 (upd_md (\<lambda>d. d\<lparr>md_private := Some (conf\<lparr>thread := Some (jmd_wakeup_thread th)\<rparr>)\<rparr>) s))"
      using fin by (auto split: if_splits)
    then have "b" "kept s s'" "md_sb (md s') = Some sb2" "kthreads s' = kthreads s"
      "md_private (md s') = Some (conf\<lparr>thread := Some (jmd_wakeup_thread th)\<rparr>)" by (auto simp: kept_def)
    then show thesis using run [OF _ sy, where rth = "resync_thread conf" and pr = "resync_parity conf"] conf by simp
  qed
qed

lemma run_start_cases:
  assumes "run_start re ops sb conf s m = Ret (b, s', m')"
  obtains (thread) "\<not> b" "re_thread re \<noteq> (True, True)" "s' = run_abort (put_sb (clear_clean sb conf) s)" "m' = m"
  | (memory) conf1 m1 conf2 where "\<not> b" "re_thread re = (True, True)"
      "grow_stripes ops NR_STRIPES (conf\<lparr>thread := Some run_thread\<rparr>) m = Ret (True, conf1, m1)"
      "shrink_stripes ops NR_STRIPES conf1 m1 = Ret (conf2, m')"
      "s' = run_abort (put_sb (clear_clean sb conf) (s\<lparr>kthreads := ''jraid5d'' # kthreads s\<rparr>))"
  | (finish) conf1 where "re_thread re = (True, True)"
      "grow_stripes ops NR_STRIPES (conf\<lparr>thread := Some run_thread\<rparr>) m = Ret (False, conf1, m')"
      "run_finish re (working_disks conf \<noteq> sb_raid_disks sb) (clear_clean sb conf) conf1 run_thread
         (s\<lparr>kthreads := ''jraid5d'' # kthreads s\<rparr>) = Ret (b, s')"
proof (cases "re_thread re = (True, True)")
  case False
  then have "jmd_register_thread (fst (re_thread re)) (snd (re_thread re)) ''jraid5d'' ''jraid5d'' s = (None, s)"
    by (cases "re_thread re") (auto simp: jmd_register_thread_def)
  then show thesis using assms thread False by (simp add: run_start_def Let_def)
next
  case True
  then have reg: "jmd_register_thread (fst (re_thread re)) (snd (re_thread re)) ''jraid5d'' ''jraid5d'' s =
      (Some run_thread, s\<lparr>kthreads := ''jraid5d'' # kthreads s\<rparr>)"
    by (simp add: jmd_register_thread_def run_thread_def)
  note start = assms [unfolded run_start_def Let_def reg prod.case option.case]
  show thesis using start memory finish True
    by (auto simp: bind_outcome_Ret_iff split: if_splits)
qed

lemma run_finish_keeps:
  assumes "run_finish re recov sb conf th s = Ret (b, s')"
  shows "kept s s' \<and> (\<exists>sb'. md_sb (md s') = Some sb' \<and> same_array sb sb') \<and>
    (b \<longleftrightarrow> md_private (md s') \<noteq> None) \<and> set (kthreads s) \<subseteq> set (kthreads s')"
  using assms
proof (cases rule: run_finish_cases)
  case (resync sb2)
  then show ?thesis using run_sync_same by (auto simp: kept_def)
next
  case (run sb2 rth pr)
  then show ?thesis using run_sync_same by auto
qed

lemma run_start_keeps:
  assumes "run_start re ops sb conf s m = Ret (b, s', m')"
  shows "kept s s' \<and> (\<exists>sb'. md_sb (md s') = Some sb' \<and> same_array sb sb') \<and> (b \<longleftrightarrow> md_private (md s') \<noteq> None)"
  using assms
proof (cases rule: run_start_cases)
  case (finish conf1)
  from run_finish_keeps [OF this(3)] show ?thesis by (simp add: kept_def)
qed (simp_all add: kept_def)

text \<open>The result of the passes over members and descriptors, when the checks go through.\<close>

lemma jraid5_run_cases:
  assumes "jraid5_run re ops s m = Ret (b, s', m')" "md_sb (md s) = Some sb"
  obtains (level) "\<not> b" "s' = s" "m' = m" "sb_level sb \<noteq> 5" "sb_level sb \<noteq> 4"
  | (abort) sb1 where "\<not> b" "m' = m" "s' = run_abort (put_sb sb1 s)"
      "length (sb_disks sb) = MD_SB_DISKS \<Longrightarrow> same_array sb sb1"
  | (start) sb1 conf1 conf2 where
      "run_members s (mdisks (md s)) sb (zero_conf\<lparr>jraid_disks := nb_dev (md s), buffer_size := of_nat PAGE_SIZE\<rparr>) =
         Ret (True, sb1, conf1)"
      "run_faulty sb1 (take MD_SB_DISKS (sb_disks sb1)) conf1 = Ret conf2" "run_checks (run_params sb1 conf2)"
      "run_start re ops sb1 (run_params sb1 conf2) s m = Ret (b, s', m')"
proof (cases "sb_level sb \<noteq> 5 \<and> sb_level sb \<noteq> 4 \<or> \<not> re_conf re \<or> \<not> re_hash re")
  case True
  then show thesis
  proof (cases "sb_level sb \<noteq> 5 \<and> sb_level sb \<noteq> 4")
    case True
    then show thesis using assms level by (auto simp: jraid5_run_def)
  next
    case False
    have "put_sb sb s = s" using assms(2) by (simp add: put_sb_def upd_md_def)
    then show thesis using assms abort [of sb] True False by (auto simp: jraid5_run_def)
  qed
next
  case False
  let ?c = "zero_conf\<lparr>jraid_disks := nb_dev (md s), buffer_size := of_nat PAGE_SIZE\<rparr>"
  from False assms obtain b1 sb1 conf1 where rm: "run_members s (mdisks (md s)) sb ?c = Ret (b1, sb1, conf1)"
    by (auto simp: jraid5_run_def Let_def split: outcome.splits if_splits)
  have same: "length (sb_disks sb) = MD_SB_DISKS \<Longrightarrow> b1 \<and> same_array sb sb1"
    using run_members_frame [OF rm] same_numbers_array by blast
  show thesis
  proof (cases b1)
    case no: False
    then show thesis using abort [of sb1] assms rm same False by (auto simp: jraid5_run_def Let_def)
  next
    case True
    from False assms rm True obtain conf2 where
      rf: "run_faulty sb1 (take MD_SB_DISKS (sb_disks sb1)) conf1 = Ret conf2"
      by (auto simp: jraid5_run_def Let_def bind_outcome_Ret_iff)
    show thesis
      using False assms rm True rf same abort [of sb1] start [of sb1 conf1 conf2]
      by (cases "run_checks (run_params sb1 conf2)") (auto simp: jraid5_run_def Let_def)
  qed
qed

lemma jraid5_run_keeps:
  assumes "jraid5_run re ops s m = Ret (b, s', m')" "md_sb (md s) = Some sb" "length (sb_disks sb) = MD_SB_DISKS"
  shows "kept s s' \<and> (\<exists>sb'. md_sb (md s') = Some sb' \<and> same_array sb sb') \<and> (b \<longrightarrow> md_private (md s') \<noteq> None)"
  using assms(1,2)
proof (cases rule: jraid5_run_cases)
  case level
  then show ?thesis using assms(2) by (simp add: kept_def)
next
  case (abort sb1)
  then show ?thesis using assms(3) by (auto simp: kept_def)
next
  case (start sb1 conf1 conf2)
  have "same_array sb sb1" using run_members_frame [OF start(1) assms(3)] same_numbers_array by blast
  then show ?thesis using run_start_keeps [OF start(4)] same_array_trans by blast
qed

text \<open>The configuration before the cache is built, and the cache afterwards.\<close>

lemma run_setup:
  assumes "length (sb_disks sb) = MD_SB_DISKS"
    and rm: "run_members s (mdisks (md s)) sb (zero_conf\<lparr>jraid_disks := nb_dev (md s), buffer_size := of_nat PAGE_SIZE\<rparr>) =
         Ret (True, sb1, conf1)"
    and rf: "run_faulty sb1 (take MD_SB_DISKS (sb_disks sb1)) conf1 = Ret conf2"
  shows "same_numbers sb sb1 \<and> cache_inv (\<lambda>_. 0) (run_params sb1 conf2) \<and> live (run_params sb1 conf2) = [] \<and>
    inactive_list (run_params sb1 conf2) = [] \<and> run_slots s sb (set (mdisks (md s))) (run_params sb1 conf2) \<and>
    (\<forall>i \<in> set (mdisks (md s)). unat (desc_nr (rd s i)) < MD_SB_DISKS \<and>
       (dk_raid_disk (member_desc s sb i) \<le> sb_raid_disks sb \<longrightarrow>
        operational (disks (run_params sb1 conf2) ! unat (dk_raid_disk (member_desc s sb i)))))"
proof -
  let ?c = "zero_conf\<lparr>jraid_disks := nb_dev (md s), buffer_size := of_nat PAGE_SIZE\<rparr>"
  have sn: "same_numbers sb sb1" and od: "only_disks ?c conf1" using run_members_frame [OF rm assms(1)] by blast+
  have "only_disks ?c conf2" using only_disks_trans [OF od] run_faulty_frame [OF rf] by blast
  then obtain ds w where c2: "conf2 = ?c\<lparr>disks := ds, working_disks := w\<rparr>" unfolding only_disks_def by blast
  have "run_slots s sb {} ?c" by (simp add: run_slots_def zero_conf_def zero_disk_info_def MD_SB_DISKS_def)
  from run_members_slots [OF rm assms(1) this]
  have r1: "run_slots s sb1 (set (mdisks (md s))) conf1" "\<forall>i \<in> set (mdisks (md s)). unat (desc_nr (rd s i)) < MD_SB_DISKS"
    "\<forall>i \<in> set (mdisks (md s)). dk_raid_disk (member_desc s sb i) \<le> sb_raid_disks sb \<longrightarrow>
       unat (dk_raid_disk (member_desc s sb i)) < MD_SB_DISKS \<and>
       operational (disks conf1 ! unat (dk_raid_disk (member_desc s sb i)))" by auto
  note r2 = run_faulty_slots [OF rf r1(1)]
  have "run_slots s sb (set (mdisks (md s))) conf2" using r2 run_slots_cong [OF sn] r1(2) assms(1) by auto
  then have "run_slots s sb (set (mdisks (md s))) (run_params sb1 conf2)" by (simp add: run_slots_def run_params_def)
  moreover have "cache_inv (\<lambda>_. 0) (run_params sb1 conf2)"
    by (rule cache_inv_empty) (simp_all add: run_params_def c2 zero_conf_def)
  moreover have "live (run_params sb1 conf2) = []" "inactive_list (run_params sb1 conf2) = []"
    "disks (run_params sb1 conf2) = disks conf2" by (simp_all add: run_params_def c2 zero_conf_def)
  ultimately show ?thesis using sn r1(2,3) r2 by auto
qed

lemma acct_empty:
  assumes "live conf = []"
  shows "acct used objs (used m) (objs m) conf m"
proof -
  have "own conf = (\<lambda>_. None)" using assms by (auto simp: own_def fun_eq_iff)
  then show ?thesis using assms by (simp add: acct_def map_inj_def)
qed

lemma filter_length_card: "length (filter P xs) = card {k. k < length xs \<and> P (xs ! k)}"
  by (rule length_filter_conv_card)

lemma jraid5_run_conf:
  assumes mem: "mem_ok ops used objs" and sb: "md_sb (md s) = Some sb" "length (sb_disks sb) = MD_SB_DISKS"
    and run: "jraid5_run re ops s m = Ret (True, s', m')"
  shows "\<exists>conf. md_private (md s') = Some conf \<and> cache_inv (\<lambda>_. 0) conf \<and> length (live conf) = NR_STRIPES \<and>
    inactive_list conf = live conf \<and>
    (\<forall>i \<in> set (live conf). \<forall>k < unat (raid_disks conf). slot_page (heap conf i) k \<noteq> None) \<and>
    used m' = used m \<union> ran (own conf) \<and> raid_disks conf = sb_raid_disks sb \<and> chunk_size conf = sb_chunk_size sb \<and>
    algorithm conf = layout sb \<and> run_checks conf \<and> run_slots s sb (set (mdisks (md s))) conf \<and>
    thread conf = Some (jmd_wakeup_thread run_thread) \<and> ''jraid5d'' \<in> set (kthreads s') \<and>
    acct used objs (used m) (objs m) conf m' \<and> jraid_disks conf = nb_dev (md s) \<and>
    max_nr_stripes conf = of_nat NR_STRIPES \<and>
    kthreads s' = (case resync_thread conf of None \<Rightarrow> [] | Some t \<Rightarrow> [th_name t]) @ ''jraid5d'' # kthreads s"
  using run sb(1)
proof (cases rule: jraid5_run_cases)
  case (start sb1 conf1 conf2)
  define c3 where "c3 = run_params sb1 conf2"
  note set_up = run_setup [OF sb(2) start(1,2), folded c3_def]
  have conf0: "only_disks (zero_conf\<lparr>jraid_disks := nb_dev (md s), buffer_size := of_nat PAGE_SIZE\<rparr>) conf2"
    using run_members_frame [OF start(1) sb(2)] run_faulty_frame [OF start(2)] only_disks_trans by blast
  have [simp]: "resync_thread zero_conf = None" by (simp add: zero_conf_def)
  from start(4) show ?thesis unfolding c3_def [symmetric]
  proof (cases rule: run_start_cases)
    case (finish c4)
    let ?c = "c3\<lparr>thread := Some run_thread\<rparr>"
    have inv: "cache_inv (\<lambda>_. 0) ?c" by (rule cache_inv_cong [of "\<lambda>_. 0" c3]) (use set_up in simp_all)
    have "acct used objs (used m) (objs m) ?c m" by (rule acct_empty) (use set_up in simp)
    from grow_stripes_ok [OF mem inv this, of NR_STRIPES] finish(2)
    have g: "cache_inv (\<lambda>_. 0) c4" "acct used objs (used m) (objs m) c4 m'" "inactive_list c4 = live c4"
      "length (live c4) = NR_STRIPES"
      "\<forall>i \<in> set (live c4). \<forall>k < unat (raid_disks c3). slot_page (heap c4 i) k \<noteq> None"
      using set_up by auto
    have keeps: "same_setup ?c c4" using grow_stripes_setup [OF finish(2)] .
    from finish(3) show ?thesis
    proof (cases rule: run_finish_cases)
      case (run sb2 rth pr)
      let ?f = "c4\<lparr>thread := Some (jmd_wakeup_thread run_thread), resync_thread := rth, resync_parity := pr\<rparr>"
      have "cache_inv (\<lambda>_. 0) ?f" by (rule cache_inv_cong [OF g(1)]) simp_all
      moreover have "own ?f = own c4" by (rule own_cong) simp_all
      moreover have "run_slots s sb (set (mdisks (md s))) ?f" "run_checks ?f" "raid_disks ?f = raid_disks c3"
        "chunk_size ?f = chunk_size c3" "algorithm ?f = algorithm c3"
        using set_up keeps start(3) by (auto simp: same_setup_def run_slots_def run_checks_def c3_def)
      moreover have "raid_disks c3 = sb_raid_disks sb" "chunk_size c3 = sb_chunk_size sb" "algorithm c3 = layout sb"
          "max_nr_stripes c3 = of_nat NR_STRIPES"
        using set_up same_numbersD(2-4) [of sb sb1] by (simp_all add: c3_def run_params_def)
      moreover have "used m' = used m \<union> ran (own c4)" using g(2) by (simp add: acct_def)
      moreover have "acct used objs (used m) (objs m) ?f m'"
        using g(2) own_cong [of ?f c4] by (simp add: acct_def)
      moreover have "jraid_disks c3 = nb_dev (md s)" "resync_thread c3 = None"
        using conf0 by (auto simp: c3_def run_params_def only_disks_def)
      moreover have "jraid_disks c4 = jraid_disks c3" "max_nr_stripes c4 = max_nr_stripes c3"
        "resync_thread c4 = resync_thread c3" using keeps by (simp_all add: same_setup_def)
      ultimately show ?thesis using run(5,6) g(3-5) by (intro exI [of _ ?f]) auto
    qed simp
  qed simp_all
qed (use assms in simp_all)

section \<open>Properties\<close>


text \<open>
  The number of operational slots decides whether an array is complete: if it equals
  \<open>raid_disks\<close> and no member is placed in the slot right behind the array, then every slot of
  the array is operational. Without the second condition this fails.
\<close>

lemma working_disks_complete:
  assumes "run_slots s sb M conf" "working_disks conf = sb_raid_disks sb" "unat (sb_raid_disks sb) \<le> MD_SB_DISKS"
    and "\<forall>i \<in> M. dk_raid_disk (member_desc s sb i) \<noteq> sb_raid_disks sb" "k < unat (sb_raid_disks sb)"
  shows "operational (disks conf ! k)"
proof -
  let ?S = "{j. j < MD_SB_DISKS \<and> operational (disks conf ! j)}" and ?n = "unat (sb_raid_disks sb)"
  have len: "length (disks conf) = MD_SB_DISKS" using assms(1) by (simp add: run_slots_def)
  have "card ?S \<le> card {..<MD_SB_DISKS}" by (rule card_mono) auto
  then have small: "card ?S < 2 ^ 32" by (simp add: MD_SB_DISKS_def)
  have "of_nat (card ?S) = sb_raid_disks sb"
    using assms(1,2) by (simp add: run_slots_def filter_length_card len)
  then have card: "card ?S = ?n" using small unat_of_nat_small [of "card ?S", where 'a = 32] by auto
  have "?S \<subseteq> {..<?n}"
  proof
    fix j assume "j \<in> ?S"
    then obtain i where i: "i \<in> M" "unat (dk_raid_disk (member_desc s sb i)) = j" "j \<le> ?n"
      using assms(1) by (auto simp: run_slots_def slot_holds_def)
    then have "j \<noteq> ?n" using assms(4) by (auto simp: unat_inject)
    then show "j \<in> {..<?n}" using i(3) by simp
  qed
  then have "?S = {..<?n}" using card by (intro card_subset_eq) auto
  then show ?thesis using assms(5) by blast
qed

text \<open>
  A member whose descriptor names the slot \<open>raid_disks\<close>, the first one behind the array, is
  taken: it counts as a working disk, while every slot of the array stays as it was.
\<close>

lemma slot_behind_array_counts:
  assumes "length (sb_disks sb) = MD_SB_DISKS" "unat (desc_nr (rd s i)) < MD_SB_DISKS"
    and "dk_raid_disk (member_desc s sb i) = sb_raid_disks sb" "unat (sb_raid_disks sb) < MD_SB_DISKS"
    and "\<not> operational (disks conf ! unat (sb_raid_disks sb))"
  shows "\<exists>sb' conf'. run_members s [i] sb conf = Ret (True, sb', conf') \<and>
    working_disks conf' = working_disks conf + 1 \<and>
    (\<forall>k < unat (sb_raid_disks sb). disks conf' ! k = disks conf ! k)"
  using assms by (simp add: run_members_step member_desc_def Let_def take_slot_def)

text \<open>
  When the thread for the resynchronisation cannot be made, \<open>jraid5_run\<close> fails and forgets the
  configuration, but gives nothing back: the memory is as after the successful run that the same
  call would have been, with its 1024 stripes, and the daemon's thread still runs.
\<close>

lemma jraid5_run_abort_leaks:
  assumes "jraid5_run re ops s m = Ret (True, s1, m1)" "md_private (md s1) = Some c" "resync_thread c \<noteq> None"
    and "md_sb (md s) = Some sb" "length (sb_disks sb) = MD_SB_DISKS"
  shows "\<exists>s2. jraid5_run (re\<lparr>re_resync := (False, x)\<rparr>) ops s m = Ret (False, s2, m1) \<and>
    md_private (md s2) = None \<and> ''jraid5d'' \<in> set (kthreads s2)"
  using assms(1,4)
proof (cases rule: jraid5_run_cases)
  case (start sb1 conf1 conf2)
  let ?re = "re\<lparr>re_resync := (False, x)\<rparr>" and ?c = "run_params sb1 conf2" and ?s = "s\<lparr>kthreads := ''jraid5d'' # kthreads s\<rparr>"
  have "only_disks (zero_conf\<lparr>jraid_disks := nb_dev (md s), buffer_size := of_nat PAGE_SIZE\<rparr>) conf2"
    using run_members_frame [OF start(1) assms(5)] run_faulty_frame [OF start(2)] only_disks_trans by blast
  then have r0: "resync_thread conf2 = None" by (auto simp: only_disks_def zero_conf_def)
  from start(4) show ?thesis
  proof (cases rule: run_start_cases)
    case (finish c4)
    have r4: "resync_thread c4 = None"
      using grow_stripes_setup [OF finish(2)] r0 by (simp add: same_setup_def run_params_def)
    obtain sb2 where sy: "run_sync c4 (clear_clean sb1 ?c) = Ret sb2"
      using finish(3) by (auto simp: run_finish_def bind_outcome_Ret_iff)
    have go: "working_disks ?c = sb_raid_disks sb1 \<and> \<not> bit (sb_state sb2) MD_SB_CLEAN"
    proof (rule ccontr)
      assume "\<not> (working_disks ?c = sb_raid_disks sb1 \<and> \<not> bit (sb_state sb2) MD_SB_CLEAN)"
      then have "md_private (md s1) = Some (c4\<lparr>thread := Some (jmd_wakeup_thread run_thread)\<rparr>)"
        using finish(3) by (auto simp: run_finish_def sy Let_def split: if_splits)
      then show False using assms(2,3) r4 by auto
    qed
    have fin: "run_finish ?re (working_disks ?c \<noteq> sb_raid_disks sb1) (clear_clean sb1 ?c) c4 run_thread ?s =
        Ret (False, run_abort (put_sb sb2 ?s))"
      using go by (simp add: run_finish_def sy Let_def jmd_register_thread_def)
    have reg: "jmd_register_thread (fst (re_thread ?re)) (snd (re_thread ?re)) ''jraid5d'' ''jraid5d'' s = (Some run_thread, ?s)"
      using finish(1) by (simp add: jmd_register_thread_def run_thread_def)
    have "run_start ?re ops sb1 ?c s m = Ret (False, run_abort (put_sb sb2 ?s), m1)"
      by (simp only: run_start_def Let_def reg prod.case option.case finish(2) bind_outcome.simps if_False fin)
    moreover have "jraid5_run ?re ops s m = run_start ?re ops sb1 ?c s m"
    proof -
      have "re_conf re \<and> re_hash re \<and> (sb_level sb = 5 \<or> sb_level sb = 4)"
        using assms(1,4) by (auto simp: jraid5_run_def split: if_splits)
      then show ?thesis using start(1-3) assms(4) by (auto simp: jraid5_run_def Let_def)
    qed
    ultimately show ?thesis by simp
  qed simp_all
qed (use assms in simp_all)

section \<open>Witnesses\<close>

lemma run_faulty_healthy: "(\<And>d. d \<in> set ds \<Longrightarrow> \<not> disk_faulty d) \<Longrightarrow> run_faulty sb ds conf = Ret conf"
  by (induction ds) (simp_all add: Let_def)

lemma mem_example_never_fails:
  "grow_stripes_loop mem_example num conf m = Ret (b, conf', m') \<Longrightarrow> \<not> b"
proof (induction num arbitrary: conf m)
  case (Suc num)
  have pages: "\<not> fst (grow_pages mem_example js sh m)" for js sh m
    by (induction js arbitrary: sh m) (auto simp: mem_example_def split: prod.split)
  have "\<not> fst (grow_buffers mem_example n sh m)" for n sh m by (simp add: grow_buffers_def pages)
  then have "grow_buffers mem_example n sh m = (True, r) \<Longrightarrow> False" for n sh m r by (metis fst_conv)
  then show ?case using Suc.prems
    by (auto simp: Let_def bind_outcome_Ret_iff split: option.splits prod.splits bool.splits dest!: Suc.IH)
       (auto simp: mem_example_def split: prod.splits)
qed simp

definition run_example :: run_env where
  "run_example = \<lparr>re_conf = True, re_hash = True, re_thread = (True, True), re_resync = (True, True)\<rparr>"

lemma example_run_any:
  assumes sb: "md_sb (md s) = Some (sb_example k e)" and nb: "nb_dev (md s) = 2" and mdisks: "mdisks (md s) = [0, 1]"
    and member: "\<And>i. rd_dev (rd s i) = (8, 16 * of_nat i)" "\<And>i. desc_nr (rd s i) = of_nat i"
  shows "\<exists>s' m' c. jraid5_run run_example mem_example s ([], []) = Ret (True, s', m') \<and>
     md_private (md s') = Some c \<and> resync_thread c \<noteq> None"
proof -
  let ?s = s and ?sb = "sb_example k e"
  let ?c = "zero_conf\<lparr>jraid_disks := nb_dev (md ?s), buffer_size := of_nat PAGE_SIZE\<rparr>"
  define sb1 where "sb1 = ?sb\<lparr>sb_disks := mark_member (disk_example 0) # mark_member (disk_example 1) # replicate 25 zero_disk\<rparr>"
  have "\<not> operational (disks ?c ! 0)" "\<not> operational (disks ?c ! 1)" "length (disks ?c) = MD_SB_DISKS"
    by (simp_all add: zero_conf_def MD_SB_DISKS_def zero_disk_info_def)
  then obtain conf1 where rm: "run_members ?s [0, 1] ?sb ?c = Ret (True, sb1, conf1)" "working_disks conf1 = 2"
    by (simp add: run_members_step Let_def sb nb mdisks member sb_example_sel MD_SB_DISKS_def
        disk_example_def take_slot_def word_less_nat_alt sb1_def) (simp add: zero_conf_def)
  have rf: "run_faulty sb1 (take MD_SB_DISKS (sb_disks sb1)) conf1 = Ret conf1"
  proof (rule run_faulty_healthy)
    fix d assume "d \<in> set (take MD_SB_DISKS (sb_disks sb1))"
    then have "d \<in> set (sb_disks sb1)" by (rule in_set_takeD)
    moreover have "\<not> disk_faulty (disk_example k)" "\<not> disk_faulty zero_disk" for k
      by (simp_all add: disk_faulty_def disk_example_def zero_disk_def)
    ultimately show "\<not> disk_faulty d" by (auto simp: sb1_def)
  qed
  define c3 where "c3 = run_params sb1 conf1"
  have c3: "working_disks c3 = 2" "raid_disks c3 = 2" "run_checks c3"
    using rm(2) by (simp_all add: c3_def run_params_def run_checks_def sb1_def sb_example_sel algorithm_defs)
  have set_up: "cache_inv (\<lambda>_. 0) c3" "live c3 = []"
    using run_setup [of ?sb ?s sb1 conf1 conf1] rm(1) rf
    by (simp_all add: c3_def sb nb mdisks sb_example_sel MD_SB_DISKS_def)
  obtain bg c4 m' where g: "grow_stripes mem_example NR_STRIPES (c3\<lparr>thread := Some run_thread\<rparr>) ([], []) = Ret (bg, c4, m')"
    using grow_stripes_ok [OF mem_example_ok cache_inv_cong [OF set_up(1)] acct_empty, of "c3\<lparr>thread := Some run_thread\<rparr>"
        NR_STRIPES "([], [])"] set_up(2) by auto
  have "cache_create mem_example ([], []) = Some ([], [])" by (simp add: mem_example_def)
  with g have ok: "\<not> bg" using mem_example_never_fails [of NR_STRIPES] by (simp add: grow_stripes_def) blast
  have cc: "clear_clean sb1 c3 = sb1" by (simp add: clear_clean_def sb1_def sb_example_sel)
  obtain sb2 where sy: "run_sync c4 sb1 = Ret sb2" by (simp add: run_sync_def sb1_def sb_example_sel MD_SB_DISKS_def)
  then have clean: "\<not> bit (sb_state sb2) MD_SB_CLEAN" using run_sync_same by (fastforce simp: sb1_def sb_example_sel)
  have "working_disks c3 = sb_raid_disks sb1" using c3(1) by (simp add: sb1_def sb_example_sel)
  then have start: "\<exists>s' c. run_start run_example mem_example sb1 c3 ?s ([], []) = Ret (True, s', m') \<and>
      md_private (md s') = Some c \<and> resync_thread c \<noteq> None"
    using g ok clean
    by (simp add: run_start_def run_finish_def Let_def jmd_register_thread_def run_example_def run_thread_def cc sy)
  have "jraid5_run run_example mem_example ?s ([], []) = run_start run_example mem_example sb1 c3 ?s ([], [])"
    using rm(1) rf c3(3) by (simp add: jraid5_run_def Let_def sb nb mdisks sb_example_sel run_example_def c3_def)
  then show ?thesis using start by auto
qed

lemma example_run:
  "\<exists>s' m' c. jraid5_run run_example mem_example sized_example ([], []) = Ret (True, s', m') \<and>
     md_private (md s') = Some c \<and> resync_thread c \<noteq> None"
  by (rule example_run_any) (simp_all add: sized_example_sel asm_example_sel)


definition slots_example :: jraid5_conf where
  "slots_example = zero_conf\<lparr>disks := (replicate MD_SB_DISKS zero_disk_info)
     [0 := zero_disk_info\<lparr>operational := True, used_slot := True, di_dev := (8, 0), di_jrdev := Some 0\<rparr>],
     working_disks := 1\<rparr>"

lemma stop_thread_simps [simp]:
  "md (stop_thread th s) = md s" "pers_table (stop_thread th s) = pers_table s"
  "kthreads (stop_thread th s) = (case th of None \<Rightarrow> kthreads s | Some t \<Rightarrow> remove1 (th_name t) (kthreads s))"
  by (simp_all add: stop_thread_def jmd_unregister_thread_def jmd_interrupt_thread_def remove1_idem split: option.split)



end
