(* ===== verification/Jmd_Run.thy ===== *)
theory Jmd_Run
  imports Jmd_Super Raid5_Run
begin

text \<open>
  Assembling and running an array, \<^verbatim>\<open>src/src/jmd.c\<close>: \<open>jmddev_size\<close>, \<open>add_store\<close> (the sysfs file
  \<open>add\<close>), \<open>do_jmd_run\<close>, \<open>jmddev_init\<close>, \<open>jmd_open\<close>, \<open>jmd_release\<close> and \<open>jmd_make_request\<close>.

  The personality's \<open>run\<close> is a function pointer of the code and an argument here; the locale
  \<open>raid_personality\<close> says what \<open>do_jmd_run\<close> relies on, and RAID-5 provides it.
\<close>

unbundle bit_operations_syntax

section \<open>The code\<close>

definition MAX_CHUNK_SIZE :: nat where "MAX_CHUNK_SIZE = 4096 * 1024"

definition jmddev_size :: "jmddev \<Rightarrow> cint \<Rightarrow> sector_t" where
  "jmddev_size d n =
     (case md_sb d of
        None \<Rightarrow> 0
      | Some sb \<Rightarrow>
          (ucast (sb_size sb div 2) AND NOT (scast (chunk_sectors_md d) - 1)) * scast (n - 1))"

text \<open>\<open>ffz\<close>, the number of the first zero bit of a word of 64 bits.\<close>

definition ffz :: "u64 \<Rightarrow> nat" where
  "ffz w = length (takeWhile (bit w) [0..<64])"

text \<open>The test of \<open>do_jmd_run\<close> that the chunk size is a power of two.\<close>

definition is_power :: "cint \<Rightarrow> bool" where
  "is_power c \<longleftrightarrow> push_bit (ffz (NOT (scast c))) (1 :: u32) = c"

definition chunk_check :: "cint \<Rightarrow> bool" where
  "chunk_check c \<longleftrightarrow> \<not> int MAX_CHUNK_SIZE < sint c \<and> is_power c \<and> \<not> scast c < (of_nat PAGE_SIZE :: u64)"

text \<open>
  The end of \<open>do_jmd_run\<close>, after the size calculation: the personality runs the array, the
  superblock is marked not clean and written.
\<close>

definition run_personality :: "env \<Rightarrow> mem_answers \<Rightarrow> (jmd_state \<Rightarrow> 'm \<Rightarrow> (bool \<times> jmd_state \<times> 'm) outcome) \<Rightarrow>
    nat \<Rightarrow> jmd_state \<Rightarrow> sb_io \<Rightarrow> 'm \<Rightarrow> (errno option \<times> jmd_state \<times> sb_io \<times> 'm) outcome" where
  "run_personality ev mem run pnum s io m =
     bind_outcome (run (upd_md (\<lambda>d. d\<lparr>md_pers := Some pnum\<rparr>) s) m) (\<lambda>(b, s1, m1).
       if \<not> b then Ret (Some EINVAL, upd_md (\<lambda>d. d\<lparr>md_pers := None\<rparr>) s1, io, m1)
       else case md_sb (md s1) of
         None \<Rightarrow> Bug
       | Some sb \<Rightarrow>
           bind_outcome (jmd_update_sb ev mem (put_sb (sb\<lparr>sb_state := unset_bit MD_SB_CLEAN (sb_state sb)\<rparr>) s1, io))
             (\<lambda>(s2, io2). Ret (None, s2\<lparr>hd_nr_sects := scast (push_bit 1 (jmd_size s2))\<rparr>, io2, m1)))"

definition do_jmd_run :: "env \<Rightarrow> mem_answers \<Rightarrow> (jmd_state \<Rightarrow> 'm \<Rightarrow> (bool \<times> jmd_state \<times> 'm) outcome) \<Rightarrow>
    jmd_state \<Rightarrow> sb_io \<Rightarrow> 'm \<Rightarrow> (errno option \<times> jmd_state \<times> sb_io \<times> 'm) outcome" where
  "do_jmd_run ev mem run s io m =
     (if nb_dev (md s) = 0 then Ret (Some EINVAL, s, io, m)
      else if md_pers (md s) \<noteq> None then Ret (Some EBUSY, s, io, m)
      else
        bind_outcome (analyze_sbs ev (s\<lparr>jmd_size := 0\<rparr>)) (\<lambda>(ok, s1).
          if \<not> ok then Ret (Some EINVAL, s1, io, m)
          else case md_sb (md s1) of
            None \<Rightarrow> Bug
          | Some sb \<Rightarrow>
              let c = sb_chunk_size sb; pnum = level_to_pers (sint (sb_level sb));
                  s2 = upd_md (\<lambda>d. d\<lparr>param := \<lparr>pm_personality = pnum, pm_chunk_size = c\<rparr>\<rparr>) s1
              in if \<not> chunk_check c then Ret (Some EINVAL, s2, io, m)
                 else if MAX_PERSONALITY \<le> pnum then Ret (Some EINVAL, s2, io, m)
                 else if pnum \<noteq> RAID1 \<and> pnum \<noteq> LINEAR \<and> c = 0 then Ret (Some EINVAL, s2, io, m)
                 else if pers_table s2 pnum = None then Ret (Some EINVAL, s2, io, m)
                 else bind_outcome (device_size_calculation ev s2) (\<lambda>(r, s3).
                   if r \<noteq> 0 then Ret (Some EINVAL, s3, io, m)
                   else run_personality ev mem run pnum s3 io m)))"

text \<open>
  \<open>add_store\<close>. What \<open>sscanf\<close> leaves in the variables, the device the path names and the answers
  of \<open>kzalloc\<close> are arguments; the result of \<open>blkdev_get_by_path\<close> is not tested.
\<close>

record add_args =
  aa_total :: u32
  aa_jrdev :: u32
  aa_bdev :: "dev_t option"
  aa_mem :: "bool \<times> bool \<times> bool"

definition add_store :: "env \<Rightarrow> mem_answers \<Rightarrow> (jmd_state \<Rightarrow> 'm \<Rightarrow> (bool \<times> jmd_state \<times> 'm) outcome) \<Rightarrow>
    add_args \<Rightarrow> jmd_state \<Rightarrow> sb_io \<Rightarrow> 'm \<Rightarrow> (errno option \<times> jmd_state \<times> sb_io \<times> 'm) outcome" where
  "add_store ev mem run a s io m =
     (let (mem1, mem2, mem3) = aa_mem a in
      if \<not> mem1 then Ret (Some ENOMEM, s, io, m)
      else if \<not> mem2 then Ret (Some ENOMEM, s, io, m)
      else if \<not> mem3 then Ret (Some ENOMEM, s, io, m)
      else case aa_bdev a of
        None \<Rightarrow> Bug
      | Some dv \<Rightarrow>
          let ai = array_info_init\<lparr>ai_nr_disks := aa_total a, ai_raid_disks := aa_total a\<rparr>;
              info = \<lparr>in_number = aa_jrdev a, in_major = fst dv, in_minor = snd dv, in_raid_disk = aa_jrdev a,
                in_state = 0\<rparr>;
              s1 = (if nb_dev (md s) = 0 then snd (set_array_info ev ai s) else s)
          in bind_outcome (add_new_disk ev info s1) (\<lambda>(_, s2).
               if nb_dev (md s2) = aa_total a then
                 let sectors = jmddev_size (md s2) (aa_total a + 1);
                     s3 = (upd_md (\<lambda>d. d\<lparr>array_sectors := sectors\<rparr>) s2)\<lparr>capacity := sectors\<rparr>
                 in bind_outcome (do_jmd_run ev mem run s3 io m) (\<lambda>(_, s4, io4, m4). Ret (None, s4, io4, m4))
               else Ret (None, s2, io, m)))"

definition jmddev_init :: "jmddev \<Rightarrow> jmddev" where
  "jmddev_init d = d\<lparr>nb_dev := 0, md_private := None, mdisks := [], openers := 0\<rparr>"

text \<open>
  \<open>jmd_open\<close> of the global device: absent, discarded by another task, or open once more. Whether the
  opened disk is the device's, and whether its \<open>private_data\<close> is the device, are arguments.
\<close>

definition jmd_open :: "jmddev option \<Rightarrow> bool \<Rightarrow> bool \<Rightarrow> (errno option \<times> jmddev option) outcome" where
  "jmd_open g same_disk same_private =
     (case g of
        None \<Rightarrow> Ret (Some ENODEV, None)
      | Some d \<Rightarrow>
          if \<not> same_disk then Ret (Some ERESTARTSYS, g)
          else if \<not> same_private then Bug
          else Ret (None, Some (d\<lparr>openers := openers d + 1\<rparr>)))"

definition jmd_release :: "jmddev option \<Rightarrow> jmddev option outcome" where
  "jmd_release g = (case g of None \<Rightarrow> Bug | Some d \<Rightarrow> Ret (Some (d\<lparr>openers := openers d - 1\<rparr>)))"

text \<open>\<open>Inl 0\<close>: the bio was ended, with status 0; \<open>Inr\<close>: what the personality answered.\<close>

definition jmd_make_request :: "jmddev option \<Rightarrow> (jmddev \<Rightarrow> 'b \<Rightarrow> 'r) \<Rightarrow> 'b \<Rightarrow> int + 'r" where
  "jmd_make_request q mk bi =
     (case q of
        None \<Rightarrow> Inl 0
      | Some d \<Rightarrow> (case md_pers d of None \<Rightarrow> Inl 0 | Some _ \<Rightarrow> Inr (mk d bi)))"

section \<open>What the parts keep\<close>

lemma freshest_loop_md:
  "freshest_loop ev js fr s = (fr', s') \<Longrightarrow> md s' = md s \<and> all_jraid_disks s' = all_jraid_disks s"
  by (induction js arbitrary: fr s) (auto simp: Let_def)

lemma put_sb_pers: "md_pers (md (put_sb sb s)) = md_pers (md s)" "mdisks (md (put_sb sb s)) = mdisks (md s)"
  by simp_all

lemma analyze_frame:
  assumes "analyze_sbs ev s = Ret (b, s')"
  shows "md_pers (md s') = md_pers (md s) \<and> mdisks (md s') = mdisks (md s) \<and> all_jraid_disks s' = all_jraid_disks s"
proof -
  obtain e s0 where al: "(if md_sb (md s) = None then alloc_array_sb ev s else (None, s)) = (e, s0)" by fastforce
  have s0: "md_pers (md s0) = md_pers (md s)" "mdisks (md s0) = mdisks (md s)" "all_jraid_disks s0 = all_jraid_disks s"
    using al by (auto simp: alloc_array_sb_def split: if_splits option.splits)
  obtain fr s1 where fl: "freshest_loop ev (mdisks (md s0)) None s0 = (fr, s1)" by fastforce
  note s1 = freshest_loop_md [OF fl]
  note run = assms [unfolded analyze_sbs_def al Let_def prod.case fl]
  show ?thesis
  proof (cases "members_ok s \<and> e = None")
    case False
    then show ?thesis using run s0 by (auto split: if_splits)
  next
    case True
    then obtain f where f: "fr = Some f" using run by (auto split: option.splits)
    then obtain ok sb s2 where rl: "rename_loop (mdisks (md s1)) (the (rd_sb (rd s1 f))) s1 = Ret (ok, sb, s2)"
      using run True by (auto split: outcome.splits)
    then have "md s2 = md s1" "all_jraid_disks s2 = all_jraid_disks s1" using rename_loop_frame by blast+
    then show ?thesis using run True f rl s0 s1 by (auto split: if_splits bool.splits)
  qed
qed

lemma zoned_frame: "md (zoned_jraid_size s) = md s"
proof -
  have "md (fold (\<lambda>i s. (upd_rd i (g i s) s)\<lparr>jmd_size := h i s\<rparr>) js s) = md s" for g h js s
    by (induction js arbitrary: s) simp_all
  then show ?thesis by (simp add: zoned_jraid_size_def Let_def split: option.split)
qed

lemma size_loop_frame: "size_loop ev sb js s = (b, s') \<Longrightarrow> md s' = md s"
  by (induction js arbitrary: s) (auto simp: Let_def split: if_splits)

lemma device_size_md: "device_size_calculation ev s = Ret (r, s') \<Longrightarrow> md s' = md s"
  using size_loop_frame
  by (auto simp: device_size_calculation_def Let_def zoned_frame split: option.splits prod.splits bool.splits if_splits)

section \<open>Chunk sizes\<close>

lemma takeWhile_upt:
  assumes "\<And>i. i < k \<Longrightarrow> P i" "\<not> P k" "k < n"
  shows "length (takeWhile P [0..<n]) = k"
proof -
  have "[0..<n] = [0..<k] @ [k..<n]" using assms(3) upt_add_eq_append [of 0 k "n - k"] by simp
  moreover have "takeWhile P ([0..<k] @ [k..<n]) = [0..<k] @ takeWhile P [k..<n]"
    by (rule takeWhile_append2) (use assms(1) in simp)
  ultimately have "takeWhile P [0..<n] = [0..<k] @ takeWhile P [k..<n]" by (simp only:)
  also have "takeWhile P [k..<n] = []" using assms(2,3) by (simp add: upt_conv_Cons)
  finally show ?thesis by simp
qed

lemma unat_exp2_u32:
  assumes "k < 32"
  shows "unat (2 ^ k :: u32) = 2 ^ k"
proof -
  have "(2 :: nat) ^ k < 2 ^ 32" using assms by (intro power_strict_increasing) auto
  then have "unat (of_nat (2 ^ k) :: u32) = 2 ^ k" by (simp add: unat_of_nat del: of_nat_power)
  then show ?thesis by simp
qed

lemma ffz_power:
  assumes "k < 32"
  shows "ffz (NOT (scast (2 ^ k :: u32))) = k"
  unfolding ffz_def
proof (rule takeWhile_upt)
  show "bit (NOT (scast (2 ^ k :: u32)) :: u64) i" if "i < k" for i using that assms by (auto simp: bit_simps)
  show "\<not> bit (NOT (scast (2 ^ k :: u32)) :: u64) k" using assms by (auto simp: bit_simps)
qed (use assms in simp)

lemma chunk_check_power:
  assumes "k < 32"
  shows "chunk_check (2 ^ k) \<longleftrightarrow> 12 \<le> k \<and> k \<le> 22 \<or> k = 31"
proof (cases "k = 31")
  case True
  have "is_power (2 ^ k)" using assms by (simp add: is_power_def ffz_power push_bit_eq_mult)
  moreover have "sint (2 ^ 31 :: u32) < 0" "(4096 :: u64) \<le> scast (2 ^ 31 :: u32)" by simp_all
  ultimately show ?thesis using True by (simp add: chunk_check_def MAX_CHUNK_SIZE_def PAGE_SIZE_def not_less)
next
  case False
  note u = unat_exp2_u32 [OF assms]
  have less: "(2 :: nat) ^ k < 2 ^ 31" using assms False by (intro power_strict_increasing) auto
  then have n: "nonneg (2 ^ k)" unfolding nonneg_def u by simp
  have "int MAX_CHUNK_SIZE < sint (2 ^ k :: u32) \<longleftrightarrow> (2 :: nat) ^ 22 < 2 ^ k"
    unfolding sint_nonneg [OF n] u of_nat_less_iff by (simp add: MAX_CHUNK_SIZE_def)
  moreover have "scast (2 ^ k :: u32) < (of_nat PAGE_SIZE :: u64) \<longleftrightarrow> (2 :: nat) ^ k < 2 ^ 12"
    using unat_scast_nonneg [OF n] u by (simp add: word_less_nat_alt PAGE_SIZE_def)
  moreover have "is_power (2 ^ k)" using assms by (simp add: is_power_def ffz_power push_bit_eq_mult)
  ultimately show ?thesis using False assms
    by (simp only: chunk_check_def power_strict_increasing_iff one_less_numeral_iff semiring_norm) auto
qed

lemma is_power_cases:
  assumes "is_power c"
  shows "c = 0 \<or> (\<exists>k < 32. c = 2 ^ k)"
proof (cases "ffz (NOT (scast c)) < 32")
  case True
  then show ?thesis using assms by (auto simp: is_power_def push_bit_eq_mult)
next
  case False
  have "(2 :: u32) ^ ffz (NOT (scast c)) = 0" by (simp only: exp_eq_zero_iff) (use False in simp)
  then show ?thesis using assms by (simp only: is_power_def push_bit_eq_mult mult_1 simp_thms)
qed

lemma chunk_check_iff: "chunk_check c \<longleftrightarrow> (\<exists>k. c = 2 ^ k \<and> (12 \<le> k \<and> k \<le> 22 \<or> k = 31))"
proof
  assume c: "chunk_check c"
  then have "c \<noteq> 0" by (auto simp: chunk_check_def PAGE_SIZE_def)
  then obtain k where k: "k < 32" "c = 2 ^ k" using is_power_cases c by (auto simp: chunk_check_def)
  then have "12 \<le> k \<and> k \<le> 22 \<or> k = 31" using c chunk_check_power by simp
  then show "\<exists>k. c = 2 ^ k \<and> (12 \<le> k \<and> k \<le> 22 \<or> k = 31)" using k by blast
next
  assume "\<exists>k. c = 2 ^ k \<and> (12 \<le> k \<and> k \<le> 22 \<or> k = 31)"
  then obtain k where k: "c = 2 ^ k" "12 \<le> k \<and> k \<le> 22 \<or> k = 31" by blast
  then have "k < 32" by auto
  then show "chunk_check c" using chunk_check_power k by blast
qed

section \<open>What a personality promises\<close>

locale raid_personality =
  fixes run :: "jmd_state \<Rightarrow> 'm \<Rightarrow> (bool \<times> jmd_state \<times> 'm) outcome"
  assumes run_kept: "run s m = Ret (b, s', m') \<Longrightarrow> md_sb (md s) = Some sb \<Longrightarrow>
      length (sb_disks sb) = MD_SB_DISKS \<Longrightarrow> kept s s' \<and> (\<exists>sb'. md_sb (md s') = Some sb' \<and> same_array sb sb')"
    and run_private: "run s m = Ret (True, s', m') \<Longrightarrow> md_sb (md s) = Some sb \<Longrightarrow>
      length (sb_disks sb) = MD_SB_DISKS \<Longrightarrow> md_private (md s') \<noteq> None"
begin

lemma run_personality_outcome:
  assumes "run_personality ev mem run pnum s io m = Ret (e, s', io', m')"
    and "md_sb (md s) = Some sb" "length (sb_disks sb) = MD_SB_DISKS"
  shows "mdisks (md s') = mdisks (md s) \<and> all_jraid_disks s' = all_jraid_disks s \<and>
    (e = None \<longrightarrow> md_pers (md s') = Some pnum \<and> md_private (md s') \<noteq> None \<and>
       (\<exists>sb' k. md_sb (md s') = Some sb' \<and> \<not> bit (sb_state sb') MD_SB_CLEAN \<and> 1 \<le> k \<and>
          sb_chunk_size sb' = sb_chunk_size sb \<and>
          unat (jmd_event sb') = min (unat (jmd_event sb) + k) (2 ^ 64 - 1))) \<and>
    (e \<noteq> None \<longrightarrow> e = Some EINVAL \<and> md_pers (md s') = None \<and> io' = io)"
proof -
  let ?s = "upd_md (\<lambda>d. d\<lparr>md_pers := Some pnum\<rparr>) s"
  obtain b s1 m1 where r: "run ?s m = Ret (b, s1, m1)"
    using assms(1) by (auto simp: run_personality_def bind_outcome_Ret_iff)
  have sb0: "md_sb (md ?s) = Some sb" using assms(2) by simp
  obtain sb1 where k: "kept ?s s1" "md_sb (md s1) = Some sb1" "same_array sb sb1"
    using run_kept [OF r sb0 assms(3)] by blast
  have k1: "mdisks (md s1) = mdisks (md s) \<and> all_jraid_disks s1 = all_jraid_disks s \<and> md_pers (md s1) = Some pnum"
    using k(1) by (simp add: kept_def) (metis jmddev.select_convs(2,4) jmddev.surjective jmddev.update_convs(1,4,11))
  show ?thesis
  proof (cases b)
    case False
    then show ?thesis using assms(1) r k1 by (auto simp: run_personality_def)
  next
    case True
    let ?sb = "sb1\<lparr>sb_state := unset_bit MD_SB_CLEAN (sb_state sb1)\<rparr>"
    obtain s2 io2 where u: "jmd_update_sb ev mem (put_sb ?sb s1, io) = Ret (s2, io2)"
      "e = None" "s' = s2\<lparr>hd_nr_sects := scast (push_bit 1 (jmd_size s2))\<rparr>" "io' = io2"
      using assms(1) r True k(2) by (auto simp: run_personality_def bind_outcome_Ret_iff)
    have "update_loop ev mem 100 ?sb (put_sb ?sb s1, io) = (s2, io2)" using u(1) by (simp add: jmd_update_sb_def)
    from update_loop_effect [OF _ this] obtain n where n: "1 \<le> n" "md_sb (md s2) = Some ((bump_events (ev_time ev) ^^ n) ?sb)"
      "mdisks (md s2) = mdisks (md s1)" "all_jraid_disks s2 = all_jraid_disks s1" by auto
    have "md_pers (md s2) = md_pers (md s1)" "md_private (md s2) = md_private (md s1)"
      using update_loop_effect [OF _ \<open>update_loop ev mem 100 ?sb (put_sb ?sb s1, io) = (s2, io2)\<close>] by auto
    moreover have "md_private (md s1) \<noteq> None" using run_private [OF _ sb0 assms(3), of m s1 m1] r True by simp
    moreover have "\<not> bit (sb_state ((bump_events (ev_time ev) ^^ n) ?sb)) MD_SB_CLEAN"
      by (simp add: bump_events_iter_keeps bit_unset_bit_iff)
    moreover have "jmd_event ?sb = jmd_event sb" "sb_chunk_size ?sb = sb_chunk_size sb"
      using k(3) by (simp_all add: same_array_def jmd_event_def)
    moreover note bump_events_iter_keeps(2) [of n "ev_time ev" ?sb]
    ultimately show ?thesis using n u(2-4) k1 bump_events_iter [where sb = ?sb and k = n] by auto
  qed
qed

lemma do_jmd_run_outcome:
  assumes "do_jmd_run ev mem run s io m = Ret (e, s', io', m')"
    and "distinct (mdisks (md s))" "sbs_full s"
  shows "mdisks (md s') = mdisks (md s) \<and>
    (e = None \<longrightarrow> md_pers (md s) = None \<and> md_pers (md s') \<noteq> None \<and> md_private (md s') \<noteq> None \<and>
       (\<exists>sb'. md_sb (md s') = Some sb' \<and> \<not> bit (sb_state sb') MD_SB_CLEAN \<and> chunk_check (sb_chunk_size sb') \<and>
          (\<forall>i \<in> set (mdisks (md s)). min (unat (aged_event ev s i) + 1) (2 ^ 64 - 1) \<le> unat (jmd_event sb')))) \<and>
    (e \<noteq> None \<longrightarrow> md_pers (md s') = md_pers (md s) \<and> io' = io)"
proof (cases "nb_dev (md s) = 0 \<or> md_pers (md s) \<noteq> None")
  case True
  then show ?thesis using assms(1) by (auto simp: do_jmd_run_def split: if_splits)
next
  case False
  let ?s0 = "s\<lparr>jmd_size := 0\<rparr>"
  obtain ok s1 where an: "analyze_sbs ev ?s0 = Ret (ok, s1)"
    using assms(1) False by (auto simp: do_jmd_run_def bind_outcome_Ret_iff)
  note fr = analyze_frame [OF an]
  note run = assms(1) [unfolded do_jmd_run_def an Let_def bind_outcome.simps prod.case]
  show ?thesis
  proof (cases ok)
    case no: False
    then show ?thesis using run fr False by auto
  next
    case True
    have "distinct (mdisks (md ?s0))" "sbs_full ?s0" using assms(2,3) by (simp_all add: sbs_full_def)
    moreover have "analyze_sbs ev ?s0 = Ret (True, s1)" using an True by simp
    ultimately obtain sb where sb: "md_sb (md s1) = Some sb"
      "length (sb_disks sb) = MD_SB_DISKS"
      and fresh: "\<forall>i \<in> set (mdisks (md s)). aged_event ev ?s0 i \<le> jmd_event sb"
      using analyze_sbs_sound [of ?s0 ev s1] by auto
    let ?p = "level_to_pers (sint (sb_level sb))" and ?c = "sb_chunk_size sb"
    let ?s2 = "upd_md (\<lambda>d. d\<lparr>param := \<lparr>pm_personality = ?p, pm_chunk_size = ?c\<rparr>\<rparr>) s1"
    show ?thesis
    proof (cases "chunk_check ?c \<and> \<not> MAX_PERSONALITY \<le> ?p \<and> \<not> (?p \<noteq> RAID1 \<and> ?p \<noteq> LINEAR \<and> ?c = 0) \<and> pers_table ?s2 ?p \<noteq> None")
      case no: False
      then show ?thesis using run True sb(1) fr False by (auto split: if_splits)
    next
      case checks: True
      then obtain r s3 where ds: "device_size_calculation ev ?s2 = Ret (r, s3)"
        using run True sb(1) False by (auto simp: bind_outcome_Ret_iff)
      have md3: "md s3 = md ?s2" by (rule device_size_md [OF ds])
      show ?thesis
      proof (cases "r = 0")
        case no: False
        then show ?thesis using run True sb(1) fr False checks ds md3 by auto
      next
        case r: True
        have rp: "run_personality ev mem run ?p s3 io m = Ret (e, s', io', m')"
          using run True sb(1) False checks ds r by auto
        have sb3: "md_sb (md s3) = Some sb" using sb(1) md3 by simp
        note out = run_personality_outcome [OF rp sb3 sb(2)]
        have le: "unat (aged_event ev s i) \<le> unat (jmd_event sb)" if "i \<in> set (mdisks (md s))" for i
          using fresh that by (simp add: aged_event_def word_le_nat_alt)
        have "min (unat (aged_event ev s i) + 1) (2 ^ 64 - 1) \<le> min (unat (jmd_event sb) + k) (2 ^ 64 - 1)"
          if "i \<in> set (mdisks (md s))" "1 \<le> k" for i k
          using le [OF that(1)] that(2) by linarith
        then show ?thesis using out md3 fr False checks by (auto simp del: min.bounded_iff)
      qed
    qed
  qed
qed

end

interpretation jraid5: raid_personality "jraid5_run re ops" for re :: run_env and ops :: "'m mem_ops"
proof
  fix s s' :: jmd_state and m m' :: 'm and b sb
  assume "jraid5_run re ops s m = Ret (b, s', m')" "md_sb (md s) = Some sb" "length (sb_disks sb) = MD_SB_DISKS"
  from jraid5_run_keeps [OF this]
  show "kept s s' \<and> (\<exists>sb'. md_sb (md s') = Some sb' \<and> same_array sb sb')" by blast
next
  fix s s' :: jmd_state and m m' :: 'm and sb
  assume "jraid5_run re ops s m = Ret (True, s', m')" "md_sb (md s) = Some sb" "length (sb_disks sb) = MD_SB_DISKS"
  from jraid5_run_keeps [OF this] show "md_private (md s') \<noteq> None" by blast
qed

section \<open>Running an array\<close>

text \<open>
  C23 A successful \<open>do_jmd_run\<close> over RAID-5: the array was not running and now runs, with a
  configuration in \<open>private\<close>; its superblock is not clean, has an acceptable chunk size and an event
  counter above that of every member's superblock, unless it is at its maximum. A failing one leaves
  the array as it was: not running, with the same members, and nothing is written to a disk.
\<close>

theorem do_jmd_run_correct:
  assumes "do_jmd_run ev mem (jraid5_run re ops) s io m = Ret (e, s', io', m')"
    and "distinct (mdisks (md s))" "sbs_full s"
  shows "mdisks (md s') = mdisks (md s) \<and>
    (e = None \<longrightarrow> md_pers (md s) = None \<and> md_pers (md s') \<noteq> None \<and> md_private (md s') \<noteq> None \<and>
       (\<exists>sb'. md_sb (md s') = Some sb' \<and> \<not> bit (sb_state sb') MD_SB_CLEAN \<and> chunk_check (sb_chunk_size sb') \<and>
          (\<forall>i \<in> set (mdisks (md s)). min (unat (aged_event ev s i) + 1) (2 ^ 64 - 1) \<le> unat (jmd_event sb')))) \<and>
    (e \<noteq> None \<longrightarrow> md_pers (md s') = md_pers (md s) \<and> io' = io)"
  by (rule jraid5.do_jmd_run_outcome [OF assms])

lemma example_do_run:
  "\<exists>s' io' m'. do_jmd_run ev_example (\<lambda>_. (True, True)) (jraid5_run run_example mem_example) asm_example
     io_start ([], []) = Ret (None, s', io', m')"
proof -
  let ?run = "jraid5_run run_example mem_example"
  have start: "asm_example\<lparr>jmd_size := 0\<rparr> = asm_example" "md_pers (md asm_example) = None"
    "pers_table asm_example = [RAID5 \<mapsto> ''jraid5'']" by (simp_all add: asm_example_def md_example_def)
  obtain k e where an: "analyze_sbs ev_example asm_example = Ret (True, put_sb (sb_example k e) asm_example)"
    using asm_example_run by blast
  define s2 where "s2 = upd_md (\<lambda>d. d\<lparr>param := \<lparr>pm_personality = RAID5, pm_chunk_size = 32768\<rparr>\<rparr>)
    (put_sb (sb_example k e) asm_example)"
  have s2: "mdisks (md s2) = [0, 1]" "rd s2 = rd asm_example" "md_sb (md s2) = Some (sb_example k e)"
    "nb_dev (md s2) = 2" by (simp_all add: s2_def asm_example_sel)
  then obtain s3 where ds: "device_size_calculation ev_example s2 = Ret (0, s3)"
    using example_device_size [of s2 k e] by (auto simp: asm_example_sel)
  have s3: "md s3 = md s2" "\<And>i. rd_dev (rd s3 i) = (8, 16 * of_nat i)" "\<And>i. desc_nr (rd s3 i) = of_nat i"
    using device_size_calculation_raid5 [OF _ s2(3) _ ds] by (simp_all add: s2 sb_example_sel asm_example_sel)
  let ?s4 = "upd_md (\<lambda>d. d\<lparr>md_pers := Some RAID5\<rparr>) s3"
  obtain s5 m5 c where run: "?run ?s4 ([], []) = Ret (True, s5, m5)" "md_private (md s5) = Some c"
    using example_run_any [of ?s4 k e] s3 by (auto simp: s2)
  have "length (sb_disks (sb_example k e)) = MD_SB_DISKS" by (simp add: sb_example_sel MD_SB_DISKS_def)
  then obtain sb5 where sb5: "md_sb (md s5) = Some sb5"
    using jraid5.run_kept [OF run(1), of "sb_example k e"] by (auto simp: s3 s2)
  have "\<exists>s' io' m'. run_personality ev_example (\<lambda>_. (True, True)) ?run RAID5 s3 io_start ([], []) = Ret (None, s', io', m')"
    by (simp add: run_personality_def run(1) sb5 jmd_update_sb_def split_beta)
  moreover have "(2 :: u32) ^ 15 = 32768" by simp
  then have "chunk_check 32768" unfolding chunk_check_iff by (intro exI [of _ 15]) simp
  ultimately show ?thesis
    by (simp add: do_jmd_run_def start an asm_example_sel sb_example_sel level_to_pers_def pers_defs
        ds [unfolded s2_def pers_defs] Let_def)
qed

theorem do_jmd_run_correct_witness:
  "\<exists>s' io' m' sb'. do_jmd_run ev_example (\<lambda>_. (True, True)) (jraid5_run run_example mem_example) asm_example
     io_start ([], []) = Ret (None, s', io', m') \<and> md_private (md s') \<noteq> None \<and> md_sb (md s') = Some sb' \<and>
     5 \<le> unat (jmd_event sb')"
proof -
  obtain s' io' m' where run: "do_jmd_run ev_example (\<lambda>_. (True, True)) (jraid5_run run_example mem_example) asm_example
     io_start ([], []) = Ret (None, s', io', m')" using example_do_run by blast
  have "aged_event ev_example asm_example 0 = 4"
    by (simp add: aged_event_def asm_example_sel sb_example_csum jmd_event_def sb_example_sel)
  with do_jmd_run_correct [OF run asm_example_wf(1,2)] run show ?thesis by (auto simp: asm_example_sel)
qed

text \<open>
  The chunk sizes \<open>do_jmd_run\<close> accepts are the powers of two from one page to 4 MiB, and
  \<open>2 ^ 31\<close>: as a negative \<open>int\<close> it passes the comparison with the maximum, and sign-extended it passes
  the comparison with the page size.
\<close>

lemma chunk_check_accepts:
  "chunk_check c \<longleftrightarrow> (\<exists>k. c = 2 ^ k \<and> (12 \<le> k \<and> k \<le> 22 \<or> k = 31))"
  by (rule chunk_check_iff)

section \<open>The capacity of the array\<close>

lemma and_not_mask: "(w :: u64) AND NOT (mask k) = push_bit k (drop_bit k w)"
  by (rule bit_eqI) (auto simp: bit_simps)

lemma chunk_floor:
  fixes size :: u32
  shows "unat ((ucast (size div 2) :: u64) AND NOT (scast (16384 :: u32) - 1)) = unat size div 32768 * 16384"
proof -
  have m: "scast (16384 :: u32) - 1 = (mask 14 :: u64)" by (simp add: mask_eq_exp_minus_1)
  let ?w = "ucast (size div 2) :: u64"
  have less: "unat size < 4294967296" using unsigned_less [of size] by simp
  then have "unat size div 2 < 18446744073709551616" by linarith
  then have u: "unat ?w = unat size div 2" by (simp add: unsigned_ucast_eq take_bit_nat_eq_self_iff unat_div)
  have "unat size div 2 div 16384 * 16384 < 18446744073709551616" using less by linarith
  then have "unat ?w div 2 ^ 14 * 2 ^ 14 < 2 ^ 64" unfolding u by simp
  then have "unat (push_bit 14 (drop_bit 14 ?w)) = unat ?w div 2 ^ 14 * 2 ^ 14"
    unfolding unsigned_push_bit_eq unsigned_drop_bit_eq
    using unsigned_less [of ?w] by (simp only: push_bit_eq_mult drop_bit_eq_div take_bit_nat_eq_self_iff) (simp add: take_bit_nat_eq_self)
  then show ?thesis unfolding m and_not_mask u by (simp add: div_mult2_eq [symmetric])
qed

text \<open>
  The capacity \<open>add_store\<close> publishes for \<open>n\<close> members, with the chunk size \<open>set_array_info\<close> sets: half a
  member's size, rounded down to chunks, times \<open>n\<close>. It never exceeds the data area of \<open>n - 1\<close>
  members.
\<close>

lemma capacity_within_data:
  assumes "md_sb d = Some sb" "chunk_sectors_md d = 16384" "2 \<le> unat n" "unat n < 2 ^ 31"
  shows "unat (jmddev_size d (n + 1)) = unat (sb_size sb) div 32768 * 16384 * unat n \<and>
    unat (jmddev_size d (n + 1)) \<le> unat (sb_size sb) * (unat n - 1)"
proof -
  let ?k = "unat (sb_size sb)"
  have n: "unat (scast n :: u64) = unat n" using assms(4) by (intro unat_scast_nonneg) (simp add: nonneg_def)
  have half: "?k div 32768 * 16384 \<le> ?k div 2" by linarith
  moreover have "?k < 4294967296" using unsigned_less [of "sb_size sb"] by simp
  ultimately have "?k div 32768 * 16384 < 2147483648" by linarith
  then have less: "?k div 32768 * 16384 * unat n < 2147483648 * 2 ^ 31" using assms(4) by (intro mult_strict_mono) auto
  have size: "jmddev_size d (n + 1) = (ucast (sb_size sb div 2) AND NOT (scast (16384 :: u32) - 1)) * scast n"
    by (simp only: jmddev_size_def assms(1,2) option.case add_diff_cancel_right')
  have "?k div 32768 * 16384 * unat n < 2 ^ LENGTH(64)" using less by simp
  then have cap: "unat (jmddev_size d (n + 1)) = ?k div 32768 * 16384 * unat n"
    unfolding size unat_word_ariths(2) chunk_floor n by (rule mod_less)
  have "?k div 32768 * 16384 * unat n \<le> ?k div 2 * unat n" using half by (rule mult_le_mono1)
  also have "\<dots> \<le> ?k div 2 * (2 * (unat n - 1))" using assms(3) by (intro mult_le_mono2) linarith
  also have "\<dots> \<le> ?k * (unat n - 1)" unfolding mult.assoc [symmetric] by (intro mult_le_mono1) linarith
  finally show ?thesis using cap by simp
qed

section \<open>What is on the disks\<close>

lemmas deep_cong = option.case_cong if_cong prod.case_cong

text \<open>Everything but the import with \<open>on_disk\<close> ignores what the disks hold.\<close>

lemma ev_read_rdev:
  "calc_sb_csum (ev\<lparr>ev_read := f\<rparr>) = calc_sb_csum ev"
  "calc_dev_sboffset (ev\<lparr>ev_read := f\<rparr>) = calc_dev_sboffset ev"
  "calc_dev_size (ev\<lparr>ev_read := f\<rparr>) = calc_dev_size ev"
  "jmd_import_device (ev\<lparr>ev_read := f\<rparr>) dv False s = jmd_import_device ev dv False s"
  "alloc_array_sb (ev\<lparr>ev_read := f\<rparr>) = alloc_array_sb ev"
  by (simp_all add: fun_eq_iff calc_sb_csum_def calc_dev_sboffset_def calc_dev_size_def jmd_import_device_def
      alloc_array_sb_def Let_def
      cong: deep_cong)

lemma ev_read_sb:
  "sync_rdev (ev\<lparr>ev_read := f\<rparr>) = sync_rdev ev" "age_bad_csum (ev\<lparr>ev_read := f\<rparr>) = age_bad_csum ev"
  "set_array_info (ev\<lparr>ev_read := f\<rparr>) = set_array_info ev" "place_rdev (ev\<lparr>ev_read := f\<rparr>) = place_rdev ev"
  by (simp_all add: fun_eq_iff sync_rdev_def age_bad_csum_def set_array_info_def place_rdev_def ev_read_rdev
      cong: deep_cong)

lemma ev_read_sync: "sync_sbs (ev\<lparr>ev_read := f\<rparr>) = sync_sbs ev"
  by (simp add: fun_eq_iff sync_sbs_def ev_read_sb cong: deep_cong)

lemma ev_read_loops:
  "freshest_loop (ev\<lparr>ev_read := f\<rparr>) js fr s = freshest_loop ev js fr s"
  "size_loop (ev\<lparr>ev_read := f\<rparr>) sb js s = size_loop ev sb js s"
  by (induction js arbitrary: fr s) (simp_all add: ev_read_sb ev_read_rdev Let_def)

lemma ev_read_assembly:
  "analyze_sbs (ev\<lparr>ev_read := f\<rparr>) = analyze_sbs ev"
  "device_size_calculation (ev\<lparr>ev_read := f\<rparr>) = device_size_calculation ev"
  by (simp_all only: fun_eq_iff analyze_sbs_def device_size_calculation_def ev_read_rdev ev_read_loops simp_thms)

lemma ev_read_write: "write_disk_sb (ev\<lparr>ev_read := f\<rparr>) = write_disk_sb ev"
  by (simp add: fun_eq_iff write_disk_sb_def ev_read_rdev cong: deep_cong)

lemma ev_read_write_all: "write_all (ev\<lparr>ev_read := f\<rparr>) mem js err w = write_all ev mem js err w"
  by (induction js arbitrary: err w) (simp_all add: ev_read_write cong: deep_cong)

lemma ev_read_update: "update_loop (ev\<lparr>ev_read := f\<rparr>) mem n sb w = update_loop ev mem n sb w"
  by (induction n arbitrary: sb w) (simp_all add: ev_read_write_all ev_read_sync Let_def cong: deep_cong)

lemma ev_read_run:
  "do_jmd_run (ev\<lparr>ev_read := f\<rparr>) mem run s io m = do_jmd_run ev mem run s io m"
  by (simp add: do_jmd_run_def run_personality_def jmd_update_sb_def ev_read_assembly ev_read_update
      cong: deep_cong)

lemma ev_read_add_disk:
  "md_sb (md s) \<noteq> None \<Longrightarrow> add_new_disk (ev\<lparr>ev_read := f\<rparr>) info s = add_new_disk ev info s"
  by (cases "md_sb (md s)") (simp_all add: add_new_disk_def ev_read_rdev ev_read_sb ev_read_sync Let_def cong: deep_cong)

text \<open>
  C27 What the disks hold does not matter to \<open>add_store\<close>: once the array has a superblock, or when the
  first disk is added and the memory for one is there, the whole operation (adding the disk,
  assembling, running) gives the same result whatever \<open>read_disk_sb\<close> would read. A superblock that
  \<open>jmd_update_sb\<close> wrote is never read again through this interface.
\<close>

theorem add_store_ignores_disk:
  assumes "md_sb (md s) \<noteq> None \<or> nb_dev (md s) = 0 \<and> ev_sb_mem ev"
  shows "add_store (ev\<lparr>ev_read := f\<rparr>) mem run a s io m = add_store ev mem run a s io m"
proof -
  have "md_sb (md (snd (set_array_info ev ai s))) \<noteq> None" if "nb_dev (md s) = 0" for ai
    using assms that by (cases "md_sb (md s)") (auto simp: set_array_info_def alloc_array_sb_def)
  then have "md_sb (md (if nb_dev (md s) = 0 then snd (set_array_info ev ai s) else s)) \<noteq> None" for ai
    using assms by auto
  then show ?thesis
    by (simp add: add_store_def ev_read_sb ev_read_run ev_read_add_disk Let_def cong: deep_cong)
qed

definition add_example :: add_args where
  "add_example = \<lparr>aa_total = 2, aa_jrdev = 1, aa_bdev = Some (8, 16), aa_mem = (True, True, True)\<rparr>"

theorem add_store_ignores_disk_witness:
  "add_store (ev_example\<lparr>ev_read := (\<lambda>_. Some zero_sb)\<rparr>) (\<lambda>_. (True, True)) (jraid5_run run_example mem_example)
     add_example md_example io_start ([], []) =
   add_store ev_example (\<lambda>_. (True, True)) (jraid5_run run_example mem_example) add_example md_example io_start ([], [])"
  by (rule add_store_ignores_disk) (simp add: md_example_def)

end
