(* ===== verification/Jmd_Assemble.thy ===== *)
theory Jmd_Assemble
  imports Jmd_Run
begin

text \<open>
  The whole life of an array's assembly: a first \<open>add_store\<close> builds a superblock in memory, every
  further one binds one more device to it, and the last one sizes the array, chooses the
  personality and runs it (\<^verbatim>\<open>src/src/jmd.c\<close> and \<^verbatim>\<open>src/src/jraid5.c\<close>). Nothing of the code is defined
  here: the definitions say what an array under construction looks like (\<open>part_array\<close>), and the
  lemmas follow it through \<open>add_new_disk\<close>, \<open>analyze_sbs\<close>, \<open>device_size_calculation\<close> and
  \<open>jraid5_run\<close>.
\<close>

section \<open>An array that is being put together\<close>

record placed =
  pl_idx :: nat
  pl_num :: u32
  pl_dev :: dev_t

definition desc_of :: "placed \<Rightarrow> jmd_disk" where
  "desc_of x = \<lparr>dk_number = pl_num x, dk_major = fst (pl_dev x), dk_minor = snd (pl_dev x), dk_raid_disk = pl_num x, dk_state = 0\<rparr>"

lemma desc_of_simps [simp]:
  "dk_number (desc_of x) = pl_num x" "dk_dev (desc_of x) = pl_dev x" "dk_raid_disk (desc_of x) = pl_num x"
  "dk_state (desc_of x) = 0" "dk_major (desc_of x) = fst (pl_dev x)" "dk_minor (desc_of x) = snd (pl_dev x)"
  by (simp_all add: desc_of_def dk_dev_def)

lemma zero_disk_dev [simp]: "dk_dev zero_disk = (0, 0)" "dk_state zero_disk = 0" "dk_number zero_disk = 0"
  by (simp_all add: zero_disk_def dk_dev_def)

definition places_ok :: "u32 \<Rightarrow> placed list \<Rightarrow> bool" where
  "places_ok n xs \<longleftrightarrow> unat n \<le> MD_SB_DISKS \<and> distinct (map pl_idx xs) \<and> distinct (map pl_num xs) \<and> distinct (map pl_dev xs) \<and>
     (\<forall>x \<in> set xs. pl_num x < n \<and> pl_dev x \<noteq> (0, 0))"

definition slot_of :: "placed list \<Rightarrow> nat \<Rightarrow> jmd_disk" where
  "slot_of xs j = (case find (\<lambda>x. unat (pl_num x) = j) xs of None \<Rightarrow> zero_disk | Some x \<Rightarrow> desc_of x)"

definition array_sb :: "u32 \<Rightarrow> placed list \<Rightarrow> jmd_superblock \<Rightarrow> bool" where
  "array_sb n xs sb \<longleftrightarrow> sb_disks sb = map (slot_of xs) [0..<MD_SB_DISKS] \<and> nr_disks sb = n \<and> sb_raid_disks sb = n \<and>
     sb_level sb = 5 \<and> sb_chunk_size sb = 32768 \<and> md_magic sb = MD_SB_MAGIC \<and> md_minor sb = 0 \<and> major_version sb = 0 \<and>
     minor_version sb = 0 \<and> sb_state sb = 0 \<and> not_persistent sb = 0 \<and> layout sb = 0 \<and> events_lo sb = 0 \<and> events_hi sb = 0"

definition member_sb :: "env \<Rightarrow> jmd_superblock \<Rightarrow> placed \<Rightarrow> jmd_superblock" where
  "member_sb ev sb x = sb\<lparr>this_disk := desc_of x, sb_csum := calc_sb_csum ev (sb\<lparr>this_disk := desc_of x\<rparr>)\<rparr>"

definition sits :: "placed \<Rightarrow> jmd_rdev \<Rightarrow> bool" where
  "sits x r \<longleftrightarrow> rd_dev r = pl_dev x \<and> old_dev r = pl_dev x \<and> desc_nr r = pl_num x \<and> \<not> faulty r \<and> rd_size r = 0"

text \<open>The lists and members of an array that does not run yet; the second one with superblocks in step.\<close>

definition part_array :: "u32 \<Rightarrow> placed list \<Rightarrow> jmd_superblock \<Rightarrow> jmd_state \<Rightarrow> bool" where
  "part_array n xs sb s \<longleftrightarrow> places_ok n xs \<and> md_sb (md s) = Some sb \<and> array_sb n xs sb \<and> mdisks (md s) = map pl_idx xs \<and>
     all_jraid_disks s = map pl_idx xs \<and> nb_dev (md s) = of_nat (length xs) \<and> md_pers (md s) = None \<and>
     pers_table s RAID5 \<noteq> None \<and> (\<forall>x \<in> set xs. sits x (rd s (pl_idx x)))"

definition in_step :: "env \<Rightarrow> placed list \<Rightarrow> jmd_superblock \<Rightarrow> jmd_state \<Rightarrow> bool" where
  "in_step ev xs sb s \<longleftrightarrow> (\<forall>x \<in> set xs. rd_sb (rd s (pl_idx x)) = Some (member_sb ev sb x))"

subsection \<open>Looking up a device in the table\<close>

lemma slot_of_member:
  assumes "places_ok n xs" "x \<in> set xs"
  shows "slot_of xs (unat (pl_num x)) = desc_of x" "unat (pl_num x) < MD_SB_DISKS"
proof -
  have d: "distinct (map pl_num xs)" using assms(1) by (simp add: places_ok_def)
  obtain y where y: "find (\<lambda>y. unat (pl_num y) = unat (pl_num x)) xs = Some y"
    using assms(2) by (cases "find (\<lambda>y. unat (pl_num y) = unat (pl_num x)) xs") (auto simp: find_None_iff)
  then have "y \<in> set xs" "pl_num y = pl_num x" by (auto simp: find_Some_iff unat_inject)
  then have "y = x" using d assms(2) by (simp add: distinct_map inj_on_def)
  then show "slot_of xs (unat (pl_num x)) = desc_of x" using y by (simp add: slot_of_def)
  have "pl_num x < n" "unat n \<le> MD_SB_DISKS" using assms by (simp_all add: places_ok_def)
  then show "unat (pl_num x) < MD_SB_DISKS" by (simp add: word_less_nat_alt)
qed

lemma slot_of_cases: "slot_of xs j = zero_disk \<or> (\<exists>x \<in> set xs. slot_of xs j = desc_of x \<and> unat (pl_num x) = j)"
  by (auto simp: slot_of_def find_Some_iff split: option.split)

lemma find_slot:
  assumes "places_ok n xs" "x \<in> set xs"
  shows "find (\<lambda>d. dk_dev d = pl_dev x) (map (slot_of xs) [0..<MD_SB_DISKS]) = Some (desc_of x)"
proof -
  note m = slot_of_member [OF assms]
  have "\<exists>d. find (\<lambda>d. dk_dev d = pl_dev x) (map (slot_of xs) [0..<MD_SB_DISKS]) = Some d"
  proof (rule ccontr)
    assume "\<not> ?thesis"
    then have "find (\<lambda>d. dk_dev d = pl_dev x) (map (slot_of xs) [0..<MD_SB_DISKS]) = None" by simp
    moreover have "desc_of x \<in> set (map (slot_of xs) [0..<MD_SB_DISKS])"
      using m by (auto intro: image_eqI [where x = "unat (pl_num x)"])
    ultimately show False unfolding find_None_iff using desc_of_simps(2) by blast
  qed
  then obtain d where d: "find (\<lambda>d. dk_dev d = pl_dev x) (map (slot_of xs) [0..<MD_SB_DISKS]) = Some d" by blast
  then obtain j where "d = slot_of xs j" "dk_dev d = pl_dev x" by (auto simp: find_Some_iff)
  moreover have "pl_dev x \<noteq> (0, 0)" using assms by (simp add: places_ok_def)
  ultimately obtain y where "y \<in> set xs" "d = desc_of y" "pl_dev y = pl_dev x"
    using slot_of_cases [of xs j] by auto
  then have "y = x" using assms by (simp add: places_ok_def distinct_map inj_on_def)
  then show ?thesis using d \<open>d = desc_of y\<close> by simp
qed

lemma sync_rdev_member:
  assumes "places_ok n xs" "x \<in> set xs" "array_sb n xs sb" "rd_dev r = pl_dev x" "\<not> faulty r"
  shows "sync_rdev ev sb r = r\<lparr>rd_sb := Some (member_sb ev sb x), desc_nr := pl_num x\<rparr>"
proof -
  have "find (\<lambda>d. dk_dev d = rd_dev r) (take MD_SB_DISKS (sb_disks sb)) = Some (desc_of x)"
    using find_slot [OF assms(1,2)] assms(3,4) by (simp add: array_sb_def)
  then show ?thesis using assms(5) by (simp add: sync_rdev_def set_this_disk_def member_sb_def Let_def)
qed

subsection \<open>One more member\<close>

definition import_goes :: "env \<Rightarrow> dev_t \<Rightarrow> nat \<Rightarrow> bool" where
  "import_goes ev dv i \<longleftrightarrow> ev_kmalloc ev = Some i \<and> \<not> ev_super ev dv \<and> ev_page ev \<and> ev_open ev dv"

lemma put_desc_array:
  assumes "array_sb n xs sb" "places_ok n (x # xs)"
  shows "array_sb n (x # xs) (put_desc \<lparr>in_number = pl_num x, in_major = fst (pl_dev x), in_minor = snd (pl_dev x),
    in_raid_disk = pl_num x, in_state = 0\<rparr> sb)"
proof -
  have "sb_disks (put_desc \<lparr>in_number = pl_num x, in_major = fst (pl_dev x), in_minor = snd (pl_dev x),
    in_raid_disk = pl_num x, in_state = 0\<rparr> sb) = map (slot_of (x # xs)) [0..<MD_SB_DISKS]"
    using assms(1) by (intro nth_equalityI) (auto simp: put_desc_def array_sb_def slot_of_def desc_of_def nth_list_update)
  then show ?thesis using assms(1) by (simp add: array_sb_def put_desc_def)
qed

lemma array_sb_size: "array_sb n xs (sb\<lparr>sb_size := z\<rparr>) = array_sb n xs sb"
  by (simp add: array_sb_def)

lemma add_one:
  assumes part: "part_array n xs sb s" and ok: "places_ok n (x # xs)" and imp: "import_goes ev (pl_dev x) (pl_idx x)"
  shows "\<exists>s' sb'. add_new_disk ev \<lparr>in_number = pl_num x, in_major = fst (pl_dev x), in_minor = snd (pl_dev x),
      in_raid_disk = pl_num x, in_state = 0\<rparr> s = Ret (None, s') \<and>
    part_array n (x # xs) sb' s' \<and> in_step ev (x # xs) sb' s' \<and> chunk_sectors_md (md s') = chunk_sectors_md (md s)"
proof -
  let ?info = "\<lparr>in_number = pl_num x, in_major = fst (pl_dev x), in_minor = snd (pl_dev x), in_raid_disk = pl_num x, in_state = 0\<rparr>"
  define i where "i = pl_idx x"
  note p = part [unfolded part_array_def]
  have xs: "places_ok n xs" "i \<notin> set (map pl_idx xs)" "pl_num x < n" "pl_dev x \<notin> set (map pl_dev xs)"
    "unat (pl_num x) < MD_SB_DISKS"
    using ok slot_of_member(2) [OF ok, of x] by (auto simp: places_ok_def i_def)
  have no: "find_jrdev_all s (pl_dev x) = None"
    using p xs(4) unfolding find_jrdev_all_None by (auto simp: sits_def) (metis imageI)
  define s1 where "s1 = upd_md (\<lambda>d. d\<lparr>md_sb := Some (put_desc ?info sb)\<rparr>) s"
  have no1: "find_jrdev_all s1 (pl_dev x) = None" using no by (simp add: s1_def find_jrdev_all_def)
  define r where "r = zero_rdev\<lparr>rd_opened := True, rd_dev := pl_dev x, desc_nr := - 1, faulty := False, rd_sb := Some (ev_junk ev)\<rparr>"
  define s2 where "s2 = s1\<lparr>rd := (rd s1)(i := r), all_jraid_disks := i # all_jraid_disks s1\<rparr>"
  have import: "jmd_import_device ev (pl_dev x) False s1 = (None, s2)"
    using imp no1 by (simp add: jmd_import_device_def import_goes_def s2_def r_def i_def [symmetric] Let_def)
  have fnd: "find_jrdev_all s2 (pl_dev x) = Some i" by (simp add: find_jrdev_all_def s2_def r_def)
  have run: "add_new_disk ev ?info s = Ret (None, sync_sbs ev (place_rdev ev (pl_dev x) ?info i s2))"
    using no p xs(3,5) import fnd
    by (simp add: add_new_disk_def Let_def s1_def [symmetric] array_sb_def MD_DISK_FAULTY_def not_le)
  have rb: "\<not> rd_bound (rd s2 i)" by (simp add: s2_def r_def zero_rdev_def)
  define s3 where "s3 = place_rdev ev (pl_dev x) ?info i s2"
  obtain z where sb3: "md_sb (md s3) = Some ((put_desc ?info sb)\<lparr>sb_size := z\<rparr>)"
    using rb by (auto simp: s3_def place_rdev_def bind_rdev_to_array_def Let_def s2_def s1_def)
       (metis (no_types, lifting) jmd_superblock.surjective jmd_superblock.update_convs(9))
  have s3: "mdisks (md s3) = i # mdisks (md s)" "all_jraid_disks s3 = i # all_jraid_disks s" "nb_dev (md s3) = nb_dev (md s) + 1"
    "md_pers (md s3) = md_pers (md s)" "pers_table s3 = pers_table s" "chunk_sectors_md (md s3) = chunk_sectors_md (md s)"
    "j \<noteq> i \<Longrightarrow> rd s3 j = rd s j" "rd_dev (rd s3 i) = pl_dev x" "old_dev (rd s3 i) = pl_dev x" "\<not> faulty (rd s3 i)" "rd_size (rd s3 i) = 0" for j
    using rb by (simp_all add: s3_def place_rdev_def bind_rdev_to_array_def Let_def s2_def s1_def)
       (simp_all add: r_def zero_rdev_def)
  define sb' where "sb' = (put_desc ?info sb)\<lparr>sb_size := z\<rparr>"
  have arr: "array_sb n (x # xs) sb'" using put_desc_array [OF _ ok] p by (simp add: sb'_def array_sb_size)
  have dist: "distinct (mdisks (md s3))" using s3(1) p xs(2) ok by (simp add: places_ok_def)
  have sync: "sync_sbs ev s3 = s3\<lparr>rd := (\<lambda>i. if i \<in> set (mdisks (md s3)) then sync_rdev ev sb' (rd s3 i) else rd s3 i)\<rparr>"
    unfolding sb'_def by (rule sync_sbs_eq [OF dist sb3])
  have dev3: "rd_dev (rd s3 (pl_idx y)) = pl_dev y \<and> old_dev (rd s3 (pl_idx y)) = pl_dev y \<and> \<not> faulty (rd s3 (pl_idx y)) \<and>
      rd_size (rd s3 (pl_idx y)) = 0" if "y \<in> set (x # xs)" for y
  proof (cases "y = x")
    case True
    then show ?thesis using s3(8-11) by (simp add: i_def)
  next
    case False
    then have "y \<in> set xs" "pl_idx y \<noteq> i" using that xs(2) by auto
    then show ?thesis using s3(7) p by (simp add: sits_def)
  qed
  have mem: "rd (sync_sbs ev s3) (pl_idx y) = (rd s3 (pl_idx y))\<lparr>rd_sb := Some (member_sb ev sb' y), desc_nr := pl_num y\<rparr>"
    if y: "y \<in> set (x # xs)" for y
  proof -
    have "pl_idx y \<in> set (mdisks (md s3))" using y s3(1) p by (auto simp: i_def)
    then show ?thesis using sync_rdev_member [OF ok y arr] dev3 [OF y] by (simp add: sync)
  qed
  have fr: "md (sync_sbs ev s3) = md s3" "all_jraid_disks (sync_sbs ev s3) = all_jraid_disks s3" "pers_table (sync_sbs ev s3) = pers_table s3"
    by (simp_all add: sync)
  have "part_array n (x # xs) sb' (sync_sbs ev s3)"
    unfolding part_array_def fr using ok arr sb3 s3 p mem dev3 by (simp add: sb'_def i_def sits_def)
  moreover have "in_step ev (x # xs) sb' (sync_sbs ev s3)" unfolding in_step_def using mem by simp
  moreover have "chunk_sectors_md (md (sync_sbs ev s3)) = chunk_sectors_md (md s)" using s3(6) fr(1) by simp
  ultimately show ?thesis using run [folded s3_def] by blast
qed


subsection \<open>Analysing the superblocks\<close>

lemma member_sb_simps [simp]:
  "sb_disks (member_sb ev sb x) = sb_disks sb" "md_magic (member_sb ev sb x) = md_magic sb"
  "md_minor (member_sb ev sb x) = md_minor sb" "events_lo (member_sb ev sb x) = events_lo sb"
  "events_hi (member_sb ev sb x) = events_hi sb" "major_version (member_sb ev sb x) = major_version sb"
  "minor_version (member_sb ev sb x) = minor_version sb" "jmd_event (member_sb ev sb x) = jmd_event sb"
  "sb_level (member_sb ev sb x) = sb_level sb" "sb_chunk_size (member_sb ev sb x) = sb_chunk_size sb"
  "sb_raid_disks (member_sb ev sb x) = sb_raid_disks sb" "not_persistent (member_sb ev sb x) = not_persistent sb"
  "layout (member_sb ev sb x) = layout sb" "sb_state (member_sb ev sb x) = sb_state sb"
  by (simp_all add: member_sb_def jmd_event_def)

lemma array_member_sb: "array_sb n xs sb \<Longrightarrow> array_sb n xs (member_sb ev sb x)"
  by (simp add: array_sb_def) (simp add: member_sb_def)

lemma rename_loop_same:
  "(\<And>i. i \<in> set js \<Longrightarrow> \<not> faulty (rd s i) \<and> rd_dev (rd s i) = old_dev (rd s i)) \<Longrightarrow> rename_loop js sb s = Ret (True, sb, s)"
  by (induction js) (simp_all add: Let_def)

lemma analyze_part:
  assumes part: "part_array n xs sb s" and sync: "in_step ev xs sb s" and "xs \<noteq> []"
  shows "\<exists>x \<in> set xs. analyze_sbs ev s = Ret (True, put_sb (member_sb ev sb x) s)"
proof -
  note p = part [unfolded part_array_def]
  have ok: "places_ok n xs" using p by blast
  have sit: "sits x (rd s (pl_idx x))" "rd_sb (rd s (pl_idx x)) = Some (member_sb ev sb x)" if "x \<in> set xs" for x
    using p sync that by (simp_all add: in_step_def)
  have arr: "array_sb n xs sb" "md_sb (md s) = Some sb" "mdisks (md s) = map pl_idx xs" using p by simp_all
  have mok: "members_ok s"
    using sit arr by (simp add: members_ok_def list_all_iff check_disk_sb_def array_sb_def MAX_MD_DEVS_def sits_def)
  have dist: "distinct (mdisks (md s))" using ok arr(3) by (simp add: places_ok_def)
  obtain fr s1 where fl: "freshest_loop ev (mdisks (md s)) None s = (fr, s1)" by fastforce
  have "fr \<noteq> None" using freshest_loop_correct [OF dist fl] arr(3) \<open>xs \<noteq> []\<close> by simp
  then obtain f where f: "fr = Some f" by blast
  note fresh = freshest_loop_None [OF dist fl [unfolded f]]
  obtain x where x: "x \<in> set xs" "f = pl_idx x" using fresh(2) arr(3) by auto
  have "age_bad_csum ev (member_sb ev sb y) = member_sb ev sb y" for y
    using arr(1) by (simp add: age_bad_csum_def array_sb_def)
  then have "age_rdev ev (rd s i) = rd s i" if "i \<in> set (mdisks (md s))" for i
    using that arr(3) sit(2) by (auto simp: age_rdev_def)
  then have s1: "s1 = s" using fresh(1) by (simp add: fun_eq_iff cong: if_cong)
  let ?b = "member_sb ev sb x"
  have rl: "rename_loop (mdisks (md s)) ?b s = Ret (True, ?b, s)"
    by (rule rename_loop_same) (use sit(1) arr(3) in \<open>auto simp: sits_def\<close>)
  have slot: "slot_of xs j = zero_disk \<or> (\<exists>y \<in> set xs. slot_of xs j = desc_of y \<and> has_member s (desc_of y))" for j
    using slot_of_cases [of xs j] sit(1) arr(3) by (fastforce simp: has_member_def list_ex_iff sits_def)
  have nz: "y \<in> set xs \<Longrightarrow> pl_dev y \<noteq> (0, 0)" for y using ok by (simp add: places_ok_def)
  have "\<not> removable s (sb_disks ?b ! k)" if "k < MD_SB_DISKS" for k
    using slot [of k] that arr(1) by (auto simp: array_sb_def removable_def disk_faulty_def)
  then have fold: "fold (clean_slot s) [0..<MD_SB_DISKS] ?b = ?b" by (rule clean_slots_none)
  have find: "find_jrdev (put_sb ?b s) (pl_dev y) \<noteq> None" if "y \<in> set xs" for y
    using that sit(1) arr(3) by (auto simp: find_jrdev_def find_None_iff put_sb_def sits_def)
  have slots: "slots_ok (put_sb ?b s) ?b"
    unfolding slots_ok_def list_all_iff
  proof
    fix d assume "d \<in> set (take MD_SB_DISKS (sb_disks ?b))"
    then obtain j where "d = slot_of xs j" using arr(1) by (auto simp: array_sb_def)
    then show "dk_dev d = (0, 0) \<or> \<not> disk_faulty d \<and> find_jrdev (put_sb ?b s) (dk_dev d) \<noteq> None"
      using slot_of_cases [of xs j] find by (auto simp: disk_faulty_def)
  qed
  have num: "pl_num y \<noteq> - 1" if "y \<in> set xs" for y
  proof -
    have "unat (pl_num y) < MD_SB_DISKS" by (rule slot_of_member(2) [OF ok that])
    then show ?thesis by (auto simp: MD_SB_DISKS_def unsigned_minus_1_eq_mask mask_eq_exp_minus_1)
  qed
  have inj: "y \<in> set xs \<Longrightarrow> z \<in> set xs \<Longrightarrow> pl_num y = pl_num z \<or> pl_dev y = pl_dev z \<Longrightarrow> y = z" for y z
    using ok by (auto simp: places_ok_def distinct_map inj_on_def)
  have dis: "rdevs_distinct (put_sb ?b s)"
    using sit(1) num inj by (auto simp: rdevs_distinct_def list_all_iff put_sb_def arr(3) sits_def)
  have ver: "major_version sb = 0" "minor_version sb = 0" using arr(1) by (simp_all add: array_sb_def)
  have the_f: "the (rd_sb (rd s f)) = ?b" using sit(2) x by simp
  have "analyze_sbs ev s = Ret (True, put_sb ?b s)"
    using arr(2) by (simp add: analyze_sbs_def Let_def mok fl f s1 the_f rl fold slots dis ver)
  then show ?thesis using x(1) by blast
qed

subsection \<open>Sizes\<close>

definition dev_big :: "env \<Rightarrow> dev_t \<Rightarrow> bool" where
  "dev_big ev dv \<longleftrightarrow> 64 \<le> MD_NEW_SIZE_BLOCKS (ev_size ev dv div 512) AND ucast (NOT (63 :: u32))"

lemma size_part:
  assumes mdisks: "mdisks (md s) = map pl_idx xs" and sb: "md_sb (md s) = Some sb" "array_sb n xs sb" and ok: "places_ok n xs"
    and sit: "\<And>x. x \<in> set xs \<Longrightarrow> sits x (rd s (pl_idx x))" and big: "\<And>x. x \<in> set xs \<Longrightarrow> dev_big ev (pl_dev x)"
  shows "\<exists>s'. device_size_calculation ev s = Ret (0, s') \<and> md s' = md s \<and>
    (\<forall>i. rd_dev (rd s' i) = rd_dev (rd s i) \<and> desc_nr (rd s' i) = desc_nr (rd s i))"
proof -
  have lev: "sb_level sb = 4 \<or> sb_level sb = 5" using sb(2) by (simp add: array_sb_def)
  have dist: "distinct (mdisks (md s))" using ok mdisks by (simp add: places_ok_def)
  obtain b s1 where loop: "size_loop ev sb (mdisks (md s)) s = (b, s1)" by fastforce
  obtain r s' where run: "device_size_calculation ev s = Ret (r, s')"
    using loop sb lev by (cases b) (auto simp: device_size_calculation_def data_disks_of_def Let_def)
  note ds = device_size_calculation_raid5 [OF dist sb(1) lev run]
  have "big_enough ev sb s (pl_idx x)" if x: "x \<in> set xs" for x
  proof -
    have "find_jrdev s (pl_dev x) \<noteq> None" using sit [OF x] x mdisks by (auto simp: find_jrdev_def find_None_iff sits_def)
    then obtain i where i: "find_jrdev s (pl_dev x) = Some i" by blast
    then have "rd_dev (rd s i) = pl_dev x" by (auto simp: find_jrdev_def find_Some_iff)
    then have "sized ev sb s (pl_idx x) = MD_NEW_SIZE_BLOCKS (ev_size ev (pl_dev x) div 512) AND ucast (NOT (63 :: u32))"
      using i sit [OF x] sb by (simp add: sized_def calc_dev_size_def calc_dev_sboffset_def sits_def array_sb_def)
    then show ?thesis using big [OF x] sb(2) by (simp add: big_enough_def dev_big_def array_sb_def)
  qed
  then have "\<forall>i \<in> set (mdisks (md s)). big_enough ev sb s i" using mdisks by simp
  then have "r = 0" using ds by blast
  then show ?thesis using run ds by (intro exI [of _ s']) auto
qed


subsection \<open>Running it\<close>

lemma run_members_total:
  assumes "length (sb_disks sb) = MD_SB_DISKS"
    and "\<And>i. i \<in> set js \<Longrightarrow> unat (desc_nr (rd s i)) < MD_SB_DISKS \<and> unat (dk_raid_disk (member_desc s sb i)) < MD_SB_DISKS"
  shows "\<exists>sb' conf'. run_members s js sb conf = Ret (True, sb', conf')"
  using assms
proof (induction js arbitrary: sb conf)
  case (Cons i js)
  define n where "n = unat (desc_nr (rd s i))"
  define sb1 where "sb1 = sb\<lparr>sb_disks := (sb_disks sb)[n := mark_member (sb_disks sb ! n)]\<rparr>"
  have n: "n < MD_SB_DISKS" "unat (dk_raid_disk (sb_disks sb ! n)) < MD_SB_DISKS"
    using Cons.prems(2) [of i] by (simp_all add: n_def member_desc_def)
  have "same_numbers sb sb1" unfolding sb1_def by (rule same_numbers_mark) (simp add: Cons.prems(1) n)
  then have "dk_raid_disk (member_desc s sb1 k) = dk_raid_disk (member_desc s sb k)" if "k \<in> set (i # js)" for k
    using same_numbersD(11) [of sb sb1] Cons.prems(1) Cons.prems(2) [OF that] by (simp add: member_desc_def)
  then have IH: "\<exists>sb' conf'. run_members s js sb1 c = Ret (True, sb', conf')" for c
    using Cons.prems by (intro Cons.IH) (auto simp: sb1_def)
  show ?case using n IH
    by (simp add: run_members_step n_def [symmetric] Let_def sb1_def [symmetric])
qed simp

lemma run_faulty_total:
  assumes "unat (sb_raid_disks sb) \<le> MD_SB_DISKS"
  shows "\<exists>conf'. run_faulty sb ds conf = Ret conf'"
  using assms by (induction ds arbitrary: conf) (auto simp: Let_def word_less_nat_alt)

text \<open>No allocation of the stripes' memory fails.\<close>

definition mem_enough :: "'m mem_ops \<Rightarrow> bool" where
  "mem_enough ops \<longleftrightarrow> (\<forall>m. alloc_page ops m \<noteq> None \<and> cache_create ops m \<noteq> None \<and> cache_alloc ops m \<noteq> None)"

lemma grow_pages_enough: "mem_enough ops \<Longrightarrow> \<not> fst (grow_pages ops js sh m)"
proof (induction js arbitrary: sh m)
  case (Cons j js)
  obtain p m1 where "alloc_page ops m = Some (p, m1)" using Cons.prems by (fastforce simp: mem_enough_def)
  then show ?case using Cons by simp
qed simp

lemma grow_loop_enough:
  "mem_enough ops \<Longrightarrow> \<exists>conf' m'. grow_stripes_loop ops num conf m = Ret (False, conf', m')"
proof (induction num arbitrary: conf m)
  case (Suc num)
  obtain i m1 where c: "cache_alloc ops m = Some (i, m1)" using Suc.prems by (fastforce simp: mem_enough_def)
  obtain b sh m2 where g: "grow_buffers ops (unat (raid_disks conf)) (zero_stripe (unat (raid_disks conf))) m1 = (b, sh, m2)"
    using prod_cases3 by blast
  then have "\<not> b" using grow_pages_enough [OF Suc.prems] by (metis fst_conv grow_buffers_def)
  then show ?case using Suc.IH [OF Suc.prems] c g by (simp add: Let_def)
qed simp

lemma grow_stripes_enough:
  assumes "mem_enough ops"
  shows "\<exists>conf' m'. grow_stripes ops num conf m = Ret (False, conf', m')"
proof -
  obtain m1 where "cache_create ops m = Some m1" using assms by (fastforce simp: mem_enough_def)
  then show ?thesis using grow_loop_enough [OF assms, of num conf m1] by (simp add: grow_stripes_def)
qed

text \<open>Stripes as they come from the allocator, and what else a new array's conf has.\<close>

definition blank_stripe :: "stripe_head \<Rightarrow> bool" where
  "blank_stripe sh \<longleftrightarrow> pd_idx sh = 0 \<and> sh_state sh = 0 \<and> hash_pprev sh = None \<and> (\<forall>d \<in> set (dev sh). \<not> dev_busy d)"

definition new_conf :: "jraid5_conf \<Rightarrow> bool" where
  "new_conf conf \<longleftrightarrow> level conf = 5 \<and> (\<forall>i \<in> set (live conf). blank_stripe (heap conf i))"

lemma blank_zero_stripe: "blank_stripe (zero_stripe n)"
  by (simp add: blank_stripe_def zero_stripe_def zero_dev_def dev_busy_def)

lemma blank_set_page: "blank_stripe sh \<Longrightarrow> blank_stripe (upd_dev j (\<lambda>d. d\<lparr>page := p\<rparr>) sh)"
proof (cases "j < length (dev sh)")
  case True
  moreover assume "blank_stripe sh"
  ultimately show ?thesis
    by (auto simp: blank_stripe_def upd_dev_def dev_busy_def dest!: subsetD [OF set_update_subset_insert])
qed (simp add: upd_dev_def list_update_beyond)

lemma grow_pages_blank: "grow_pages ops js sh m = (b, sh', m') \<Longrightarrow> blank_stripe sh \<Longrightarrow> blank_stripe sh'"
  by (induction js arbitrary: sh m) (auto split: option.splits intro: blank_set_page)

lemma grow_loop_blank:
  "grow_stripes_loop ops num conf m = Ret (False, conf', m') \<Longrightarrow> \<forall>i \<in> set (live conf). blank_stripe (heap conf i) \<Longrightarrow>
    \<forall>i \<in> set (live conf'). blank_stripe (heap conf' i)"
proof (induction num arbitrary: conf m)
  case (Suc num)
  let ?n = "unat (raid_disks conf)"
  obtain i m1 where c: "cache_alloc ops m = Some (i, m1)" using Suc.prems(1) by (auto split: option.splits)
  obtain b sh m2 where g: "grow_buffers ops ?n (zero_stripe ?n) m1 = (b, sh, m2)" using prod_cases3 by blast
  have b: "\<not> b" using Suc.prems(1) c g by (auto simp: Let_def bind_outcome_Ret_iff split: bool.splits)
  have blank: "blank_stripe sh" using grow_pages_blank [OF g [unfolded grow_buffers_def] blank_zero_stripe] .
  show ?case
  proof (rule Suc.IH)
    show "grow_stripes_loop ops num (release_stripe i (add_stripe i sh conf)) m2 = Ret (False, conf', m')"
      using Suc.prems(1) c g b by (simp add: Let_def add_stripe_def)
    show "\<forall>j \<in> set (live (release_stripe i (add_stripe i sh conf))). blank_stripe (heap (release_stripe i (add_stripe i sh conf)) j)"
      using Suc.prems(2) blank by (simp add: blank_stripe_def)
  qed
qed simp

lemma grow_stripes_blank:
  "grow_stripes ops num conf m = Ret (False, conf', m') \<Longrightarrow> \<forall>i \<in> set (live conf). blank_stripe (heap conf i) \<Longrightarrow>
    \<forall>i \<in> set (live conf'). blank_stripe (heap conf' i)"
  by (auto simp: grow_stripes_def split: option.splits dest!: grow_loop_blank)

definition run_goes :: "run_env \<Rightarrow> bool" where
  "run_goes re \<longleftrightarrow> re_conf re \<and> re_hash re \<and> re_thread re = (True, True) \<and> re_resync re = (True, True)"

text \<open>What a complete array has: every slot of the table is held by the device that names it.\<close>

definition filled :: "u32 \<Rightarrow> placed list \<Rightarrow> jraid5_conf \<Rightarrow> bool" where
  "filled n xs conf \<longleftrightarrow> raid_disks conf = n \<and> working_disks conf = n \<and>
     (\<forall>x \<in> set xs. let p = disks conf ! unat (pl_num x) in operational p \<and> di_dev p = pl_dev x \<and> di_jrdev p = Some (pl_idx x))"

lemma all_slots_held:
  assumes rs: "run_slots s sb (set (map pl_idx xs)) conf" and ok: "places_ok n xs" and full: "length xs = unat n"
    and sb: "array_sb n xs sb" and nr: "\<And>x. x \<in> set xs \<Longrightarrow> desc_nr (rd s (pl_idx x)) = pl_num x \<and> rd_dev (rd s (pl_idx x)) = pl_dev x"
    and op: "\<And>x. x \<in> set xs \<Longrightarrow> operational (disks conf ! unat (pl_num x))" and "raid_disks conf = n"
  shows "filled n xs conf"
proof -
  have desc: "member_desc s sb (pl_idx x) = desc_of x" if "x \<in> set xs" for x
    using slot_of_member [OF ok that] nr [OF that] sb by (simp add: member_desc_def array_sb_def)
  have inj: "x \<in> set xs \<Longrightarrow> y \<in> set xs \<Longrightarrow> pl_num x = pl_num y \<Longrightarrow> x = y" for x y
    using ok by (auto simp: places_ok_def distinct_map inj_on_def)
  have held: "\<exists>x \<in> set xs. unat (pl_num x) = k \<and> di_jrdev (disks conf ! k) = Some (pl_idx x) \<and> di_dev (disks conf ! k) = pl_dev x"
    if "k < MD_SB_DISKS" "operational (disks conf ! k)" for k
    using rs that desc nr by (fastforce simp: run_slots_def slot_holds_def)
  have "{k. k < length (disks conf) \<and> operational (disks conf ! k)} = (\<lambda>x. unat (pl_num x)) ` set xs"
    using held op slot_of_member(2) [OF ok] rs by (fastforce simp: run_slots_def)
  moreover have "inj_on (\<lambda>x. unat (pl_num x)) (set xs)" using inj by (auto simp: inj_on_def unat_inject)
  moreover have "distinct xs" using ok by (simp add: places_ok_def distinct_map)
  ultimately have "length (filter operational (disks conf)) = unat n"
    using full by (simp add: length_filter_conv_card card_image distinct_card)
  then have "working_disks conf = n" using rs by (simp add: run_slots_def)
  moreover have "let p = disks conf ! unat (pl_num x) in operational p \<and> di_dev p = pl_dev x \<and> di_jrdev p = Some (pl_idx x)"
    if x: "x \<in> set xs" for x
  proof -
    obtain y where "y \<in> set xs" "pl_num y = pl_num x" "di_jrdev (disks conf ! unat (pl_num x)) = Some (pl_idx y)"
      "di_dev (disks conf ! unat (pl_num x)) = pl_dev y"
      using held [OF slot_of_member(2) [OF ok x] op [OF x]] by (auto simp: unat_inject)
    moreover from this have "y = x" using inj x by blast
    ultimately show ?thesis using op [OF x] by (simp add: Let_def)
  qed
  ultimately show ?thesis using assms(7) by (simp add: filled_def)
qed

lemma run_part:
  fixes ops :: "'m mem_ops"
  assumes sb: "md_sb (md s) = Some sb" "array_sb n xs sb" and ok: "places_ok n xs" "length xs = unat n" "n \<noteq> 0"
    and mdisks: "mdisks (md s) = map pl_idx xs"
    and nr: "\<And>x. x \<in> set xs \<Longrightarrow> desc_nr (rd s (pl_idx x)) = pl_num x \<and> rd_dev (rd s (pl_idx x)) = pl_dev x"
    and env: "run_goes re" "mem_enough ops"
  shows "\<exists>s' m' conf. jraid5_run re ops s m = Ret (True, s', m') \<and> md_private (md s') = Some conf \<and>
    (\<forall>x \<in> set xs. operational (disks conf ! unat (pl_num x))) \<and> new_conf conf"
proof -
  let ?c = "zero_conf\<lparr>jraid_disks := nb_dev (md s), buffer_size := of_nat PAGE_SIZE\<rparr>"
  have len: "length (sb_disks sb) = MD_SB_DISKS" using sb(2) by (simp add: array_sb_def)
  have n: "unat n \<le> MD_SB_DISKS" using ok(1) by (simp add: places_ok_def)
  have desc: "member_desc s sb (pl_idx x) = desc_of x" "unat (pl_num x) < MD_SB_DISKS" if "x \<in> set xs" for x
    using slot_of_member [OF ok(1) that] nr [OF that] sb(2) by (simp_all add: member_desc_def array_sb_def)
  have tot: "unat (desc_nr (rd s i)) < MD_SB_DISKS \<and> unat (dk_raid_disk (member_desc s sb i)) < MD_SB_DISKS"
    if "i \<in> set (mdisks (md s))" for i
    using that nr desc mdisks by auto
  obtain sb1 conf1 where rm: "run_members s (mdisks (md s)) sb ?c = Ret (True, sb1, conf1)"
    using run_members_total [OF len tot] by blast
  have sn: "same_numbers sb sb1" using run_members_frame [OF rm len] by blast
  have rk: "sb_raid_disks sb1 = n" using same_numbersD(2) [OF sn] sb(2) by (simp add: array_sb_def)
  then obtain conf2 where rf: "run_faulty sb1 (take MD_SB_DISKS (sb_disks sb1)) conf1 = Ret conf2"
    using run_faulty_total [of sb1] n by blast
  define c3 where "c3 = run_params sb1 conf2"
  note set_up = run_setup [OF len rm rf, folded c3_def]
  have c3: "raid_disks c3 = n" "chunk_size c3 = 32768" "algorithm c3 = 0" "failed_disks c3 = n - working_disks c3"
    using rk same_numbersD(3,4) [OF sn] sb(2) by (simp_all add: c3_def run_params_def array_sb_def)
  have op: "operational (disks c3 ! unat (pl_num x))" if x: "x \<in> set xs" for x
  proof -
    have "pl_num x \<le> n" using ok(1) x by (auto simp: places_ok_def)
    then show ?thesis using set_up x desc(1) [OF x] mdisks sb(2) by (fastforce simp: array_sb_def)
  qed
  then have fill: "filled n xs c3"
    using all_slots_held [of s sb xs c3 n] set_up ok sb(2) nr c3(1) mdisks by simp
  have chk: "run_checks c3" using fill c3 by (simp add: run_checks_def filled_def ALGORITHM_RIGHT_SYMMETRIC_def)
  have lev: "sb_level sb = 5" using sb(2) by (simp add: array_sb_def)
  have st: "\<not> bit (sb_state sb1) MD_SB_CLEAN" using same_numbersD(6) [OF sn] sb(2) by (simp add: array_sb_def)
  obtain c4 m4 where g: "grow_stripes ops NR_STRIPES (c3\<lparr>thread := Some run_thread\<rparr>) m = Ret (False, c4, m4)"
    using grow_stripes_enough [OF env(2)] by metis
  have w: "working_disks c3 = sb_raid_disks sb1" using fill rk by (simp add: filled_def)
  have reg: "jmd_register_thread (fst (re_thread re)) (snd (re_thread re)) ''jraid5d'' ''jraid5d'' s =
      (Some run_thread, s\<lparr>kthreads := ''jraid5d'' # kthreads s\<rparr>)"
    using env(1) by (simp add: run_goes_def jmd_register_thread_def run_thread_def)
  have cc: "clear_clean sb1 c3 = sb1" using st by (simp add: clear_clean_def)
  have "\<exists>s2. run_finish re False sb1 c4 run_thread t = Ret (True, s2)" for t
    using env(1) st n rk by (simp add: run_finish_def run_sync_def run_goes_def jmd_register_thread_def Let_def not_less)
  then obtain s2 where s2: "run_finish re False sb1 c4 run_thread (s\<lparr>kthreads := ''jraid5d'' # kthreads s\<rparr>) = Ret (True, s2)" by blast
  have "run_start re ops sb1 c3 s m = Ret (True, s2, m4)"
    using g s2 w by (simp add: run_start_def Let_def reg cc)
  then have run: "jraid5_run re ops s m = Ret (True, s2, m4)" using sb(1) lev env(1) rm rf chk
    by (simp add: jraid5_run_def run_goes_def Let_def c3_def)
  have d4: "disks c4 = disks c3" using grow_stripes_setup [OF g] by (simp add: same_setup_def)
  have lev4: "level c4 = 5" using grow_stripes_setup [OF g] same_numbersD(5) [OF sn] lev
    by (simp add: same_setup_def c3_def run_params_def)
  have blank: "\<forall>i \<in> set (live c4). blank_stripe (heap c4 i)" by (rule grow_stripes_blank [OF g]) (simp add: set_up)
  obtain conf where "md_private (md s2) = Some conf" "disks conf = disks c4" "level conf = level c4" "live conf = live c4"
    "heap conf = heap c4"
    using s2 by (cases rule: run_finish_cases) auto
  then have "md_private (md s2) = Some conf \<and> disks conf = disks c3 \<and> new_conf conf"
    using lev4 blank d4 by (simp add: new_conf_def)
  then show ?thesis using run op by auto
qed


lemma do_run_part:
  fixes ops :: "'m mem_ops"
  assumes part: "part_array n xs sb s" and sync: "in_step ev xs sb s" and full: "length xs = unat n" "n \<noteq> 0"
    and big: "\<And>x. x \<in> set xs \<Longrightarrow> dev_big ev (pl_dev x)"
    and env: "run_goes re" "mem_enough ops" "mem_ok ops used objs"
  shows "\<exists>s' io' m' conf sb'. do_jmd_run ev mem (jraid5_run re ops) s io m = Ret (None, s', io', m') \<and>
    md_pers (md s') = Some RAID5 \<and> mdisks (md s') = map pl_idx xs \<and> md_private (md s') = Some conf \<and> filled n xs conf \<and>
    cache_inv (\<lambda>_. 0) conf \<and> length (live conf) = NR_STRIPES \<and> inactive_list conf = live conf \<and> new_conf conf \<and> chunk_size conf = 32768 \<and>
    algorithm conf = ALGORITHM_LEFT_ASYMMETRIC \<and> md_sb (md s') = Some sb' \<and> \<not> bit (sb_state sb') MD_SB_CLEAN"
proof -
  let ?run = "jraid5_run re ops"
  let ?s0 = "s\<lparr>jmd_size := 0\<rparr>"
  have part0: "part_array n xs sb ?s0" "in_step ev xs sb ?s0" using part sync by (simp_all add: part_array_def in_step_def)
  note p = part [unfolded part_array_def]
  have ok: "places_ok n xs" and md0: "mdisks (md s) = map pl_idx xs" using p by simp_all
  have "0 < length xs" using full by (simp add: unat_gt_0)
  then have "xs \<noteq> []" by simp
  then obtain x where x: "x \<in> set xs" "analyze_sbs ev ?s0 = Ret (True, put_sb (member_sb ev sb x) ?s0)"
    using analyze_part [OF part0] by blast
  define b where "b = member_sb ev sb x"
  have arr: "array_sb n xs b" using p array_member_sb by (simp add: b_def)
  then have sel: "sb_level b = 5" "sb_chunk_size b = 32768" "length (sb_disks b) = MD_SB_DISKS" "layout b = 0"
    "sb_raid_disks b = n" "sb_state b = 0" by (simp_all add: array_sb_def)
  define s2 where "s2 = upd_md (\<lambda>d. d\<lparr>param := \<lparr>pm_personality = RAID5, pm_chunk_size = 32768\<rparr>\<rparr>) (put_sb b ?s0)"
  have s2: "mdisks (md s2) = map pl_idx xs" "md_sb (md s2) = Some b" "rd s2 = rd s" "pers_table s2 = pers_table s"
    using md0 by (simp_all add: s2_def)
  have sit: "sits y (rd s2 (pl_idx y))" if "y \<in> set xs" for y using p that s2(3) by simp
  obtain s3 where s3: "device_size_calculation ev s2 = Ret (0, s3)" "md s3 = md s2"
    "\<And>i. rd_dev (rd s3 i) = rd_dev (rd s2 i) \<and> desc_nr (rd s3 i) = desc_nr (rd s2 i)"
    using size_part [OF s2(1,2) arr ok sit big] by blast
  let ?s4 = "upd_md (\<lambda>d. d\<lparr>md_pers := Some RAID5\<rparr>) s3"
  have nr: "desc_nr (rd ?s4 (pl_idx y)) = pl_num y \<and> rd_dev (rd ?s4 (pl_idx y)) = pl_dev y" if "y \<in> set xs" for y
    using sit [OF that] s3(3) by (simp add: sits_def)
  have m4: "md_sb (md ?s4) = Some b" "mdisks (md ?s4) = map pl_idx xs" using s3(2) s2 by simp_all
  obtain s5 m5 conf0 where run: "?run ?s4 m = Ret (True, s5, m5)" and conf0: "md_private (md s5) = Some conf0"
    "\<forall>y \<in> set xs. operational (disks conf0 ! unat (pl_num y))" "new_conf conf0"
    using run_part [OF m4(1) arr ok full m4(2) nr env(1,2)] by blast
  obtain conf where conf: "md_private (md s5) = Some conf" "cache_inv (\<lambda>_. 0) conf" "length (live conf) = NR_STRIPES"
    "inactive_list conf = live conf" "raid_disks conf = n" "chunk_size conf = 32768" "algorithm conf = 0"
    "run_slots ?s4 b (set (mdisks (md ?s4))) conf"
    using jraid5_run_conf [OF env(3) m4(1) sel(3) run] sel by auto
  note keeps = jraid5_run_keeps [OF run m4(1) sel(3)]
  obtain sb5 where sb5: "md_sb (md s5) = Some sb5" "same_array b sb5" using keeps by blast
  have m5: "mdisks (md s5) = map pl_idx xs" "md_pers (md s5) = Some RAID5"
    using keeps m4(2) by (simp_all add: kept_def) (metis jmddev.select_convs(2,4) jmddev.surjective jmddev.update_convs(1,4,11))+
  have ops: "operational (disks conf ! unat (pl_num y))" if "y \<in> set xs" for y
    using conf0 conf(1) that by simp
  have fill: "filled n xs conf"
    by (rule all_slots_held [OF _ ok full(1) arr nr ops conf(5)]) (use conf(8) m4(2) in simp_all)
  have priv: "md_private (md s') = md_private (md s5) \<and> mdisks (md s') = mdisks (md s5) \<and> md_pers (md s') = md_pers (md s5) \<and>
      (\<exists>sb'. md_sb (md s') = Some sb' \<and> \<not> bit (sb_state sb') MD_SB_CLEAN)"
    if u: "update_loop ev mem 100 (sb5\<lparr>sb_state := unset_bit MD_SB_CLEAN (sb_state sb5)\<rparr>)
        (put_sb (sb5\<lparr>sb_state := unset_bit MD_SB_CLEAN (sb_state sb5)\<rparr>) s5, io) = (s', io')" for s' io'
  proof -
    obtain k where "md_sb (md s') = Some ((bump_events (ev_time ev) ^^ k) (sb5\<lparr>sb_state := unset_bit MD_SB_CLEAN (sb_state sb5)\<rparr>))"
      "mdisks (md s') = mdisks (md s5)" "md_pers (md s') = md_pers (md s5)" "md_private (md s') = md_private (md s5)"
      using update_loop_effect [OF _ u] by auto
    then show ?thesis by (simp add: bump_events_iter_keeps bit_unset_bit_iff)
  qed
  obtain s6 io6 where u: "update_loop ev mem 100 (sb5\<lparr>sb_state := unset_bit MD_SB_CLEAN (sb_state sb5)\<rparr>)
        (put_sb (sb5\<lparr>sb_state := unset_bit MD_SB_CLEAN (sb_state sb5)\<rparr>) s5, io) = (s6, io6)" by fastforce
  define s7 where "s7 = s6\<lparr>hd_nr_sects := scast (push_bit 1 (jmd_size s6))\<rparr>"
  have rp: "run_personality ev mem ?run RAID5 s3 io m = Ret (None, s7, io6, m5)"
    using u by (simp add: run_personality_def run sb5(1) jmd_update_sb_def s7_def)
  have "(2 :: u32) ^ 15 = 32768" by simp
  then have chunk: "chunk_check 32768" unfolding chunk_check_iff by (intro exI [of _ 15]) simp
  have nb: "nb_dev (md s) \<noteq> 0" using p full by simp
  have "do_jmd_run ev mem ?run s io m = Ret (None, s7, io6, m5)"
    using x(2) [folded b_def] nb p chunk s3(1) [unfolded s2_def] rp
    by (simp add: do_jmd_run_def sel level_to_pers_def pers_defs Let_def)
  moreover have "md s7 = md s6" by (simp add: s7_def)
  ultimately show ?thesis using priv [OF u] conf conf0 fill m5 by (auto simp: ALGORITHM_LEFT_ASYMMETRIC_def)
qed


section \<open>Adding the devices one by one\<close>

record asm_call =
  as_env :: env
  as_answers :: mem_answers
  as_args :: add_args

text \<open>The user's calls of \<open>add_store\<close>, whatever they return.\<close>

primrec add_all :: "(jmd_state \<Rightarrow> 'm \<Rightarrow> (bool \<times> jmd_state \<times> 'm) outcome) \<Rightarrow> asm_call list \<Rightarrow> jmd_state \<Rightarrow> sb_io \<Rightarrow> 'm \<Rightarrow>
    (jmd_state \<times> sb_io \<times> 'm) outcome" where
  "add_all run [] s io m = Ret (s, io, m)"
| "add_all run (c # cs) s io m =
     bind_outcome (add_store (as_env c) (as_answers c) run (as_args c) s io m) (\<lambda>(e, s1, io1, m1). add_all run cs s1 io1 m1)"

definition placed_by :: "asm_call \<Rightarrow> placed" where
  "placed_by c = \<lparr>pl_idx = the (ev_kmalloc (as_env c)), pl_num = aa_jrdev (as_args c), pl_dev = the (aa_bdev (as_args c))\<rparr>"

lemma placed_by_simps [simp]:
  "pl_idx (placed_by c) = the (ev_kmalloc (as_env c))" "pl_num (placed_by c) = aa_jrdev (as_args c)"
  "pl_dev (placed_by c) = the (aa_bdev (as_args c))"
  by (simp_all add: placed_by_def)

definition call_goes :: "u32 \<Rightarrow> asm_call \<Rightarrow> bool" where
  "call_goes n c \<longleftrightarrow> aa_total (as_args c) = n \<and> aa_mem (as_args c) = (True, True, True) \<and> aa_bdev (as_args c) \<noteq> None \<and>
     ev_sb_mem (as_env c) \<and> import_goes (as_env c) (pl_dev (placed_by c)) (pl_idx (placed_by c))"

definition no_array :: "jmd_state \<Rightarrow> bool" where
  "no_array s \<longleftrightarrow> md_sb (md s) = None \<and> mdisks (md s) = [] \<and> all_jraid_disks s = [] \<and> nb_dev (md s) = 0 \<and>
     md_pers (md s) = None \<and> pers_table s RAID5 \<noteq> None"

definition building :: "u32 \<Rightarrow> placed list \<Rightarrow> jmd_state \<Rightarrow> bool" where
  "building n xs s \<longleftrightarrow> (if xs = [] then no_array s else \<exists>sb. part_array n xs sb s)"

definition info_of :: "asm_call \<Rightarrow> jmd_disk_info" where
  "info_of c = \<lparr>in_number = pl_num (placed_by c), in_major = fst (pl_dev (placed_by c)), in_minor = snd (pl_dev (placed_by c)),
     in_raid_disk = pl_num (placed_by c), in_state = 0\<rparr>"

lemma first_info:
  assumes "building n xs s" "unat n \<le> MD_SB_DISKS" "ev_sb_mem ev" "length xs < unat n"
  shows "\<exists>sb. part_array n xs sb (if nb_dev (md s) = 0
    then snd (set_array_info ev (array_info_init\<lparr>ai_nr_disks := n, ai_raid_disks := n\<rparr>) s) else s)"
proof (cases "xs = []")
  case True
  have "map (slot_of []) [0..<MD_SB_DISKS] = replicate MD_SB_DISKS zero_disk"
    by (intro nth_equalityI) (simp_all add: slot_of_def)
  then show ?thesis using assms(1-3) True
    by (simp add: building_def no_array_def set_array_info_def alloc_array_sb_def part_array_def places_ok_def array_sb_def
        array_info_init_def zero_sb_def)
next
  case False
  have "length xs < 2 ^ 32" using assms(2,4) by (simp add: MD_SB_DISKS_def)
  then have "(of_nat (length xs) :: u32) \<noteq> 0" using False unat_of_nat_small [of "length xs", where 'a = 32] by auto
  then show ?thesis using assms(1) False by (auto simp: building_def part_array_def)
qed

lemma add_store_step:
  assumes b: "building n xs s" and go: "call_goes n c" and ok: "places_ok n (placed_by c # xs)" and less: "length xs < unat n"
  shows "\<exists>s2 sb2. part_array n (placed_by c # xs) sb2 s2 \<and> in_step (as_env c) (placed_by c # xs) sb2 s2 \<and>
    add_store (as_env c) (as_answers c) run (as_args c) s io m =
      (if Suc (length xs) = unat n then
         let sectors = jmddev_size (md s2) (n + 1) in
         bind_outcome (do_jmd_run (as_env c) (as_answers c) run ((upd_md (\<lambda>d. d\<lparr>array_sectors := sectors\<rparr>) s2)\<lparr>capacity := sectors\<rparr>) io m)
           (\<lambda>(_, s4, io4, m4). Ret (None, s4, io4, m4))
       else Ret (None, s2, io, m))"
proof -
  let ?ev = "as_env c" and ?x = "placed_by c"
  have n: "unat n \<le> MD_SB_DISKS" using ok by (simp add: places_ok_def)
  define s1 where "s1 = (if nb_dev (md s) = 0
    then snd (set_array_info ?ev (array_info_init\<lparr>ai_nr_disks := n, ai_raid_disks := n\<rparr>) s) else s)"
  obtain sb where part: "part_array n xs sb s1"
    using first_info [OF b n _ less] go unfolding s1_def call_goes_def by blast
  have imp: "import_goes ?ev (pl_dev ?x) (pl_idx ?x)" using go by (simp add: call_goes_def)
  obtain s2 sb2 where s2: "add_new_disk ?ev (info_of c) s1 = Ret (None, s2)" "part_array n (?x # xs) sb2 s2"
    "in_step ?ev (?x # xs) sb2 s2"
    using add_one [OF part ok imp] unfolding info_of_def by blast
  have small: "Suc (length xs) < 2 ^ 32" using n less by (simp add: MD_SB_DISKS_def)
  have "nb_dev (md s2) = of_nat (Suc (length xs))" using s2(2) by (simp add: part_array_def)
  then have nb: "nb_dev (md s2) = n \<longleftrightarrow> Suc (length xs) = unat n"
    using unat_of_nat_small [of "Suc (length xs)", where 'a = 32] small by (simp only: word_unat_eq_iff) simp
  obtain dv where dv: "aa_bdev (as_args c) = Some dv" using go by (auto simp: call_goes_def)
  have tot: "aa_total (as_args c) = n" and mem: "aa_mem (as_args c) = (True, True, True)"
    using go by (auto simp: call_goes_def)
  have inf: "info_of c = \<lparr>in_number = aa_jrdev (as_args c), in_major = fst dv, in_minor = snd dv, in_raid_disk = aa_jrdev (as_args c),
      in_state = 0\<rparr>" by (simp add: info_of_def dv)
  have "add_store ?ev (as_answers c) run (as_args c) s io m = bind_outcome (add_new_disk ?ev (info_of c) s1) (\<lambda>(_, s2).
     if nb_dev (md s2) = n then
       let sectors = jmddev_size (md s2) (n + 1); s3 = (upd_md (\<lambda>d. d\<lparr>array_sectors := sectors\<rparr>) s2)\<lparr>capacity := sectors\<rparr>
       in bind_outcome (do_jmd_run ?ev (as_answers c) run s3 io m) (\<lambda>(_, s4, io4, m4). Ret (None, s4, io4, m4))
     else Ret (None, s2, io, m))"
    unfolding add_store_def inf s1_def tot mem dv by (simp add: Let_def)
  then show ?thesis using s2 nb by (intro exI [of _ s2] exI [of _ sb2]) (simp add: Let_def)
qed

lemma add_all_runs:
  fixes ops :: "'m mem_ops"
  assumes "building n xs s" "places_ok n (rev (map placed_by cs) @ xs)" "length xs + length cs = unat n" "cs \<noteq> []"
    and "\<forall>c \<in> set cs. call_goes n c"
    and "\<forall>x \<in> set xs \<union> placed_by ` set cs. dev_big (as_env (last cs)) (pl_dev x)"
    and env: "run_goes re" "mem_enough ops" "mem_ok ops used objs"
  shows "\<exists>s' io' m' conf sb'. add_all (jraid5_run re ops) cs s io m = Ret (s', io', m') \<and>
    md_pers (md s') = Some RAID5 \<and> mdisks (md s') = map pl_idx (rev (map placed_by cs) @ xs) \<and>
    md_private (md s') = Some conf \<and> filled n (rev (map placed_by cs) @ xs) conf \<and>
    cache_inv (\<lambda>_. 0) conf \<and> length (live conf) = NR_STRIPES \<and> inactive_list conf = live conf \<and> new_conf conf \<and> chunk_size conf = 32768 \<and>
    algorithm conf = ALGORITHM_LEFT_ASYMMETRIC \<and> md_sb (md s') = Some sb' \<and> \<not> bit (sb_state sb') MD_SB_CLEAN"
  using assms(1-6)
proof (induction cs arbitrary: xs s)
  case (Cons c cs)
  let ?run = "jraid5_run re ops" and ?x = "placed_by c"
  have ok: "places_ok n (?x # xs)" using Cons.prems(2) by (auto simp: places_ok_def)
  have less: "length xs < unat n" using Cons.prems(3) by simp
  have go: "call_goes n c" using Cons.prems(5) by simp
  obtain s2 sb2 where s2: "part_array n (?x # xs) sb2 s2" "in_step (as_env c) (?x # xs) sb2 s2"
    "add_store (as_env c) (as_answers c) ?run (as_args c) s io m =
      (if Suc (length xs) = unat n then
         let sectors = jmddev_size (md s2) (n + 1) in
         bind_outcome (do_jmd_run (as_env c) (as_answers c) ?run ((upd_md (\<lambda>d. d\<lparr>array_sectors := sectors\<rparr>) s2)\<lparr>capacity := sectors\<rparr>) io m)
           (\<lambda>(_, s4, io4, m4). Ret (None, s4, io4, m4))
       else Ret (None, s2, io, m))"
    using add_store_step [where run = "jraid5_run re ops" and io = io and m = m, OF Cons.prems(1) go ok less] by blast
  show ?case
  proof (cases "cs = []")
    case False
    have "building n (?x # xs) s2" using s2(1) by (auto simp: building_def)
    moreover have "\<forall>x \<in> set (?x # xs) \<union> placed_by ` set cs. dev_big (as_env (last cs)) (pl_dev x)"
      using Cons.prems(6) False by auto
    ultimately have IH: "\<exists>s' io' m' conf sb'. add_all ?run cs s2 io m = Ret (s', io', m') \<and>
      md_pers (md s') = Some RAID5 \<and> mdisks (md s') = map pl_idx (rev (map placed_by cs) @ ?x # xs) \<and>
      md_private (md s') = Some conf \<and> filled n (rev (map placed_by cs) @ ?x # xs) conf \<and>
      cache_inv (\<lambda>_. 0) conf \<and> length (live conf) = NR_STRIPES \<and> inactive_list conf = live conf \<and> new_conf conf \<and> chunk_size conf = 32768 \<and>
      algorithm conf = ALGORITHM_LEFT_ASYMMETRIC \<and> md_sb (md s') = Some sb' \<and> \<not> bit (sb_state sb') MD_SB_CLEAN"
      using Cons.prems False by (intro Cons.IH) auto
    have "Suc (length xs) \<noteq> unat n" using Cons.prems(3) False by (cases cs) auto
    then show ?thesis using s2(3) IH by simp
  next
    case True
    define s3 where "s3 = (upd_md (\<lambda>d. d\<lparr>array_sectors := jmddev_size (md s2) (n + 1)\<rparr>) s2)\<lparr>capacity := jmddev_size (md s2) (n + 1)\<rparr>"
    have s3: "part_array n (?x # xs) sb2 s3" "in_step (as_env c) (?x # xs) sb2 s3"
      using s2(1,2) by (simp_all add: s3_def part_array_def in_step_def)
    have len: "length (?x # xs) = unat n" "n \<noteq> 0" using Cons.prems(3) True by auto
    have big: "dev_big (as_env c) (pl_dev y)" if "y \<in> set (?x # xs)" for y using Cons.prems(6) True that by auto
    obtain s' io' m' conf sb' where r: "do_jmd_run (as_env c) (as_answers c) ?run s3 io m = Ret (None, s', io', m')"
      "md_pers (md s') = Some RAID5 \<and> mdisks (md s') = map pl_idx (?x # xs) \<and> md_private (md s') = Some conf \<and>
      filled n (?x # xs) conf \<and>
      cache_inv (\<lambda>_. 0) conf \<and> length (live conf) = NR_STRIPES \<and> inactive_list conf = live conf \<and> new_conf conf \<and> chunk_size conf = 32768 \<and>
      algorithm conf = ALGORITHM_LEFT_ASYMMETRIC \<and> md_sb (md s') = Some sb' \<and> \<not> bit (sb_state sb') MD_SB_CLEAN"
      using do_run_part [OF s3 len big env] by blast
    have "add_all ?run (c # cs) s io m = Ret (s', io', m')"
      using s2(3) len(1) True r(1) by (simp add: s3_def [symmetric] Let_def)
    then show ?thesis using r(2) True by (intro exI [of _ s'] exI [of _ io'] exI [of _ m'] exI [of _ conf] exI [of _ sb']) simp
  qed
qed simp


text \<open>
  C22 What the sysfs file \<open>add\<close> is for. The user announces an array of \<open>n\<close> devices and adds them in
  any order, one \<open>add_store\<close> after the other, each with a number of its own below \<open>n\<close>: if no
  allocation fails, every device opens and is large enough for a chunk, then all calls return, and
  after the last one the array runs under the RAID-5 personality, with a left-asymmetric layout and
  chunks of 32 KB and the code's level 5. Every one of its \<open>n\<close> slots is operational and held by exactly the device the user
  gave that number, all \<open>n\<close> devices count as working, the cache has its 1024 stripes, all of them
  free, and the array's superblock no longer says that the array is clean.
\<close>

theorem assembly_runs_array:
  assumes new: "no_array s" and devs: "places_ok n (map placed_by cs)" "length cs = unat n" "cs \<noteq> []"
    and goes: "\<forall>c \<in> set cs. call_goes n c \<and> dev_big (as_env (last cs)) (pl_dev (placed_by c))"
    and env: "run_goes re" "mem_enough ops" "mem_ok ops used objs"
  shows "\<exists>s' io' m' conf sb'. add_all (jraid5_run re ops) cs s io m = Ret (s', io', m') \<and>
    md_pers (md s') = Some RAID5 \<and> mdisks (md s') = map pl_idx (rev (map placed_by cs)) \<and>
    md_private (md s') = Some conf \<and> filled n (rev (map placed_by cs)) conf \<and>
    cache_inv (\<lambda>_. 0) conf \<and> length (live conf) = NR_STRIPES \<and> inactive_list conf = live conf \<and> new_conf conf \<and> chunk_size conf = 32768 \<and>
    algorithm conf = ALGORITHM_LEFT_ASYMMETRIC \<and> md_sb (md s') = Some sb' \<and> \<not> bit (sb_state sb') MD_SB_CLEAN"
proof -
  have "building n [] s" using new by (simp add: building_def)
  moreover have "places_ok n (rev (map placed_by cs) @ [])" using devs(1) by (simp add: places_ok_def rev_map [symmetric])
  ultimately show ?thesis using add_all_runs [of n "[]" s cs re ops used objs io m] devs(2,3) goes env by simp
qed

definition new_md :: jmd_state where
  "new_md = md_example\<lparr>all_jraid_disks := [], md := (md md_example)\<lparr>md_sb := None, mdisks := [], nb_dev := 0\<rparr>\<rparr>"

definition call_example :: "nat \<Rightarrow> u32 \<Rightarrow> u32 \<Rightarrow> asm_call" where
  "call_example i k minor = \<lparr>as_env = ev_example\<lparr>ev_kmalloc := Some i\<rparr>, as_answers = (\<lambda>_. (True, True)),
     as_args = \<lparr>aa_total = 3, aa_jrdev = k, aa_bdev = Some (8, minor), aa_mem = (True, True, True)\<rparr>\<rparr>"

definition calls_example :: "asm_call list" where
  "calls_example = [call_example 4 2 16, call_example 9 0 32, call_example 7 1 48]"

lemma calls_example_ok:
  "no_array new_md" "places_ok 3 (map placed_by calls_example)" "length calls_example = 3"
  "\<forall>c \<in> set calls_example. call_goes 3 c \<and> dev_big (as_env (last calls_example)) (pl_dev (placed_by c))"
  "run_goes run_example" "mem_enough mem_example"
proof -
  show "no_array new_md" by (simp add: no_array_def new_md_def md_example_def)
  show "places_ok 3 (map placed_by calls_example)"
    by (simp add: places_ok_def calls_example_def call_example_def placed_by_def ev_example_def MD_SB_DISKS_def)
  show "\<forall>c \<in> set calls_example. call_goes 3 c \<and> dev_big (as_env (last calls_example)) (pl_dev (placed_by c))"
    by (simp add: calls_example_def call_goes_def import_goes_def call_example_def placed_by_def ev_example_def dev_big_def
        MD_NEW_SIZE_BLOCKS_def MD_RESERVED_BLOCKS_def MD_RESERVED_BYTES_def)
  show "mem_enough mem_example" by (simp add: mem_enough_def mem_example_def split: prod.split)
qed (simp_all add: calls_example_def run_goes_def run_example_def)

theorem assembly_runs_array_witness:
  "\<exists>s' io' m' conf. add_all (jraid5_run run_example mem_example) calls_example new_md io_start ([], []) = Ret (s', io', m') \<and>
     md_pers (md s') = Some RAID5 \<and> mdisks (md s') = [7, 9, 4] \<and>
     md_private (md s') = Some conf \<and> working_disks conf = 3 \<and> length (live conf) = 1024 \<and> di_jrdev (disks conf ! 2) = Some 4"
proof -
  note ok = calls_example_ok
  have ne: "length calls_example = unat (3 :: u32)" "calls_example \<noteq> []" using ok(3) by (simp, auto)
  obtain s' io' m' conf where
    r: "add_all (jraid5_run run_example mem_example) calls_example new_md io_start ([], []) = Ret (s', io', m')"
      "md_pers (md s') = Some RAID5" "mdisks (md s') = map pl_idx (rev (map placed_by calls_example))"
      "md_private (md s') = Some conf" "filled 3 (rev (map placed_by calls_example)) conf" "length (live conf) = NR_STRIPES"
    using assembly_runs_array [OF ok(1,2) ne ok(4-6) mem_example_ok, of io_start "([], [])"] by auto
  have "mdisks (md s') = [7, 9, 4]" using r(3) by (simp add: calls_example_def placed_by_def call_example_def ev_example_def)
  moreover have "working_disks conf = 3" "di_jrdev (disks conf ! 2) = Some 4" using r(5)
    by (simp_all add: calls_example_def filled_def Let_def placed_by_def call_example_def ev_example_def)
  ultimately show ?thesis using r(1,2,4,6) unfolding NR_STRIPES_def by (intro exI conjI) assumption+
qed

end
