(* ===== verification/Stripe_Bio.thy ===== *)
theory Stripe_Bio
  imports Stripe_Cache
begin

text \<open>
  Chaining bios on a stripe and moving their data, \<^verbatim>\<open>src/src/jraid5.c\<close>:
  \<open>__add_stripe_bio\<close> with the macro \<open>r5_next_bio\<close>, and \<open>copy_data\<close>.

  A chain is the list of the bios reached through \<open>bi_next\<close>. \<open>__add_stripe_bio\<close> is called on
  a bio whose \<open>bi_next\<close> is NULL (\<open>jraid5_make_request\<close> clears it), so its \<open>BUG()\<close> on a bio
  that is already linked elsewhere cannot be reached and has no branch here.

  The chains are shown to stay sorted sets of disjoint sector intervals, and the flag
  \<open>R5_OVERWRITE\<close> to mean that the write chain covers the page. \<open>copy_data\<close> is shown to be the
  overlay of two byte strings at a given offset.
\<close>

unbundle bit_operations_syntax

section \<open>The code\<close>

definition bi_end :: "bio \<Rightarrow> sector_t" where
  "bi_end b = bi_sector b + ucast (drop_bit 9 (bi_size b))"

fun insert_bio :: "bio \<Rightarrow> bio list \<Rightarrow> bio list option" where
  "insert_bio bi [] = Some [bi]"
| "insert_bio bi (b # bs) =
     (if bi_sector b < bi_sector bi then
        if bi_end b > bi_sector bi then None else map_option ((#) b) (insert_bio bi bs)
      else if bi_sector b < bi_end bi then None else Some (bi # b # bs))"

definition stripe_sectors :: sector_t where
  "stripe_sectors = of_nat STRIPE_SECTORS"

text \<open>The loop that looks how far the chain covers the page; \<open>r5_next_bio\<close> ends it.\<close>

fun covered :: "sector_t \<Rightarrow> sector_t \<Rightarrow> bio list \<Rightarrow> sector_t" where
  "covered dsec sect [] = sect"
| "covered dsec sect (b # bs) =
     (if sect < dsec + stripe_sectors \<and> bi_sector b \<le> sect then
        let sect' = (if bi_end b \<ge> sect then bi_end b else sect)
        in if bi_end b < dsec + stripe_sectors then covered dsec sect' bs else sect'
      else sect)"

definition set_dev_flag :: "nat \<Rightarrow> r5dev \<Rightarrow> r5dev" where
  "set_dev_flag n d = d\<lparr>dev_flags := set_bit n (dev_flags d)\<rparr>"

definition clear_dev_flag :: "nat \<Rightarrow> r5dev \<Rightarrow> r5dev" where
  "clear_dev_flag n d = d\<lparr>dev_flags := unset_bit n (dev_flags d)\<rparr>"

definition add_stripe_bio :: "stripe_head \<Rightarrow> bio \<Rightarrow> nat \<Rightarrow> bool \<Rightarrow> bool \<times> stripe_head" where
  "add_stripe_bio sh bi dd_idx forwrite =
     (let d = dev sh ! dd_idx in
      case insert_bio bi (if forwrite then towrite d else toread d) of
        None \<Rightarrow> (False, upd_dev dd_idx (set_dev_flag R5_Overlap) sh)
      | Some bs \<Rightarrow>
          if forwrite then
            let sh1 = upd_dev dd_idx (\<lambda>d. d\<lparr>towrite := bs\<rparr>) sh;
                dsec = dev_sector (dev sh1 ! dd_idx)
            in (True, if dsec + stripe_sectors \<le> covered dsec dsec (towrite (dev sh1 ! dd_idx))
                      then upd_dev dd_idx (set_dev_flag R5_OVERWRITE) sh1 else sh1)
          else (True, upd_dev dd_idx (\<lambda>d. d\<lparr>toread := bs\<rparr>) sh))"

definition memcpy :: "u8 list \<Rightarrow> int \<Rightarrow> u8 list \<Rightarrow> int \<Rightarrow> int \<Rightarrow> u8 list" where
  "memcpy dst doff src soff n =
     take (nat doff) dst @ take (nat n) (drop (nat soff) src) @ drop (nat doff + nat n) dst"

text \<open>
  The loop of \<open>copy_data\<close> over the segments of a bio; \<open>off\<close> is \<open>page_offset\<close>. It stays
  between the initial offset and a page, so plain integers stand for the C \<open>int\<close> here; the
  initial offset is computed on words.
\<close>

fun copy_segs :: "bool \<Rightarrow> int \<Rightarrow> u8 list list \<Rightarrow> u8 list \<Rightarrow> u8 list list \<times> u8 list" where
  "copy_segs frombio off [] pa = ([], pa)"
| "copy_segs frombio off (ba # bas) pa =
     (let b_offset = (if off < 0 then - off else 0);
          off1 = off + b_offset;
          len = int (length ba) - b_offset;
          clen = (if len > 0 \<and> off1 + len > int STRIPE_SIZE then int STRIPE_SIZE - off1 else len);
          pa1 = (if clen > 0 \<and> frombio then memcpy pa off1 ba b_offset clen else pa);
          ba1 = (if clen > 0 \<and> \<not> frombio then memcpy ba b_offset pa off1 clen else ba)
      in if clen < len then (ba1 # bas, pa1)
         else let (bas', pa') = copy_segs frombio (off1 + len) bas pa1 in (ba1 # bas', pa'))"

definition page_offset :: "sector_t \<Rightarrow> sector_t \<Rightarrow> int" where
  "page_offset bsect sect =
     (if bsect \<ge> sect then sint ((ucast (bsect - sect) :: cint) * 512)
      else sint ((ucast (sect - bsect) :: cint) * - 512))"

definition copy_data :: "bool \<Rightarrow> sector_t \<Rightarrow> u8 list list \<Rightarrow> u8 list \<Rightarrow> sector_t \<Rightarrow> u8 list list \<times> u8 list" where
  "copy_data frombio bsect bas pa sect = copy_segs frombio (page_offset bsect sect) bas pa"

section \<open>Chains as sets of sectors\<close>

text \<open>The sectors of a bio, as numbers; a well-formed bio has at least one and does not wrap.\<close>

definition bio_ok :: "bio \<Rightarrow> bool" where
  "bio_ok b \<longleftrightarrow> 512 \<le> unat (bi_size b) \<and> unat (bi_sector b) + unat (bi_size b) div 512 < 2 ^ 64"

definition sectors :: "bio \<Rightarrow> nat set" where
  "sectors b = {unat (bi_sector b) ..< unat (bi_sector b) + unat (bi_size b) div 512}"

definition chain_ok :: "bio list \<Rightarrow> bool" where
  "chain_ok bs \<longleftrightarrow> (\<forall>b \<in> set bs. bio_ok b) \<and> sorted_wrt (\<lambda>a b. bi_end a \<le> bi_sector b) bs"

lemma unat_bi_end: "bio_ok b \<Longrightarrow> unat (bi_end b) = unat (bi_sector b) + unat (bi_size b) div 512"
  unfolding bi_end_def
  by (subst unat_add_no_wrap) (simp_all add: bio_ok_def drop_bit_eq_div unat_div)

lemma sectors_end: "bio_ok b \<Longrightarrow> sectors b = {unat (bi_sector b) ..< unat (bi_end b)}"
  by (simp add: sectors_def unat_bi_end)

lemma bi_end_gt: "bio_ok b \<Longrightarrow> bi_sector b < bi_end b"
  by (simp add: word_less_nat_alt unat_bi_end) (simp add: bio_ok_def div_greater_zero_iff)

lemma disjoint_sectors:
  assumes "bio_ok a" "bio_ok b"
  shows "sectors a \<inter> sectors b = {} \<longleftrightarrow> bi_end a \<le> bi_sector b \<or> bi_end b \<le> bi_sector a"
  using bi_end_gt [OF assms(1)] bi_end_gt [OF assms(2)] assms
  by (auto simp: sectors_end word_less_nat_alt word_le_nat_alt)

lemma chain_ok_Cons:
  "chain_ok (b # bs) \<longleftrightarrow> bio_ok b \<and> chain_ok bs \<and> (\<forall>c \<in> set bs. bi_end b \<le> bi_sector c)"
  by (auto simp: chain_ok_def)

lemma insert_bio_set: "insert_bio bi bs = Some cs \<Longrightarrow> set cs = insert bi (set bs) \<and> length cs = Suc (length bs)"
  by (induction bs arbitrary: cs) (auto split: if_splits)

lemma insert_bio_Some_iff:
  assumes "chain_ok bs" "bio_ok bi"
  shows "insert_bio bi bs \<noteq> None \<longleftrightarrow> (\<forall>b \<in> set bs. sectors b \<inter> sectors bi = {})"
  using assms
proof (induction bs)
  case (Cons b bs)
  have b: "bio_ok b" "bi_sector b < bi_end b" and later: "\<forall>c \<in> set bs. bi_end b \<le> bi_sector c"
    and bi: "bi_sector bi < bi_end bi"
    using Cons.prems by (auto simp: chain_ok_Cons bi_end_gt)
  have ok: "\<forall>c \<in> set bs. bio_ok c" using Cons.prems by (simp add: chain_ok_def)
  show ?case
  proof (cases "bi_sector b < bi_sector bi")
    case True
    then have "\<not> bi_end bi \<le> bi_sector b" using bi by auto
    then show ?thesis
      using True Cons b disjoint_sectors [OF b(1) Cons.prems(2)] by (auto simp: chain_ok_Cons)
  next
    case False
    have "sectors c \<inter> sectors bi = {}" if "bi_end bi \<le> bi_sector b" "c \<in> set bs" for c
    proof -
      have "bi_end bi \<le> bi_sector c" using that later b(2) by (meson less_imp_le order_trans)
      then show ?thesis using disjoint_sectors [of c bi] ok that(2) Cons.prems(2) by simp
    qed
    moreover have "\<not> bi_end b \<le> bi_sector bi" using False b(2) by auto
    ultimately show ?thesis
      using False disjoint_sectors [OF b(1) Cons.prems(2)] by (auto simp: not_less)
  qed
qed simp

lemma insert_bio_ok:
  assumes "chain_ok bs" "bio_ok bi" "insert_bio bi bs = Some cs"
  shows "chain_ok cs"
  using assms
proof (induction bs arbitrary: cs)
  case (Cons b bs)
  have b: "bio_ok b" "bi_sector b < bi_end b" and later: "\<forall>c \<in> set bs. bi_end b \<le> bi_sector c"
    and bi: "bi_sector bi < bi_end bi"
    using Cons.prems by (auto simp: chain_ok_Cons bi_end_gt)
  show ?case
  proof (cases "bi_sector b < bi_sector bi")
    case True
    then obtain ds where ds: "insert_bio bi bs = Some ds" "cs = b # ds" "bi_end b \<le> bi_sector bi"
      using Cons.prems(3) by (auto split: if_splits simp: not_less)
    then have "chain_ok ds" using Cons by (simp add: chain_ok_Cons)
    then show ?thesis using ds b later insert_bio_set [OF ds(1)] by (simp add: chain_ok_Cons)
  next
    case False
    then have cs: "cs = bi # b # bs" and le: "bi_end bi \<le> bi_sector b"
      using Cons.prems(3) by (auto split: if_splits simp: not_less)
    have "bi_end bi \<le> bi_sector c" if "c \<in> set bs" for c
      using that later le b(2) by (meson less_imp_le order_trans)
    then show ?thesis using cs le Cons.prems(1,2) by (simp add: chain_ok_Cons)
  qed
qed (auto simp: chain_ok_def)

lemma all_from_max:
  fixes s e u :: nat
  assumes "\<And>t. s \<le> t \<Longrightarrow> Q t \<longleftrightarrow> t < e \<or> P t"
  shows "(\<forall>t. s \<le> t \<and> t < u \<longrightarrow> Q t) \<longleftrightarrow> (\<forall>t. max s e \<le> t \<and> t < u \<longrightarrow> P t)"
proof
  assume "\<forall>t. s \<le> t \<and> t < u \<longrightarrow> Q t"
  then show "\<forall>t. max s e \<le> t \<and> t < u \<longrightarrow> P t" using assms by fastforce
next
  assume *: "\<forall>t. max s e \<le> t \<and> t < u \<longrightarrow> P t"
  show "\<forall>t. s \<le> t \<and> t < u \<longrightarrow> Q t"
  proof (intro allI impI)
    fix t assume t: "s \<le> t \<and> t < u"
    then show "Q t" using * assms by (cases "t < e") auto
  qed
qed

lemma covered_iff:
  assumes "chain_ok bs" and T: "unat dsec + 8 < 2 ^ 64"
  shows "dsec + stripe_sectors \<le> covered dsec sect bs \<longleftrightarrow>
    (\<forall>t. unat sect \<le> t \<and> t < unat dsec + 8 \<longrightarrow> (\<exists>b \<in> set bs. t \<in> sectors b))"
  using assms(1)
proof (induction bs arbitrary: sect)
  case Nil
  have "unat (dsec + stripe_sectors) = unat dsec + 8"
    using T by (subst unat_add_no_wrap) (simp_all add: stripe_sectors_def stripe_consts)
  then show ?case by (auto simp: word_le_nat_alt)
next
  case (Cons b bs)
  have end_T: "unat (dsec + stripe_sectors) = unat dsec + 8"
    using T by (subst unat_add_no_wrap) (simp_all add: stripe_sectors_def stripe_consts)
  have b: "bio_ok b" and ok: "chain_ok bs" and later: "\<forall>c \<in> set bs. bi_end b \<le> bi_sector c"
    using Cons.prems by (auto simp: chain_ok_Cons)
  have after: "unat (bi_end b) \<le> t" if "t \<in> sectors c" "c \<in> set bs" for t c
    using that later by (auto simp: sectors_def word_le_nat_alt)
  consider "dsec + stripe_sectors \<le> sect" | "sect < dsec + stripe_sectors" "sect < bi_sector b"
    | "sect < dsec + stripe_sectors" "bi_sector b \<le> sect" by (meson not_le)
  then show ?case
  proof cases
    case 1
    then have "covered dsec sect (b # bs) = sect" and "unat dsec + 8 \<le> unat sect"
      using end_T by (simp_all add: leD word_le_nat_alt)
    then show ?thesis using 1 by (auto simp del: covered.simps)
  next
    case 2
    have "unat sect \<notin> sectors b" using 2 by (auto simp: sectors_def word_less_nat_alt)
    moreover have "unat sect \<notin> sectors c" if "c \<in> set bs" for c
      using after [OF _ that, of "unat sect"] bi_end_gt [OF b] 2 by (auto simp: word_less_nat_alt)
    ultimately have "\<not> (\<forall>t. unat sect \<le> t \<and> t < unat dsec + 8 \<longrightarrow> (\<exists>c \<in> set (b # bs). t \<in> sectors c))"
      using 2 end_T by (auto simp: word_less_nat_alt intro!: exI [of _ "unat sect"])
    moreover have "covered dsec sect (b # bs) = sect" "\<not> dsec + stripe_sectors \<le> sect"
      using 2 by (auto simp: not_le)
    ultimately show ?thesis by metis
  next
    case 3
    let ?s = "if bi_end b \<ge> sect then bi_end b else sect"
    have cov: "(\<exists>c \<in> set (b # bs). t \<in> sectors c) \<longleftrightarrow> t < unat (bi_end b) \<or> (\<exists>c \<in> set bs. t \<in> sectors c)"
      if "unat sect \<le> t" for t
      using that 3 by (auto simp: sectors_end [OF b] word_le_nat_alt)
    have max: "unat ?s = max (unat sect) (unat (bi_end b))" by (auto simp: word_le_nat_alt)
    have rest: "(\<forall>t. unat sect \<le> t \<and> t < unat dsec + 8 \<longrightarrow> (\<exists>c \<in> set (b # bs). t \<in> sectors c)) \<longleftrightarrow>
        (\<forall>t. unat ?s \<le> t \<and> t < unat dsec + 8 \<longrightarrow> (\<exists>c \<in> set bs. t \<in> sectors c))"
      unfolding max using cov by (intro all_from_max) blast
    have step: "covered dsec sect (b # bs) =
        (if bi_end b < dsec + stripe_sectors then covered dsec ?s bs else ?s)"
      using 3 by (simp add: Let_def)
    show ?thesis
    proof (cases "bi_end b < dsec + stripe_sectors")
      case True
      then show ?thesis unfolding rest step using Cons.IH [OF ok, of ?s] by simp
    next
      case False
      then have "dsec + stripe_sectors \<le> ?s \<and> unat dsec + 8 \<le> unat ?s"
        using 3 end_T by (auto simp: word_le_nat_alt word_less_nat_alt)
      then show ?thesis unfolding rest step using False by auto
    qed
  qed
qed

section \<open>Copying as an overlay\<close>

text \<open>\<open>overlay off src dst\<close>: \<open>dst\<close> with \<open>src\<close> laid over it from position \<open>off\<close> on.\<close>

definition overlay :: "int \<Rightarrow> u8 list \<Rightarrow> u8 list \<Rightarrow> u8 list" where
  "overlay off src dst = map (\<lambda>j. let k = int j - off in
     if 0 \<le> k \<and> k < int (length src) then src ! nat k else dst ! j) [0..<length dst]"

lemma length_overlay [simp]: "length (overlay off src dst) = length dst"
  by (simp add: overlay_def)

lemma nth_overlay:
  "j < length dst \<Longrightarrow> overlay off src dst ! j =
     (if off \<le> int j \<and> int j - off < int (length src) then src ! nat (int j - off) else dst ! j)"
  by (simp add: overlay_def Let_def)

lemma overlay_Nil [simp]: "overlay off [] dst = dst"
  by (rule nth_equalityI) (auto simp: nth_overlay)

lemma overlay_Nil_dst [simp]: "overlay off src [] = []"
  by (simp add: overlay_def)

lemma overlay_append:
  "overlay off (a @ b) dst = overlay (off + int (length a)) b (overlay off a dst)"
  by (rule nth_equalityI) (auto simp: nth_overlay nth_append nat_diff_distrib' diff_diff_eq
      intro!: arg_cong [where f = "nth b"])

lemma overlay_dst_append:
  "overlay off src (a @ b) = overlay off src a @ overlay (off - int (length a)) src b"
  by (rule nth_equalityI) (auto simp: nth_overlay nth_append algebra_simps
      intro!: arg_cong [where f = "nth src"])

lemma overlay_outside:
  "int (length dst) \<le> off \<or> off + int (length src) \<le> 0 \<Longrightarrow> overlay off src dst = dst"
  by (rule nth_equalityI) (auto simp: nth_overlay)

lemma length_memcpy:
  "0 \<le> doff \<Longrightarrow> 0 \<le> n \<Longrightarrow> doff + n \<le> int (length dst) \<Longrightarrow> 0 \<le> soff \<Longrightarrow> soff + n \<le> int (length src) \<Longrightarrow>
   length (memcpy dst doff src soff n) = length dst"
  by (simp add: memcpy_def)

lemma memcpy_overlay:
  assumes "0 \<le> doff" "0 \<le> n" "doff + n \<le> int (length dst)" "0 \<le> soff" "soff + n \<le> int (length src)"
    and clip: "\<And>j. j < length dst \<Longrightarrow> (doff \<le> int j \<and> int j < doff + n) \<longleftrightarrow>
      (off \<le> int j \<and> int j - off < int (length src))"
    and off: "off = doff - soff"
  shows "memcpy dst doff src soff n = overlay off src dst"
proof (rule nth_equalityI)
  show "length (memcpy dst doff src soff n) = length (overlay off src dst)"
    using assms by (simp add: length_memcpy)
  fix j assume "j < length (memcpy dst doff src soff n)"
  then have j: "j < length dst" using assms by (simp add: length_memcpy)
  consider "int j < doff" | "doff \<le> int j" "int j < doff + n" | "doff + n \<le> int j" by linarith
  then show "memcpy dst doff src soff n ! j = overlay off src dst ! j"
  proof cases
    case 1
    then have "j < nat doff" "\<not> (off \<le> int j \<and> int j - off < int (length src))"
      using clip [OF j] by auto
    then show ?thesis using j by (simp only: nth_overlay memcpy_def nth_append) simp
  next
    case 2
    have lens: "length (take (nat doff) dst) = nat doff"
      "length (take (nat n) (drop (nat soff) src)) = nat n" using assms by simp_all
    have "\<not> j < nat doff" "j - nat doff < nat n" "nat soff \<le> length src" using 2 assms by linarith+
    then have "memcpy dst doff src soff n ! j = src ! (nat soff + (j - nat doff))"
      unfolding memcpy_def nth_append lens by simp
    moreover have "nat soff + (j - nat doff) = nat (int j - off)" using 2 assms by linarith
    ultimately show ?thesis using j 2 clip [OF j] by (simp add: nth_overlay)
  next
    case 3
    have lens: "length (take (nat doff) dst) = nat doff"
      "length (take (nat n) (drop (nat soff) src)) = nat n" using assms by simp_all
    have "\<not> j < nat doff" "\<not> j - nat doff < nat n" "nat doff + nat n + (j - nat doff - nat n) = j"
      using 3 assms by linarith+
    then have "memcpy dst doff src soff n ! j = dst ! j"
      unfolding memcpy_def nth_append lens using j by simp
    moreover have "\<not> (off \<le> int j \<and> int j - off < int (length src))" using 3 clip [OF j] by auto
    ultimately show ?thesis using j by (simp only: nth_overlay if_False)
  qed
qed

lemma copy_segs_from_bio:
  "length pa = 4096 \<Longrightarrow> copy_segs True off bas pa = (bas, overlay off (concat bas) pa)"
proof (induction bas arbitrary: off pa)
  case (Cons ba bas)
  define b where "b = (if off < 0 then - off else 0)"
  define len where "len = int (length ba) - b"
  define clen where "clen = (if len > 0 \<and> off + b + len > 4096 then 4096 - (off + b) else len)"
  have b: "0 \<le> b" "0 \<le> off + b" by (auto simp: b_def)
  have pa1: "(if clen > 0 then memcpy pa (off + b) ba b clen else pa) = overlay off ba pa"
  proof (cases "clen > 0")
    case True
    have "memcpy pa (off + b) ba b clen = overlay off ba pa"
      by (rule memcpy_overlay)
         (use True b Cons.prems in \<open>auto simp: clen_def len_def b_def split: if_splits\<close>)
    then show ?thesis using True by simp
  next
    case False
    then have "ba = [] \<or> int (length pa) \<le> off \<or> off + int (length ba) \<le> 0"
      using Cons.prems by (auto simp: clen_def len_def b_def split: if_splits)
    then show ?thesis using False by (auto simp: overlay_outside)
  qed
  have step: "copy_segs True off (ba # bas) pa =
     (if clen < len then (ba # bas, overlay off ba pa)
      else let (bas', pa') = copy_segs True (off + b + len) bas (overlay off ba pa) in (ba # bas', pa'))"
    unfolding copy_segs.simps Let_def STRIPE_SIZE_def PAGE_SIZE_def
    by (simp flip: b_def len_def pa1 add: clen_def)
  have next_off: "off + b + len = off + int (length ba)" by (simp add: len_def)
  show ?case
  proof (cases "clen < len")
    case True
    then have "4096 \<le> off + int (length ba)" by (auto simp: clen_def len_def split: if_splits)
    then show ?thesis using True Cons.prems by (simp add: step overlay_append overlay_outside del: copy_segs.simps)
  next
    case False
    then show ?thesis using Cons by (simp add: step next_off overlay_append del: copy_segs.simps)
  qed
qed simp

lemma copy_segs_to_bio:
  "length pa = 4096 \<Longrightarrow> \<exists>bas'. copy_segs False off bas pa = (bas', pa) \<and>
     map length bas' = map length bas \<and> concat bas' = overlay (- off) pa (concat bas)"
proof (induction bas arbitrary: off)
  case (Cons ba bas)
  define b where "b = (if off < 0 then - off else 0)"
  define len where "len = int (length ba) - b"
  define clen where "clen = (if len > 0 \<and> off + b + len > 4096 then 4096 - (off + b) else len)"
  have b: "0 \<le> b" "0 \<le> off + b" by (auto simp: b_def)
  have ba1: "(if clen > 0 then memcpy ba b pa (off + b) clen else ba) = overlay (- off) pa ba"
  proof (cases "clen > 0")
    case True
    have "memcpy ba b pa (off + b) clen = overlay (- off) pa ba"
      by (rule memcpy_overlay)
         (use True b Cons.prems in \<open>auto simp: clen_def len_def b_def split: if_splits\<close>)
    then show ?thesis using True by simp
  next
    case False
    then have "ba = [] \<or> int (length ba) \<le> - off \<or> - off + int (length pa) \<le> 0"
      using Cons.prems by (auto simp: clen_def len_def b_def split: if_splits)
    then show ?thesis using False by (auto simp: overlay_outside)
  qed
  have step: "copy_segs False off (ba # bas) pa =
     (if clen < len then (overlay (- off) pa ba # bas, pa)
      else let (bas', pa') = copy_segs False (off + b + len) bas pa in (overlay (- off) pa ba # bas', pa'))"
    unfolding copy_segs.simps Let_def STRIPE_SIZE_def PAGE_SIZE_def
    by (simp flip: b_def len_def ba1 add: clen_def)
  have next_off: "off + b + len = off + int (length ba)" by (simp add: len_def)
  show ?case
  proof (cases "clen < len")
    case True
    then have "4096 \<le> off + int (length ba)" by (auto simp: clen_def len_def split: if_splits)
    then have "overlay (- off - int (length ba)) pa (concat bas) = concat bas"
      using Cons.prems by (intro overlay_outside) simp
    then show ?thesis using True by (simp add: step overlay_dst_append del: copy_segs.simps)
  next
    case False
    then show ?thesis using Cons.IH [OF Cons.prems, of "off + int (length ba)"]
      by (auto simp: step next_off overlay_dst_append simp del: copy_segs.simps)
  qed
qed simp

section \<open>Properties\<close>

text \<open>
  C9 \<open>__add_stripe_bio\<close> keeps each chain a sorted list of disjoint sector intervals. It
  refuses a bio exactly when the bio shares a sector with one that is chained already, and then
  changes nothing but the flag \<open>R5_Overlap\<close>; otherwise the chain gains exactly that bio, and
  after a write \<open>R5_OVERWRITE\<close> is set, if it was not before, exactly when the chained writes
  cover every sector of the member's page.
\<close>

theorem add_stripe_bio_correct:
  assumes k: "k < length (dev sh)"
    and ok: "chain_ok (if forwrite then towrite (dev sh ! k) else toread (dev sh ! k))" "bio_ok bi"
    and page: "unat (dev_sector (dev sh ! k)) + 8 < 2 ^ 64"
  shows "let bs = (if forwrite then towrite (dev sh ! k) else toread (dev sh ! k));
       dsec = unat (dev_sector (dev sh ! k)) in
     if \<exists>b \<in> set bs. sectors b \<inter> sectors bi \<noteq> {} then
       add_stripe_bio sh bi k forwrite = (False, upd_dev k (set_dev_flag R5_Overlap) sh)
     else \<exists>sh'. add_stripe_bio sh bi k forwrite = (True, sh') \<and>
       (let d' = dev sh' ! k; bs' = (if forwrite then towrite d' else toread d') in
        chain_ok bs' \<and> set bs' = insert bi (set bs) \<and> length bs' = Suc (length bs) \<and>
        (if forwrite
         then bit (dev_flags d') R5_OVERWRITE \<longleftrightarrow> bit (dev_flags (dev sh ! k)) R5_OVERWRITE \<or>
           {dsec ..< dsec + 8} \<subseteq> (\<Union>b \<in> set bs'. sectors b)
         else dev_flags d' = dev_flags (dev sh ! k)))"
proof -
  define bs where "bs = (if forwrite then towrite (dev sh ! k) else toread (dev sh ! k))"
  define dsec where "dsec = dev_sector (dev sh ! k)"
  have bs: "chain_ok bs" using ok(1) by (simp add: bs_def)
  show ?thesis
  proof (cases "insert_bio bi bs")
    case None
    then show ?thesis
      using insert_bio_Some_iff [OF bs ok(2)]
      by (auto simp: add_stripe_bio_def Let_def simp flip: bs_def)
  next
    case (Some cs)
    have cs: "chain_ok cs" "set cs = insert bi (set bs)" "length cs = Suc (length bs)"
      using insert_bio_ok [OF bs ok(2) Some] insert_bio_set [OF Some] by auto
    have cov: "dsec + stripe_sectors \<le> covered dsec dsec cs \<longleftrightarrow>
        {unat dsec ..< unat dsec + 8} \<subseteq> (\<Union>b \<in> set cs. sectors b)"
      using covered_iff [OF cs(1), of dsec dsec] page by (auto simp: dsec_def subset_iff)
    have no: "\<not> (\<exists>b \<in> set bs. sectors b \<inter> sectors bi \<noteq> {})"
      using insert_bio_Some_iff [OF bs ok(2)] Some by auto
    show ?thesis
    proof (cases forwrite)
      case True
      have "add_stripe_bio sh bi k forwrite = (True, if dsec + stripe_sectors \<le> covered dsec dsec cs
          then upd_dev k (set_dev_flag R5_OVERWRITE) (upd_dev k (\<lambda>d. d\<lparr>towrite := cs\<rparr>) sh)
          else upd_dev k (\<lambda>d. d\<lparr>towrite := cs\<rparr>) sh)"
        using True Some k by (simp add: add_stripe_bio_def bs_def dsec_def Let_def upd_dev_def)
      then show ?thesis
        using True k cs no cov
        by (simp add: Let_def set_dev_flag_def upd_dev_def bit_flags R5_OVERWRITE_def flip: bs_def dsec_def)
           (auto simp: bs_def)
    next
      case False
      have "add_stripe_bio sh bi k forwrite = (True, upd_dev k (\<lambda>d. d\<lparr>toread := cs\<rparr>) sh)"
        using False Some by (simp add: add_stripe_bio_def bs_def Let_def)
      then show ?thesis
        using False k cs no by (auto simp: Let_def upd_dev_def bs_def)
    qed
  qed
qed

definition bio_example :: "sector_t \<Rightarrow> bio" where
  "bio_example s = \<lparr>bi_ptr = 1, bi_sector = s, bi_size = 2048\<rparr>"

theorem add_stripe_bio_correct_witness:
  "\<exists>sh'. add_stripe_bio ((zero_stripe 3)\<lparr>dev := replicate 3 (zero_dev\<lparr>towrite := [bio_example 0]\<rparr>)\<rparr>)
      (bio_example 4) 1 True = (True, sh') \<and> bit (dev_flags (dev sh' ! 1)) R5_OVERWRITE"
proof -
  let ?sh = "(zero_stripe 3)\<lparr>dev := replicate 3 (zero_dev\<lparr>towrite := [bio_example 0]\<rparr>)\<rparr>"
  have s: "sectors (bio_example 0) = {0..<4}" "sectors (bio_example 4) = {4..<8}"
    by (simp_all add: sectors_def bio_example_def)
  have cover: "{0..<8 :: nat} \<subseteq> {4..<8} \<union> {0..<4}" by auto
  have d: "dev ?sh ! 1 = zero_dev\<lparr>towrite := [bio_example 0]\<rparr>" "1 < length (dev ?sh)" by simp_all
  have f: "towrite (dev ?sh ! 1) = [bio_example 0]" "dev_sector (dev ?sh ! 1) = 0"
    "dev_flags (dev ?sh ! 1) = 0" by (simp_all add: zero_dev_def)
  have ok: "bio_ok (bio_example 0)" "bio_ok (bio_example 4)" by (simp_all add: bio_ok_def bio_example_def)
  then have c: "chain_ok [bio_example 0]" by (simp add: chain_ok_def)
  note r = add_stripe_bio_correct [OF d(2), of True "bio_example 4", unfolded f if_True Let_def]
  from r [OF c ok(2)] obtain sh' where sh': "add_stripe_bio ?sh (bio_example 4) 1 True = (True, sh')"
    "set (towrite (dev sh' ! 1)) = {bio_example 4, bio_example 0}"
    "bit (dev_flags (dev sh' ! 1)) R5_OVERWRITE \<longleftrightarrow>
       {0..<8} \<subseteq> (\<Union>b \<in> set (towrite (dev sh' ! 1)). sectors b)"
    by (auto simp: s)
  have "bit (dev_flags (dev sh' ! 1)) R5_OVERWRITE"
    unfolding sh'(3) unfolding sh'(2) using cover by (simp add: s)
  then show ?thesis using sh'(1) by blast
qed

text \<open>
  C10 \<open>copy_data\<close> is an overlay. With \<open>frombio\<close> the page becomes itself with the bytes of the
  whole bio laid over it at their distance from the page, and the bio is unchanged; without it
  every segment of the bio keeps its length and the bio's bytes become themselves with the page
  laid over them, and the page is unchanged. Bytes outside the intersection are never touched,
  for any segmentation of the bio.
\<close>

theorem copy_data_overlay:
  assumes "length pa = STRIPE_SIZE"
  shows "copy_data True bsect bas pa sect = (bas, overlay (page_offset bsect sect) (concat bas) pa) \<and>
    (\<exists>bas'. copy_data False bsect bas pa sect = (bas', pa) \<and> map length bas' = map length bas \<and>
       concat bas' = overlay (- page_offset bsect sect) pa (concat bas))"
  using assms copy_segs_from_bio [of pa "page_offset bsect sect" bas]
    copy_segs_to_bio [of pa "page_offset bsect sect" bas]
  by (simp add: copy_data_def stripe_consts)

theorem copy_data_overlay_witness:
  "copy_data True 9 [[1, 2]] (replicate 4096 0) 8 =
     ([[1, 2]], overlay 512 [1, 2] (replicate 4096 0))"
  using copy_data_overlay [of "replicate 4096 0" 9 "[[1, 2]]" 8]
  by (simp add: stripe_consts page_offset_def)

end
