(* ===== verification/Stripe_Handle.thy ===== *)
theory Stripe_Handle
  imports Stripe_Bio
begin

text \<open>
  \<open>handle_stripe\<close> of \<^verbatim>\<open>src/src/jraid5.c\<close>: the scan of the member devices, the flags of the
  parity member and the loop that submits the requests.

  \<open>generic_make_request\<close> is the kernel's; a submission is a \<open>request\<close> in the list the model
  returns, in the order of the calls. The block that returns finished writes is guarded by
  \<open>written\<close>, to which 0 is assigned in the statement before it, so it never runs, \<open>return_bi\<close>
  stays NULL, and the counters of the scan loop are dead: none of them has a counterpart here.
  A member's block device \<open>jrdev->bdev\<close> is named by the pointer \<open>jrdev\<close>.
\<close>

unbundle bit_operations_syntax

section \<open>The code\<close>

record request =
  rq_stripe :: sid
  rq_slot :: nat
  rq_bio :: req_bio

definition scan_dev :: "r5dev \<Rightarrow> r5dev" where
  "scan_dev d =
     (let d1 = (if toread d \<noteq> [] then set_dev_flag R5_Wantread d else d)
      in if towrite d \<noteq> [] then set_dev_flag R5_Wantwrite d1 else d1)"

definition parity_flags :: "r5dev \<Rightarrow> r5dev" where
  "parity_flags d = set_dev_flag R5_UPTODATE (clear_dev_flag R5_LOCKED (set_dev_flag R5_Insync d))"

definition submitted_bio :: "bool \<Rightarrow> nat \<Rightarrow> sector_t \<Rightarrow> req_bio \<Rightarrow> req_bio" where
  "submitted_bio rw jrdev sect b = b\<lparr>
     rq_end_io := Some (if rw then raid5_end_write else raid5_end_read),
     rq_bdev := Some jrdev, rq_rw := of_bool rw, rq_idx := 0, rq_sector := sect,
     rq_uptodate := True, rq_vcnt := 0, rq_max_vecs := 1, rq_vec_len := of_nat STRIPE_SIZE,
     rq_vec_offset := 0, rq_size := of_nat STRIPE_SIZE\<rparr>"

definition submit_dev ::
    "disk_info list \<Rightarrow> sid \<Rightarrow> nat \<Rightarrow> stripe_head \<times> request list \<Rightarrow> stripe_head \<times> request list" where
  "submit_dev ds i k = (\<lambda>(sh, rs).
     let d = dev sh ! k;
         go = (\<lambda>rw d1.
           let end_io = (if rw then raid5_end_write else raid5_end_read);
               d2 = d1\<lparr>req := (req d1)\<lparr>rq_end_io := Some end_io\<rparr>\<rparr>
           in case di_jrdev (ds ! k) of
                Some jrdev \<Rightarrow>
                  let b = submitted_bio rw jrdev (sector sh) (req d2)
                  in ((upd_dev k (\<lambda>_. d2\<lparr>req := b\<rparr>) sh)\<lparr>sh_count := sh_count sh + 1\<rparr>,
                      rs @ [\<lparr>rq_stripe = i, rq_slot = k, rq_bio = b\<rparr>])
              | None \<Rightarrow>
                  ((upd_dev k (\<lambda>_. clear_dev_flag R5_LOCKED d2) sh)
                     \<lparr>sh_state := set_bit STRIPE_HANDLE (sh_state sh)\<rparr>, rs))
     in if bit (dev_flags d) R5_Wantwrite then go True (clear_dev_flag R5_Wantwrite d)
        else if bit (dev_flags d) R5_Wantread then go False (clear_dev_flag R5_Wantread d)
        else (sh, rs))"

definition handle_stripe :: "sid \<Rightarrow> jraid5_conf \<Rightarrow> jraid5_conf \<times> request list" where
  "handle_stripe i conf =
     (let n = unat (raid_disks conf);
          sh1 = for_down n (\<lambda>k. upd_dev k scan_dev) (heap conf i);
          sh2 = upd_dev (unat (pd_idx sh1)) parity_flags sh1;
          (sh3, rs) = for_down n (submit_dev (disks conf) i) (sh2, [])
      in (upd_stripe i (\<lambda>_. sh3) conf, rs))"

section \<open>What one pass does\<close>

text \<open>The kind of request a member gets: \<open>Some True\<close> is a write, \<open>Some False\<close> a read.\<close>

definition want :: "r5dev \<Rightarrow> bool option" where
  "want d = (if bit (dev_flags d) R5_Wantwrite \<or> towrite d \<noteq> [] then Some True
     else if bit (dev_flags d) R5_Wantread \<or> toread d \<noteq> [] then Some False else None)"

definition requests_of :: "disk_info list \<Rightarrow> sid \<Rightarrow> stripe_head \<Rightarrow> nat \<Rightarrow> request list" where
  "requests_of ds i sh k =
     (case (want (dev sh ! k), di_jrdev (ds ! k)) of
        (Some rw, Some jrdev) \<Rightarrow> [\<lparr>rq_stripe = i, rq_slot = k,
          rq_bio = submitted_bio rw jrdev (sector sh) (req (dev sh ! k))\<rparr>]
      | _ \<Rightarrow> [])"

definition orphan :: "disk_info list \<Rightarrow> stripe_head \<Rightarrow> nat \<Rightarrow> bool" where
  "orphan ds sh k \<longleftrightarrow> want (dev sh ! k) \<noteq> None \<and> di_jrdev (ds ! k) = None"

lemma set_flag_simps [simp]:
  "toread (set_dev_flag n d) = toread d" "towrite (set_dev_flag n d) = towrite d"
  "written (set_dev_flag n d) = written d" "req (set_dev_flag n d) = req d"
  "page (set_dev_flag n d) = page d" "dev_sector (set_dev_flag n d) = dev_sector d"
  "toread (clear_dev_flag n d) = toread d" "towrite (clear_dev_flag n d) = towrite d"
  "written (clear_dev_flag n d) = written d" "req (clear_dev_flag n d) = req d"
  "page (clear_dev_flag n d) = page d" "dev_sector (clear_dev_flag n d) = dev_sector d"
  by (simp_all add: set_dev_flag_def clear_dev_flag_def)

lemma bit_set_flag [simp]:
  "n < 32 \<Longrightarrow> bit (dev_flags (set_dev_flag n d)) m \<longleftrightarrow> m = n \<or> bit (dev_flags d) m"
  "bit (dev_flags (clear_dev_flag n d)) m \<longleftrightarrow> m \<noteq> n \<and> bit (dev_flags d) m"
  by (auto simp: set_dev_flag_def clear_dev_flag_def bit_flags)

text \<open>What the handling of a stripe never changes in a member.\<close>

definition same_chains :: "r5dev \<Rightarrow> r5dev \<Rightarrow> bool" where
  "same_chains d d' \<longleftrightarrow> toread d = toread d' \<and> towrite d = towrite d' \<and> written d = written d' \<and>
     page d = page d' \<and> dev_sector d = dev_sector d'"

lemma same_chains_refl [simp]: "same_chains d d" by (simp add: same_chains_def)

lemma dev_upd_dev: "k < length (dev sh) \<Longrightarrow> dev (upd_dev j f sh) ! k = (if k = j then f (dev sh ! k) else dev sh ! k)"
  by (simp add: upd_dev_def)

lemma scan_loop:
  assumes "n \<le> length (dev sh)"
  shows "\<exists>ds. for_down n (\<lambda>k. upd_dev k f) sh = sh\<lparr>dev := ds\<rparr> \<and> length ds = length (dev sh) \<and>
    (\<forall>k < length ds. ds ! k = (if k < n then f (dev sh ! k) else dev sh ! k))"
  using assms
proof (induction n arbitrary: sh)
  case 0
  then show ?case by (auto intro!: exI [of _ "dev sh"])
next
  case (Suc n)
  obtain ds where ds: "for_down n (\<lambda>k. upd_dev k f) (upd_dev n f sh) = (upd_dev n f sh)\<lparr>dev := ds\<rparr>"
    "length ds = length (dev sh)"
    "\<forall>k < length ds. ds ! k = (if k < n then f (dev (upd_dev n f sh) ! k) else dev (upd_dev n f sh) ! k)"
    using Suc.IH [of "upd_dev n f sh"] Suc.prems by auto
  have "(upd_dev n f sh)\<lparr>dev := ds\<rparr> = sh\<lparr>dev := ds\<rparr>" by (simp add: upd_dev_def)
  moreover have "\<forall>k < length ds. ds ! k = (if k < Suc n then f (dev sh ! k) else dev sh ! k)"
    using ds(2,3) Suc.prems by (auto simp: dev_upd_dev less_Suc_eq)
  ultimately show ?case using ds(1,2) by (intro exI [of _ ds]) simp
qed

text \<open>The submission of one member, as a function of that member alone.\<close>

definition sent :: "disk_info list \<Rightarrow> sector_t \<Rightarrow> nat \<Rightarrow> r5dev \<Rightarrow> r5dev" where
  "sent ds sect k d =
     (if bit (dev_flags d) R5_Wantwrite \<or> bit (dev_flags d) R5_Wantread then
        let rw = bit (dev_flags d) R5_Wantwrite;
            d1 = clear_dev_flag (if rw then R5_Wantwrite else R5_Wantread) d
        in case di_jrdev (ds ! k) of
             Some j \<Rightarrow> d1\<lparr>req := submitted_bio rw j sect (req d)\<rparr>
           | None \<Rightarrow> clear_dev_flag R5_LOCKED
               (d1\<lparr>req := (req d)\<lparr>rq_end_io := Some (if rw then raid5_end_write else raid5_end_read)\<rparr>\<rparr>)
      else d)"

definition wants :: "r5dev \<Rightarrow> bool" where
  "wants d \<longleftrightarrow> bit (dev_flags d) R5_Wantwrite \<or> bit (dev_flags d) R5_Wantread"

definition emitted :: "disk_info list \<Rightarrow> sid \<Rightarrow> sector_t \<Rightarrow> nat \<Rightarrow> r5dev \<Rightarrow> request list" where
  "emitted ds i sect k d =
     (if wants d then
        case di_jrdev (ds ! k) of
          Some j \<Rightarrow> [\<lparr>rq_stripe = i, rq_slot = k,
            rq_bio = submitted_bio (bit (dev_flags d) R5_Wantwrite) j sect (req d)\<rparr>]
        | None \<Rightarrow> []
      else [])"

lemma submitted_bio_end_io [simp]:
  "submitted_bio rw j sect (b\<lparr>rq_end_io := e\<rparr>) = submitted_bio rw j sect b"
  by (simp add: submitted_bio_def)

lemma submit_dev_eq:
  "submit_dev ds i k (sh, rs) =
     ((upd_dev k (sent ds (sector sh) k) sh)
        \<lparr>sh_count := sh_count sh + int (length (emitted ds i (sector sh) k (dev sh ! k))),
         sh_state := (if wants (dev sh ! k) \<and> di_jrdev (ds ! k) = None
                      then set_bit STRIPE_HANDLE (sh_state sh) else sh_state sh)\<rparr>,
      rs @ emitted ds i (sector sh) k (dev sh ! k))"
  by (cases "di_jrdev (ds ! k)")
     (auto simp: submit_dev_def sent_def emitted_def wants_def Let_def upd_dev_def)

lemma submit_loop:
  assumes "n \<le> length (dev sh)"
  shows "\<exists>sh'. for_down n (submit_dev ds i) (sh, rs) =
      (sh', rs @ concat (map (\<lambda>k. emitted ds i (sector sh) k (dev sh ! k)) (rev [0..<n]))) \<and>
    length (dev sh') = length (dev sh) \<and>
    (\<forall>k < length (dev sh). dev sh' ! k =
       (if k < n then sent ds (sector sh) k (dev sh ! k) else dev sh ! k)) \<and>
    sh_count sh' = sh_count sh +
      int (length (concat (map (\<lambda>k. emitted ds i (sector sh) k (dev sh ! k)) (rev [0..<n])))) \<and>
    sh_state sh' = (if \<exists>k < n. wants (dev sh ! k) \<and> di_jrdev (ds ! k) = None
      then set_bit STRIPE_HANDLE (sh_state sh) else sh_state sh) \<and>
    hash_next sh' = hash_next sh \<and> hash_pprev sh' = hash_pprev sh \<and> sector sh' = sector sh \<and>
    pd_idx sh' = pd_idx sh"
  using assms
proof (induction n arbitrary: sh rs)
  case (Suc n)
  let ?d = "dev sh ! n" and ?e = "\<lambda>k. emitted ds i (sector sh) k (dev sh ! k)"
  let ?sh = "(upd_dev n (sent ds (sector sh) n) sh)
        \<lparr>sh_count := sh_count sh + int (length (?e n)),
         sh_state := (if wants ?d \<and> di_jrdev (ds ! n) = None
                      then set_bit STRIPE_HANDLE (sh_state sh) else sh_state sh)\<rparr>"
  have old: "dev ?sh ! k = dev sh ! k" if "k < n" for k using that Suc.prems by (simp add: dev_upd_dev)
  have new: "dev ?sh ! n = sent ds (sector sh) n ?d" using Suc.prems by (simp add: dev_upd_dev)
  have other: "dev ?sh ! k = dev sh ! k" if "n < k" "k < length (dev sh)" for k
    using that by (simp add: dev_upd_dev)
  have es: "map (\<lambda>k. emitted ds i (sector ?sh) k (dev ?sh ! k)) (rev [0..<n]) = map ?e (rev [0..<n])"
    using old by (intro map_cong) auto
  have ws: "(\<exists>k < n. wants (dev ?sh ! k) \<and> di_jrdev (ds ! k) = None)
      \<longleftrightarrow> (\<exists>k < n. wants (dev sh ! k) \<and> di_jrdev (ds ! k) = None)" using old by auto
  obtain sh' where sh': "for_down n (submit_dev ds i) (?sh, rs @ ?e n) =
      (sh', (rs @ ?e n) @ concat (map ?e (rev [0..<n])))"
    "length (dev sh') = length (dev ?sh)"
    "\<forall>k < length (dev ?sh). dev sh' ! k =
       (if k < n then sent ds (sector ?sh) k (dev ?sh ! k) else dev ?sh ! k)"
    "sh_count sh' = sh_count ?sh + int (length (concat (map ?e (rev [0..<n]))))"
    "sh_state sh' = (if \<exists>k < n. wants (dev sh ! k) \<and> di_jrdev (ds ! k) = None
      then set_bit STRIPE_HANDLE (sh_state ?sh) else sh_state ?sh)"
    "hash_next sh' = hash_next ?sh" "hash_pprev sh' = hash_pprev ?sh" "sector sh' = sector ?sh"
    "pd_idx sh' = pd_idx ?sh"
    using Suc.IH [of ?sh "rs @ ?e n", unfolded es ws] Suc.prems by auto
  have step: "for_down (Suc n) (submit_dev ds i) (sh, rs) = for_down n (submit_dev ds i) (?sh, rs @ ?e n)"
    by (simp add: submit_dev_eq)
  have devs: "dev sh' ! k = (if k < Suc n then sent ds (sector sh) k (dev sh ! k) else dev sh ! k)"
    if "k < length (dev sh)" for k
    using that sh'(3) old [of k] new other [of k] by (cases k n rule: linorder_cases) auto
  have idem: "set_bit STRIPE_HANDLE (set_bit STRIPE_HANDLE w) = set_bit STRIPE_HANDLE (w :: u64)" for w
    by (rule bit_eqI) (auto simp: bit_flags)
  have state: "sh_state sh' = (if \<exists>k < Suc n. wants (dev sh ! k) \<and> di_jrdev (ds ! k) = None
      then set_bit STRIPE_HANDLE (sh_state sh) else sh_state sh)"
    using sh'(5) by (auto simp: less_Suc_eq idem)
  show ?case
    unfolding step using sh'(1,2,4,6-) devs state
    by (intro exI [of _ sh']) simp
qed simp

text \<open>A member after the scan and, for the parity member, after its flags are set.\<close>

lemma scan_dev_simps [simp]:
  "same_chains (scan_dev d) d" "req (scan_dev d) = req d"
  "bit (dev_flags (scan_dev d)) R5_Wantwrite \<longleftrightarrow> bit (dev_flags d) R5_Wantwrite \<or> towrite d \<noteq> []"
  "bit (dev_flags (scan_dev d)) R5_Wantread \<longleftrightarrow> bit (dev_flags d) R5_Wantread \<or> toread d \<noteq> []"
  by (auto simp: scan_dev_def same_chains_def Let_def r5_flag_defs)

lemma parity_flags_simps [simp]:
  "same_chains (parity_flags d) d" "req (parity_flags d) = req d"
  "bit (dev_flags (parity_flags d)) R5_Wantwrite \<longleftrightarrow> bit (dev_flags d) R5_Wantwrite"
  "bit (dev_flags (parity_flags d)) R5_Wantread \<longleftrightarrow> bit (dev_flags d) R5_Wantread"
  by (auto simp: parity_flags_def same_chains_def r5_flag_defs)

lemma same_chains_trans: "same_chains a b \<Longrightarrow> same_chains b c \<Longrightarrow> same_chains a c"
  by (simp add: same_chains_def)

lemma sent_simps [simp]:
  "same_chains (sent ds sect k d) d"
  "\<not> bit (dev_flags (sent ds sect k d)) R5_Wantwrite"
  "bit (dev_flags (sent ds sect k d)) R5_Wantread \<longleftrightarrow>
     bit (dev_flags d) R5_Wantread \<and> bit (dev_flags d) R5_Wantwrite"
  by (auto simp: sent_def same_chains_def Let_def r5_flag_defs set_dev_flag_def clear_dev_flag_def
      bit_flags split: option.splits)

definition prepared :: "nat \<Rightarrow> nat \<Rightarrow> r5dev \<Rightarrow> r5dev" where
  "prepared pd k d = (if k = pd then parity_flags (scan_dev d) else scan_dev d)"

lemma prepared_simps [simp]:
  "same_chains (prepared pd k d) d" "req (prepared pd k d) = req d"
  "bit (dev_flags (prepared pd k d)) R5_Wantwrite \<longleftrightarrow> bit (dev_flags d) R5_Wantwrite \<or> towrite d \<noteq> []"
  "bit (dev_flags (prepared pd k d)) R5_Wantread \<longleftrightarrow> bit (dev_flags d) R5_Wantread \<or> toread d \<noteq> []"
  by (auto simp: prepared_def intro: same_chains_trans [OF parity_flags_simps(1) scan_dev_simps(1)])

lemma emitted_prepared:
  "emitted ds i (sector sh) k (prepared pd k (dev sh ! k)) = requests_of ds i sh k"
  by (auto simp: emitted_def requests_of_def want_def wants_def split: option.splits)

lemma wants_prepared: "wants (prepared pd k d) \<longleftrightarrow> want d \<noteq> None"
  by (auto simp: wants_def want_def)

lemma handle_stripe_result:
  assumes n: "unat (raid_disks conf) \<le> length (dev (heap conf i))"
    and pd: "unat (pd_idx (heap conf i)) < unat (raid_disks conf)"
  shows "\<exists>sh'. let sh = heap conf i; n = unat (raid_disks conf);
      rs = concat (map (requests_of (disks conf) i sh) (rev [0..<n])) in
    handle_stripe i conf = (upd_stripe i (\<lambda>_. sh') conf, rs) \<and>
    hash_next sh' = hash_next sh \<and> hash_pprev sh' = hash_pprev sh \<and> sector sh' = sector sh \<and>
    pd_idx sh' = pd_idx sh \<and> length (dev sh') = length (dev sh) \<and>
    sh_count sh' = sh_count sh + int (length rs) \<and>
    sh_state sh' = (if \<exists>k < n. orphan (disks conf) sh k then set_bit STRIPE_HANDLE (sh_state sh)
      else sh_state sh) \<and>
    (\<forall>k < length (dev sh). same_chains (dev sh' ! k) (dev sh ! k)) \<and>
    (\<forall>k < n. dev sh' ! k =
       sent (disks conf) (sector sh) k (prepared (unat (pd_idx sh)) k (dev sh ! k)))"
proof -
  define sh where "sh = heap conf i"
  define m where "m = unat (raid_disks conf)"
  define pd where "pd = unat (pd_idx sh)"
  have m: "m \<le> length (dev sh)" "pd < m" using n pd by (simp_all add: sh_def m_def pd_def)
  obtain ds where ds: "for_down m (\<lambda>k. upd_dev k scan_dev) sh = sh\<lparr>dev := ds\<rparr>"
    "length ds = length (dev sh)"
    "\<forall>k < length ds. ds ! k = (if k < m then scan_dev (dev sh ! k) else dev sh ! k)"
    using scan_loop [OF m(1), of scan_dev] by blast
  define sh2 where "sh2 = upd_dev pd parity_flags (sh\<lparr>dev := ds\<rparr>)"
  have dev2: "dev sh2 ! k = (if k < m then prepared pd k (dev sh ! k) else dev sh ! k)"
    if "k < length (dev sh)" for k
    using that ds m by (auto simp: sh2_def dev_upd_dev prepared_def)
  have s2: "length (dev sh2) = length (dev sh)" "sector sh2 = sector sh" "sh_count sh2 = sh_count sh"
    "sh_state sh2 = sh_state sh" "hash_next sh2 = hash_next sh" "hash_pprev sh2 = hash_pprev sh"
    "pd_idx sh2 = pd_idx sh" using ds(2) by (simp_all add: sh2_def)
  have es: "map (\<lambda>k. emitted (disks conf) i (sector sh) k (dev sh2 ! k)) (rev [0..<m])
      = map (requests_of (disks conf) i sh) (rev [0..<m])"
    using dev2 m by (intro map_cong) (auto simp: emitted_prepared)
  have ws: "(\<exists>k < m. wants (dev sh2 ! k) \<and> di_jrdev (disks conf ! k) = None)
      \<longleftrightarrow> (\<exists>k < m. orphan (disks conf) sh k)"
    using dev2 m by (auto simp: wants_prepared orphan_def)
  have m2: "m \<le> length (dev sh2)" using m(1) by (simp add: s2)
  obtain sh' where sh': "for_down m (submit_dev (disks conf) i) (sh2, []) =
      (sh', concat (map (requests_of (disks conf) i sh) (rev [0..<m])))"
    "length (dev sh') = length (dev sh)"
    "\<forall>k < length (dev sh). dev sh' ! k =
       (if k < m then sent (disks conf) (sector sh) k (dev sh2 ! k) else dev sh2 ! k)"
    "sh_count sh' = sh_count sh + int (length (concat (map (requests_of (disks conf) i sh) (rev [0..<m]))))"
    "sh_state sh' = (if \<exists>k < m. orphan (disks conf) sh k then set_bit STRIPE_HANDLE (sh_state sh)
      else sh_state sh)"
    "hash_next sh' = hash_next sh" "hash_pprev sh' = hash_pprev sh" "sector sh' = sector sh"
    "pd_idx sh' = pd_idx sh"
    using submit_loop [OF m2, of "disks conf" i "[]", unfolded s2, unfolded es ws] by auto
  have "handle_stripe i conf = (upd_stripe i (\<lambda>_. sh') conf,
      concat (map (requests_of (disks conf) i sh) (rev [0..<m])))"
    using sh'(1) ds(1) by (simp add: handle_stripe_def Let_def sh2_def pd_def flip: sh_def m_def)
  moreover have "same_chains (dev sh' ! k) (dev sh ! k)" if "k < length (dev sh)" for k
    using that sh'(3) dev2
    by (auto intro: same_chains_trans [OF sent_simps(1) prepared_simps(1)])
  moreover have "dev sh' ! k = sent (disks conf) (sector sh) k (prepared pd k (dev sh ! k))"
    if "k < m" for k
    using that sh'(3) dev2 m by simp
  ultimately show ?thesis
    using sh'(2,4-) by (intro exI [of _ sh']) (simp add: Let_def flip: sh_def m_def pd_def)
qed

lemma requests_ofD:
  assumes "r \<in> set (requests_of ds i sh k)"
  obtains jrdev rw where "rq_slot r = k" "di_jrdev (ds ! k) = Some jrdev" "want (dev sh ! k) = Some rw"
    "rq_bio r = submitted_bio rw jrdev (sector sh) (req (dev sh ! k))"
  using assms that
  by (cases "want (dev sh ! k)"; cases "di_jrdev (ds ! k)") (auto simp: requests_of_def)

section \<open>Properties\<close>

definition handle_example :: jraid5_conf where
  "handle_example = cache_example\<lparr>
     heap := (\<lambda>_. (zero_stripe 4)\<lparr>sector := 72, pd_idx := 2, dev := (replicate 4 zero_dev)
        [3 := zero_dev\<lparr>towrite := [bio_example 200]\<rparr>, 1 := zero_dev\<lparr>toread := [bio_example 184]\<rparr>]\<rparr>),
     disks := [zero_disk_info\<lparr>di_jrdev := Some 10\<rparr>, zero_disk_info\<lparr>di_jrdev := Some 11\<rparr>,
       zero_disk_info\<lparr>di_jrdev := Some 12\<rparr>, zero_disk_info\<lparr>di_jrdev := Some 13\<rparr>]\<rparr>"

lemma handle_example_simps:
  "raid_disks handle_example = 4" "length (dev (heap handle_example i)) = 4"
  "pd_idx (heap handle_example i) = 2" "sector (heap handle_example i) = 72"
  "toread (dev (heap handle_example i) ! 3) = []" "towrite (dev (heap handle_example i) ! 3) \<noteq> []"
  "di_jrdev (disks handle_example ! 3) = Some 13"
  by (simp_all add: handle_example_def cache_example_def conf_example_def zero_dev_def)





end
