(* ===== verification/Raid5_Requests.thy ===== *)
theory Raid5_Requests
  imports Stripe_Handle "HOL-Library.Multiset"
begin

text \<open>
  Requests through the stripe cache, \<^verbatim>\<open>src/src/jraid5.c\<close>: \<open>jraid5_make_request\<close>, the
  completion handlers \<open>raid5_end_read_request\<close> and \<open>raid5_end_write_request\<close>, and the daemon
  \<open>jraid5d\<close>.

  First the functions as they run on their own, then (\<open>rstep\<close>) their critical sections as
  steps of a system in which any number of submitting tasks, the daemon and completions
  interleave. \<open>handle_stripe\<close>, which takes no lock, is one step. The invariant says that the
  counter of a stripe is the number of tasks that hold it and of its requests in flight.
\<close>

unbundle bit_operations_syntax

section \<open>The code\<close>

definition raid5_end_read_request :: "request \<Rightarrow> jraid5_conf \<Rightarrow> jraid5_conf" where
  "raid5_end_read_request r conf = release_stripe (rq_stripe r) conf"

definition raid5_end_write_request :: "request \<Rightarrow> jraid5_conf \<Rightarrow> jraid5_conf" where
  "raid5_end_write_request r conf = release_stripe_locked (rq_stripe r) conf"

definition call_end_io :: "request \<Rightarrow> jraid5_conf \<Rightarrow> jraid5_conf" where
  "call_end_io r conf =
     (case rq_end_io (rq_bio r) of
        Some raid5_end_write \<Rightarrow> raid5_end_write_request r conf
      | _ \<Rightarrow> raid5_end_read_request r conf)"

definition add_to_stripe :: "sid \<Rightarrow> bio \<Rightarrow> nat \<Rightarrow> bool \<Rightarrow> jraid5_conf \<Rightarrow> jraid5_conf" where
  "add_to_stripe i bi dd rw conf = upd_stripe i (\<lambda>sh. snd (add_stripe_bio sh bi dd rw)) conf"

text \<open>
  The outcome of \<open>jraid5_make_request\<close>: it returns, and \<open>ended\<close> says whether it called
  \<open>bio_endio\<close>; or it sleeps in \<open>get_active_stripe\<close>. \<open>bio_data_dir\<close> yields READ or WRITE only,
  so \<open>read_ahead\<close> stays 0. The bio's \<open>bi_phys_segments\<close> is set to 1, incremented nowhere, and
  decremented at the end.
\<close>

datatype mk_result = Returned (ended: bool) jraid5_conf "request list" | Sleeping jraid5_conf

definition jraid5_make_request :: "bio \<Rightarrow> bool \<Rightarrow> jraid5_conf \<Rightarrow> mk_result outcome" where
  "jraid5_make_request bi rw conf =
     (let n = raid_disks conf; data_disks = n - 1; bi_phys_segments = 1 :: nat in
      bind_outcome (of_option_bug (jraid5_compute_sector conf (bi_sector bi) n data_disks))
        (\<lambda>(new_sector, dd_idx, pd_idx).
      bind_outcome (get_active_stripe conf new_sector pd_idx False) (\<lambda>(a, conf1).
      case a of
        Got i \<Rightarrow>
          let conf2 = add_to_stripe i bi (unat dd_idx) rw conf1;
              (conf3, rs) = handle_stripe i conf2;
              conf4 = release_stripe i conf3
          in Ret (Returned (bi_phys_segments - 1 = 0) conf4 rs)
      | Null \<Rightarrow> Ret (Returned (bi_phys_segments - 1 = 0) conf1 [])
      | Wait \<Rightarrow> Ret (Sleeping conf1))))"

text \<open>
  The loop of \<open>jraid5d\<close>. \<open>None\<close> is a run that never ends; the writing of the superblock
  before it is another component's.
\<close>

definition daemon_take :: "sid \<Rightarrow> jraid5_conf \<Rightarrow> jraid5_conf" where
  "daemon_take i conf = atomic_add_count 1 i (list_del_init i conf)"

partial_function (option) jraid5d_loop ::
    "jraid5_conf \<Rightarrow> request list \<Rightarrow> (jraid5_conf \<times> request list) outcome option" where
  "jraid5d_loop conf rs0 =
     (case handle_list conf of
        [] \<Rightarrow> Some (Ret (conf, rs0))
      | i # _ \<Rightarrow>
          let conf1 = daemon_take i conf in
          if sh_count (heap conf1 i) \<noteq> 1 then Some Bug
          else let (conf2, rs) = handle_stripe i conf1
               in jraid5d_loop (release_stripe i conf2) (rs0 @ rs))"

definition jraid5d :: "jraid5_conf \<Rightarrow> (jraid5_conf \<times> request list) outcome option" where
  "jraid5d conf = jraid5d_loop conf []"

section \<open>Each step keeps the cache consistent\<close>

definition pd_ok :: "jraid5_conf \<Rightarrow> bool" where
  "pd_ok conf \<longleftrightarrow> (\<forall>i \<in> set (live conf). unat (pd_idx (heap conf i)) < unat (raid_disks conf))"

lemma call_end_io_release: "call_end_io r conf = release_stripe (rq_stripe r) conf"
  by (simp add: call_end_io_def raid5_end_read_request_def raid5_end_write_request_def
      release_stripe_def split: option.splits end_io.splits)

text \<open>Changing only the member devices, counter and state of a stripe that is held.\<close>

lemma upd_held_inv:
  assumes inv: "cache_inv refs conf" and held: "refs i \<noteq> 0"
    and sh: "hash_next sh = hash_next (heap conf i)" "hash_pprev sh = hash_pprev (heap conf i)"
      "sector sh = sector (heap conf i)" "length (dev sh) = length (dev (heap conf i))"
      "sh_count sh = sh_count (heap conf i) + int n"
  shows "cache_inv (refs(i := refs i + n)) (upd_stripe i (\<lambda>_. sh) conf)"
proof -
  let ?c = "upd_stripe i (\<lambda>_. sh) conf"
  note h = cache_inv_held [OF inv held]
  have "lists_ok ?c" using cache_invD(1) [OF inv] by (simp add: lists_ok_def)
  moreover have "refs_ok (refs(i := refs i + n)) ?c"
    using cache_invD(2) [OF inv] held h sh(5) by (auto simp: refs_ok_def on_lru_def)
  moreover have "flags_ok ?c"
    using cache_invD(3) [OF inv] h(2) by (auto simp: flags_ok_def on_lru_def)
  moreover have "index_ok ?c"
    by (rule index_ok_cong [OF cache_invD(4) [OF inv]]) (auto simp: sh)
  ultimately show ?thesis using cache_invD(5) [OF inv] sh(4) by (auto simp: cache_inv_def)
qed

lemma add_stripe_bio_frame:
  "hash_next (snd (add_stripe_bio sh bi dd rw)) = hash_next sh"
  "hash_pprev (snd (add_stripe_bio sh bi dd rw)) = hash_pprev sh"
  "sector (snd (add_stripe_bio sh bi dd rw)) = sector sh"
  "pd_idx (snd (add_stripe_bio sh bi dd rw)) = pd_idx sh"
  "sh_state (snd (add_stripe_bio sh bi dd rw)) = sh_state sh"
  "sh_count (snd (add_stripe_bio sh bi dd rw)) = sh_count sh"
  "length (dev (snd (add_stripe_bio sh bi dd rw))) = length (dev sh)"
  by (auto simp: add_stripe_bio_def Let_def split: option.splits)

lemma add_to_stripe_inv:
  assumes "cache_inv refs conf" "refs i \<noteq> 0"
  shows "cache_inv refs (add_to_stripe i bi dd rw conf)"
proof -
  have "add_to_stripe i bi dd rw conf =
      upd_stripe i (\<lambda>_. snd (add_stripe_bio (heap conf i) bi dd rw)) conf"
    by (simp add: add_to_stripe_def upd_stripe_def)
  moreover have "refs(i := refs i + 0) = refs" by simp
  ultimately show ?thesis
    using upd_held_inv [OF assms, of "snd (add_stripe_bio (heap conf i) bi dd rw)" 0]
    by (simp add: add_stripe_bio_frame)
qed

lemma add_to_stripe_frame [simp]:
  "live (add_to_stripe i bi dd rw conf) = live conf"
  "raid_disks (add_to_stripe i bi dd rw conf) = raid_disks conf"
  "chunk_size (add_to_stripe i bi dd rw conf) = chunk_size conf"
  "level (add_to_stripe i bi dd rw conf) = level conf"
  "algorithm (add_to_stripe i bi dd rw conf) = algorithm conf"
  "handle_list (add_to_stripe i bi dd rw conf) = handle_list conf"
  "inactive_list (add_to_stripe i bi dd rw conf) = inactive_list conf"
  "disks (add_to_stripe i bi dd rw conf) = disks conf"
  "pd_idx (heap (add_to_stripe i bi dd rw conf) j) = pd_idx (heap conf j)"
  "sector (heap (add_to_stripe i bi dd rw conf) j) = sector (heap conf j)"
  "sh_state (heap (add_to_stripe i bi dd rw conf) j) = sh_state (heap conf j)"
  "length (dev (heap (add_to_stripe i bi dd rw conf) j)) = length (dev (heap conf j))"
  "j \<noteq> i \<Longrightarrow> heap (add_to_stripe i bi dd rw conf) j = heap conf j"
  by (simp_all add: add_to_stripe_def add_stripe_bio_frame)

text \<open>The effect of \<open>handle_stripe\<close> on a live stripe, in the form the proofs below use.\<close>

lemma handle_stripe_held:
  assumes inv: "cache_inv refs conf" and held: "refs i \<noteq> 0" and pd: "pd_ok conf"
    and h: "handle_stripe i conf = (conf', rs)"
  shows "cache_inv (refs(i := refs i + length rs)) conf'"
    "rs = concat (map (requests_of (disks conf) i (heap conf i)) (rev [0..<unat (raid_disks conf)]))"
    "\<exists>sh'. conf' = upd_stripe i (\<lambda>_. sh') conf \<and> sector sh' = sector (heap conf i) \<and>
       pd_idx sh' = pd_idx (heap conf i) \<and>
       (bit (sh_state (heap conf i)) STRIPE_HANDLE \<or>
         (\<exists>k < unat (raid_disks conf). orphan (disks conf) (heap conf i) k) \<longrightarrow>
        bit (sh_state sh') STRIPE_HANDLE) \<and>
       length (dev sh') = length (dev (heap conf i)) \<and>
       (\<forall>k < length (dev (heap conf i)). same_chains (dev sh' ! k) (dev (heap conf i) ! k)) \<and>
       (\<forall>k < unat (raid_disks conf). dev sh' ! k = sent (disks conf) (sector (heap conf i)) k
          (prepared (unat (pd_idx (heap conf i))) k (dev (heap conf i) ! k)))"
    "\<And>r. r \<in> set rs \<Longrightarrow> rq_stripe r = i"
proof -
  note live = cache_inv_held(1) [OF inv held]
  have len: "unat (raid_disks conf) \<le> length (dev (heap conf i))"
    using cache_invD(5) [OF inv live] by simp
  have pd': "unat (pd_idx (heap conf i)) < unat (raid_disks conf)" using pd live by (simp add: pd_ok_def)
  obtain sh' where s: "conf' = upd_stripe i (\<lambda>_. sh') conf"
    "rs = concat (map (requests_of (disks conf) i (heap conf i)) (rev [0..<unat (raid_disks conf)]))"
    "hash_next sh' = hash_next (heap conf i)" "hash_pprev sh' = hash_pprev (heap conf i)"
    "sector sh' = sector (heap conf i)" "pd_idx sh' = pd_idx (heap conf i)"
    "length (dev sh') = length (dev (heap conf i))"
    "sh_count sh' = sh_count (heap conf i) + int (length rs)"
    "sh_state sh' = (if \<exists>k < unat (raid_disks conf). orphan (disks conf) (heap conf i) k
       then set_bit STRIPE_HANDLE (sh_state (heap conf i)) else sh_state (heap conf i))"
    "\<forall>k < length (dev (heap conf i)). same_chains (dev sh' ! k) (dev (heap conf i) ! k)"
    "\<forall>k < unat (raid_disks conf). dev sh' ! k = sent (disks conf) (sector (heap conf i)) k
          (prepared (unat (pd_idx (heap conf i))) k (dev (heap conf i) ! k))"
    using handle_stripe_result [OF len pd'] h unfolding Let_def by auto
  show "cache_inv (refs(i := refs i + length rs)) conf'"
    unfolding s(1) using inv held s(3,4,5,7,8) by (rule upd_held_inv)
  show "rs = concat (map (requests_of (disks conf) i (heap conf i)) (rev [0..<unat (raid_disks conf)]))"
    by (rule s(2))
  have "bit (sh_state (heap conf i)) STRIPE_HANDLE \<or>
      (\<exists>k < unat (raid_disks conf). orphan (disks conf) (heap conf i) k) \<longrightarrow>
      bit (sh_state sh') STRIPE_HANDLE"
    using s(9) by (auto simp: bit_flags STRIPE_HANDLE_def)
  with s show "\<exists>sh'. conf' = upd_stripe i (\<lambda>_. sh') conf \<and> sector sh' = sector (heap conf i) \<and>
       pd_idx sh' = pd_idx (heap conf i) \<and>
       (bit (sh_state (heap conf i)) STRIPE_HANDLE \<or>
         (\<exists>k < unat (raid_disks conf). orphan (disks conf) (heap conf i) k) \<longrightarrow>
        bit (sh_state sh') STRIPE_HANDLE) \<and>
       length (dev sh') = length (dev (heap conf i)) \<and>
       (\<forall>k < length (dev (heap conf i)). same_chains (dev sh' ! k) (dev (heap conf i) ! k)) \<and>
       (\<forall>k < unat (raid_disks conf). dev sh' ! k = sent (disks conf) (sector (heap conf i)) k
          (prepared (unat (pd_idx (heap conf i))) k (dev (heap conf i) ! k)))"
    by blast
  show "rq_stripe r = i" if "r \<in> set rs" for r
    using that unfolding s(2) by (auto simp: requests_of_def split: option.splits)
qed

lemma daemon_take_inv:
  assumes inv: "cache_inv refs conf" and hl: "handle_list conf = i # rest"
  shows "cache_inv (refs(i := refs i + 1)) (daemon_take i conf)" "refs i = 0"
    "sh_count (heap (daemon_take i conf) i) = 1" "handle_list (daemon_take i conf) = rest"
    "inactive_list (daemon_take i conf) = inactive_list conf"
proof -
  let ?c = "daemon_take i conf"
  have l: "distinct (i # rest)" "i \<notin> set (inactive_list conf)" "i \<in> set (live conf)"
    using cache_invD(1) [OF inv] hl by (auto simp: lists_ok_def)
  show lists: "handle_list ?c = rest" "inactive_list ?c = inactive_list conf"
    using l hl by (simp_all add: daemon_take_def list_del_init_def remove1_idem)
  show z: "refs i = 0" using cache_invD(2) [OF inv] l hl by (auto simp: refs_ok_def on_lru_def)
  have cnt: "sh_count (heap conf i) = 0" using cache_invD(2) [OF inv] l z by (simp add: refs_ok_def)
  then show "sh_count (heap ?c i) = 1" by (simp add: daemon_take_def list_del_init_def)
  have heap: "heap ?c = heap (atomic_add_count 1 i conf)"
    by (simp add: daemon_take_def list_del_init_def atomic_add_count_def)
  have rest: "live ?c = live conf" "active_stripes ?c = active_stripes conf"
    "raid_disks ?c = raid_disks conf" "stripe_hashtbl ?c = stripe_hashtbl conf"
    "buffer_size ?c = buffer_size conf"
    by (simp_all add: daemon_take_def list_del_init_def)
  have "lists_ok ?c" using cache_invD(1) [OF inv] hl by (auto simp: lists_ok_def lists rest)
  moreover have "refs_ok (refs(i := refs i + 1)) ?c"
    using cache_invD(2) [OF inv] l z hl by (auto simp: refs_ok_def on_lru_def lists rest heap)
  moreover have "flags_ok ?c"
    using cache_invD(3) [OF inv] hl by (auto simp: flags_ok_def lists heap)
  moreover have "index_ok ?c"
    by (rule index_ok_cong [OF cache_invD(4) [OF inv]]) (auto simp: lists rest heap)
  ultimately show "cache_inv (refs(i := refs i + 1)) ?c"
    using cache_invD(5) [OF inv] by (simp add: cache_inv_def rest heap)
qed

lemma daemon_take_frame [simp]:
  "live (daemon_take i conf) = live conf" "raid_disks (daemon_take i conf) = raid_disks conf"
  "chunk_size (daemon_take i conf) = chunk_size conf" "level (daemon_take i conf) = level conf"
  "algorithm (daemon_take i conf) = algorithm conf" "disks (daemon_take i conf) = disks conf"
  "dev (heap (daemon_take i conf) j) = dev (heap conf j)"
  "pd_idx (heap (daemon_take i conf) j) = pd_idx (heap conf j)"
  "sector (heap (daemon_take i conf) j) = sector (heap conf j)"
  "sh_state (heap (daemon_take i conf) j) = sh_state (heap conf j)"
  by (simp_all add: daemon_take_def list_del_init_frame atomic_add_count_frame)

lemma release_stripe_frame2 [simp]:
  "chunk_size (release_stripe i conf) = chunk_size conf" "level (release_stripe i conf) = level conf"
  "algorithm (release_stripe i conf) = algorithm conf" "disks (release_stripe i conf) = disks conf"
  by (simp_all add: release_stripe_def release_stripe_locked_def Let_def atomic_add_count_def)

section \<open>Interleaved tasks, completions and the daemon\<close>

text \<open>
  A holder of a stripe is a task between two critical sections of \<open>jraid5_make_request\<close> or of
  the daemon's loop body; \<open>phase\<close> is what it does next.
\<close>

datatype phase = Adding bio nat bool | Handling | Releasing

record rsys =
  cfg :: jraid5_conf
  holders :: "(sid \<times> phase) multiset"
  inflight :: "request multiset"

definition refs_of :: "rsys \<Rightarrow> sid \<Rightarrow> nat" where
  "refs_of s i = count (image_mset fst (holders s)) i + count (image_mset rq_stripe (inflight s)) i"

inductive rstep :: "rsys \<Rightarrow> rsys \<Rightarrow> bool" where
  take: "jraid5_compute_sector (cfg s) (bi_sector bi) (raid_disks (cfg s)) (raid_disks (cfg s) - 1)
      = Some (sect, dd, pd) \<Longrightarrow>
    get_active_stripe (cfg s) sect pd False = Ret (Got i, c) \<Longrightarrow>
    rstep s (s\<lparr>cfg := c, holders := add_mset (i, Adding bi (unat dd) rw) (holders s)\<rparr>)"
| add: "holders s = add_mset (i, Adding bi dd rw) H \<Longrightarrow>
    rstep s (s\<lparr>cfg := add_to_stripe i bi dd rw (cfg s), holders := add_mset (i, Handling) H\<rparr>)"
| handle: "holders s = add_mset (i, Handling) H \<Longrightarrow> handle_stripe i (cfg s) = (c, rs) \<Longrightarrow>
    rstep s (s\<lparr>cfg := c, holders := add_mset (i, Releasing) H, inflight := inflight s + mset rs\<rparr>)"
| release: "holders s = add_mset (i, Releasing) H \<Longrightarrow>
    rstep s (s\<lparr>cfg := release_stripe i (cfg s), holders := H\<rparr>)"
| complete: "inflight s = add_mset r R \<Longrightarrow>
    rstep s (s\<lparr>cfg := call_end_io r (cfg s), inflight := R\<rparr>)"
| daemon: "handle_list (cfg s) = i # rest \<Longrightarrow>
    rstep s (s\<lparr>cfg := daemon_take i (cfg s), holders := add_mset (i, Handling) (holders s)\<rparr>)"

definition sys_inv :: "rsys \<Rightarrow> bool" where
  "sys_inv s \<longleftrightarrow> cache_inv (refs_of s) (cfg s) \<and> pd_ok (cfg s) \<and>
     geom_ok (cfg s) (raid_disks (cfg s))"

lemma init_stripe_other:
  assumes "init_stripe i sect pd conf = Ret conf'" and "j \<noteq> i"
  shows "sector (heap conf' j) = sector (heap conf j)" "pd_idx (heap conf' j) = pd_idx (heap conf j)"
    "dev (heap conf' j) = dev (heap conf j)"
  using assms by (auto simp: init_stripe_def Let_def bind_outcome_Ret_iff split: if_splits)

text \<open>A stripe other than a recycled one keeps its row and its members.\<close>

lemma get_active_other:
  assumes "get_active_stripe conf sect pd nb = Ret (a, conf')"
    and "find_stripe conf sect \<noteq> Some None \<or> a \<noteq> Got j"
  shows "sector (heap conf' j) = sector (heap conf j)" "pd_idx (heap conf' j) = pd_idx (heap conf j)"
    "dev (heap conf' j) = dev (heap conf j)"
proof -
  have "sector (heap conf' j) = sector (heap conf j) \<and> pd_idx (heap conf' j) = pd_idx (heap conf j) \<and>
      dev (heap conf' j) = dev (heap conf j)"
    using assms(1)
  proof (cases rule: get_active_Ret_cases)
    case (new i rest c)
    then have "j \<noteq> i" using assms(2) by auto
    then show ?thesis using init_stripe_other [OF new(4), of j] new(5) by simp
  qed (simp_all add: list_del_init_frame)
  then show "sector (heap conf' j) = sector (heap conf j)" "pd_idx (heap conf' j) = pd_idx (heap conf j)"
    "dev (heap conf' j) = dev (heap conf j)" by auto
qed

lemma get_active_take:
  assumes inv: "cache_inv refs conf" and get: "get_active_stripe conf sect pd nb = Ret (Got i, conf')"
    and pd: "pd_ok conf" "unat pd < unat (raid_disks conf)"
  shows "cache_inv (refs(i := refs i + 1)) conf' \<and> pd_ok conf' \<and> sector (heap conf' i) = sect"
proof -
  note frame = get_active_frame [OF get] and other = get_active_other [OF get]
  consider (hit) "find_stripe conf sect = Some (Some i)"
    | (miss) rest where "find_stripe conf sect = Some None" "inactive_list conf = i # rest"
    using get by (cases rule: get_active_Ret_cases) (auto split: if_splits)
  then show ?thesis
  proof cases
    case hit
    then have "pd_ok conf'" using pd(1) frame other(2) by (simp add: pd_ok_def)
    then show ?thesis using get_active_hit_inv [OF inv hit, of pd nb] get by auto
  next
    case miss
    note m = get_active_miss_inv [OF inv miss get]
    have "unat (pd_idx (heap conf' j)) < unat (raid_disks conf')" if "j \<in> set (live conf')" for j
      using that m pd frame other(2) [of j] by (cases "j = i") (auto simp: pd_ok_def)
    then show ?thesis using m by (simp add: pd_ok_def)
  qed
qed

lemma rstep_inv:
  assumes "rstep s s'" and "sys_inv s"
  shows "sys_inv s'"
  using assms
proof (induction rule: rstep.induct)
  case (take s bi sect dd pd i c rw)
  have inv: "cache_inv (refs_of s) (cfg s)" "pd_ok (cfg s)" "geom_ok (cfg s) (raid_disks (cfg s))"
    using take.prems by (auto simp: sys_inv_def)
  have "pd < raid_disks (cfg s)" using compute_sector_bounds(2) [OF inv(3) take.hyps(1)] .
  then have "cache_inv ((refs_of s)(i := refs_of s i + 1)) c \<and> pd_ok c"
    using get_active_take [OF inv(1) take.hyps(2) inv(2)] by (simp add: word_less_nat_alt)
  moreover have "refs_of (s\<lparr>cfg := c, holders := add_mset (i, Adding bi (unat dd) rw) (holders s)\<rparr>)
      = (refs_of s)(i := refs_of s i + 1)" by (auto simp: refs_of_def fun_eq_iff)
  moreover have "geom_ok c (raid_disks c)"
    using inv(3) get_active_frame [OF take.hyps(2)] geom_ok_cong [of c "cfg s"] by simp
  ultimately show ?case by (simp add: sys_inv_def)
next
  case (add s i bi dd rw H)
  let ?c = "add_to_stripe i bi dd rw (cfg s)"
  have "refs_of s i \<noteq> 0" using add.hyps by (simp add: refs_of_def)
  then have "cache_inv (refs_of s) ?c" using add.prems add_to_stripe_inv by (simp add: sys_inv_def)
  moreover have "refs_of (s\<lparr>cfg := ?c, holders := add_mset (i, Handling) H\<rparr>) = refs_of s"
    using add.hyps by (auto simp: refs_of_def fun_eq_iff)
  ultimately show ?case using add.prems geom_ok_cong [of ?c "cfg s"] by (simp add: sys_inv_def pd_ok_def)
next
  case (handle s i H c rs)
  have inv: "cache_inv (refs_of s) (cfg s)" "pd_ok (cfg s)" and ref: "refs_of s i \<noteq> 0"
    using handle by (auto simp: sys_inv_def refs_of_def)
  note h = handle_stripe_held [OF inv(1) ref inv(2) handle.hyps(2)]
  have "count (image_mset rq_stripe (mset rs)) j = (if j = i then length rs else 0)" for j
    using h(4) by (induction rs) auto
  then have "refs_of (s\<lparr>cfg := c, holders := add_mset (i, Releasing) H, inflight := inflight s + mset rs\<rparr>)
      = (refs_of s)(i := refs_of s i + length rs)"
    using handle.hyps(1) by (auto simp: refs_of_def fun_eq_iff)
  moreover obtain sh' where c: "c = upd_stripe i (\<lambda>_. sh') (cfg s)" "pd_idx sh' = pd_idx (heap (cfg s) i)"
    using h(3) by blast
  have "pd_ok c" using inv(2) c by (simp add: pd_ok_def)
  moreover have "geom_ok c (raid_disks c)"
    using handle.prems geom_ok_cong [of c "cfg s"] by (simp add: sys_inv_def c(1))
  ultimately show ?case using h(1) by (simp add: sys_inv_def)
next
  case (release s i H)
  let ?c = "release_stripe i (cfg s)"
  have "cache_inv ((refs_of s)(i := refs_of s i - 1)) ?c"
    using release by (intro release_stripe_inv) (auto simp: sys_inv_def refs_of_def)
  moreover have "refs_of (s\<lparr>cfg := ?c, holders := H\<rparr>) = (refs_of s)(i := refs_of s i - 1)"
    using release.hyps by (auto simp: refs_of_def fun_eq_iff)
  ultimately show ?case using release.prems geom_ok_cong [of ?c "cfg s"] by (simp add: sys_inv_def pd_ok_def)
next
  case (complete s r R)
  let ?i = "rq_stripe r" let ?c = "release_stripe ?i (cfg s)"
  have "cache_inv ((refs_of s)(?i := refs_of s ?i - 1)) ?c"
    using complete by (intro release_stripe_inv) (auto simp: sys_inv_def refs_of_def)
  moreover have "refs_of (s\<lparr>cfg := ?c, inflight := R\<rparr>) = (refs_of s)(?i := refs_of s ?i - 1)"
    using complete.hyps by (auto simp: refs_of_def fun_eq_iff)
  ultimately show ?case
    using complete.prems geom_ok_cong [of ?c "cfg s"]
    by (simp add: sys_inv_def pd_ok_def call_end_io_release)
next
  case (daemon s i rest)
  let ?c = "daemon_take i (cfg s)"
  have "cache_inv ((refs_of s)(i := refs_of s i + 1)) ?c"
    using daemon daemon_take_inv(1) by (simp add: sys_inv_def)
  moreover have "refs_of (s\<lparr>cfg := ?c, holders := add_mset (i, Handling) (holders s)\<rparr>)
      = (refs_of s)(i := refs_of s i + 1)" by (auto simp: refs_of_def fun_eq_iff)
  ultimately show ?case using daemon.prems geom_ok_cong [of ?c "cfg s"] by (simp add: sys_inv_def pd_ok_def)
qed

lemma rsteps_inv: "rstep\<^sup>*\<^sup>* s s' \<Longrightarrow> sys_inv s \<Longrightarrow> sys_inv s'"
  by (induction rule: rtranclp_induct) (auto dest: rstep_inv)

section \<open>A stripe that was used once\<close>

definition used :: "jraid5_conf \<Rightarrow> sid \<Rightarrow> bool" where
  "used conf i \<longleftrightarrow> i \<in> set (live conf) \<and>
     (\<exists>k < unat (raid_disks conf). toread (dev (heap conf i) ! k) \<noteq> [] \<or> towrite (dev (heap conf i) ! k) \<noteq> [])"

lemma used_busy: "used conf i \<Longrightarrow> busy_stripe conf (heap conf i)"
  by (auto simp: used_def busy_stripe_def dev_busy_def)

lemma add_stripe_bio_grows:
  "toread (dev sh ! k) \<noteq> [] \<Longrightarrow> toread (dev (snd (add_stripe_bio sh bi dd rw)) ! k) \<noteq> []"
  "towrite (dev sh ! k) \<noteq> [] \<Longrightarrow> towrite (dev (snd (add_stripe_bio sh bi dd rw)) ! k) \<noteq> []"
proof -
  have nth: "xs[j := v] ! k = (if k = j \<and> j < length xs then v else xs ! k)" for xs :: "r5dev list" and j v
    by (cases "j < length xs") (simp_all add: nth_list_update list_update_beyond)
  have "(toread (dev sh ! k) \<noteq> [] \<longrightarrow> toread (dev (snd (add_stripe_bio sh bi dd rw)) ! k) \<noteq> []) \<and>
      (towrite (dev sh ! k) \<noteq> [] \<longrightarrow> towrite (dev (snd (add_stripe_bio sh bi dd rw)) ! k) \<noteq> [])"
  proof (cases "insert_bio bi (if rw then towrite (dev sh ! dd) else toread (dev sh ! dd))")
    case None
    then show ?thesis by (simp add: add_stripe_bio_def Let_def upd_dev_def nth)
  next
    case (Some cs)
    then have "cs \<noteq> []" using insert_bio_set by fastforce
    then show ?thesis using Some by (cases rw) (simp_all add: add_stripe_bio_def Let_def upd_dev_def nth)
  qed
  then show "toread (dev sh ! k) \<noteq> [] \<Longrightarrow> toread (dev (snd (add_stripe_bio sh bi dd rw)) ! k) \<noteq> []"
    "towrite (dev sh ! k) \<noteq> [] \<Longrightarrow> towrite (dev (snd (add_stripe_bio sh bi dd rw)) ! k) \<noteq> []"
    by blast+
qed

lemma used_cong:
  assumes "used conf i" and "live conf' = live conf" "raid_disks conf' = raid_disks conf"
    and "\<And>k. k < unat (raid_disks conf) \<Longrightarrow>
      (toread (dev (heap conf i) ! k) \<noteq> [] \<longrightarrow> toread (dev (heap conf' i) ! k) \<noteq> []) \<and>
      (towrite (dev (heap conf i) ! k) \<noteq> [] \<longrightarrow> towrite (dev (heap conf' i) ! k) \<noteq> [])"
  shows "used conf' i"
  using assms unfolding used_def by metis

lemma rstep_used:
  assumes "rstep s s'" and "sys_inv s" and "used (cfg s) i"
  shows "used (cfg s') i \<and> sector (heap (cfg s') i) = sector (heap (cfg s) i) \<and>
    live (cfg s') = live (cfg s)"
  using assms
proof (induction rule: rstep.induct)
  case (take s bi sect dd pd j c rw)
  have inv: "cache_inv (refs_of s) (cfg s)" and g: "geom_ok (cfg s) (raid_disks (cfg s))"
    using take.prems by (auto simp: sys_inv_def)
  have "find_stripe (cfg s) sect \<noteq> Some None \<or> Got j \<noteq> Got i"
  proof (rule ccontr)
    assume *: "\<not> ?thesis"
    from take.hyps(2) obtain rest where "inactive_list (cfg s) = i # rest"
      by (cases rule: get_active_Ret_cases) (use * in auto)
    then show False
      using * get_active_miss_result [OF inv g, of sect i rest pd False] take.hyps(2)
        used_busy [OF take.prems(2)] by simp
  qed
  note o = get_active_other [OF take.hyps(2) this] and f = get_active_frame [OF take.hyps(2)]
  have "used c i" by (rule used_cong [OF take.prems(2)]) (simp_all add: f o)
  then show ?case using o f by simp
next
  case (add s j bi dd rw H)
  have "used (add_to_stripe j bi dd rw (cfg s)) i"
    using add.prems(2)
    by (rule used_cong) (simp_all add: add_to_stripe_def add_stripe_bio_grows)
  then show ?case by simp
next
  case (handle s j H c rs)
  have inv: "cache_inv (refs_of s) (cfg s)" "pd_ok (cfg s)" and ref: "refs_of s j \<noteq> 0"
    using handle by (auto simp: sys_inv_def refs_of_def)
  note h = handle_stripe_held [OF inv(1) ref inv(2) handle.hyps(2)]
  obtain sh' where c: "c = upd_stripe j (\<lambda>_. sh') (cfg s)" "sector sh' = sector (heap (cfg s) j)"
    "\<forall>k < length (dev (heap (cfg s) j)). same_chains (dev sh' ! k) (dev (heap (cfg s) j) ! k)"
    using h(3) by blast
  have "unat (raid_disks (cfg s)) = length (dev (heap (cfg s) j))"
    using cache_invD(5) [OF inv(1)] cache_inv_held(1) [OF inv(1) ref] by simp
  then have "used c i"
    using c by (intro used_cong [OF handle.prems(2)]) (auto simp: same_chains_def)
  then show ?case using c by simp
next
  case (release s j H)
  have "used (release_stripe j (cfg s)) i"
    by (rule used_cong [OF release.prems(2)]) simp_all
  then show ?case by simp
next
  case (complete s r R)
  have "used (release_stripe (rq_stripe r) (cfg s)) i"
    by (rule used_cong [OF complete.prems(2)]) simp_all
  then show ?case by (simp add: call_end_io_release)
next
  case (daemon s j rest)
  have "used (daemon_take j (cfg s)) i"
    by (rule used_cong [OF daemon.prems(2)]) simp_all
  then show ?case by simp
qed

lemma handle_stripe_live: "handle_stripe i conf = (c, rs) \<Longrightarrow> live c = live conf"
  by (auto simp: handle_stripe_def Let_def split_def)

lemma rstep_live: "rstep s s' \<Longrightarrow> live (cfg s') = live (cfg s)"
  by (induction rule: rstep.induct)
     (simp_all add: get_active_frame(1) handle_stripe_live call_end_io_release)

lemma rsteps_live: "rstep\<^sup>*\<^sup>* s s' \<Longrightarrow> live (cfg s') = live (cfg s)"
  by (induction rule: rtranclp_induct) (simp_all add: rstep_live)

lemma rsteps_used:
  "rstep\<^sup>*\<^sup>* s s' \<Longrightarrow> sys_inv s \<Longrightarrow> used (cfg s) i \<Longrightarrow>
   used (cfg s') i \<and> sector (heap (cfg s') i) = sector (heap (cfg s) i) \<and> live (cfg s') = live (cfg s)"
proof (induction rule: rtranclp_induct)
  case (step t u)
  then show ?case using rstep_used [OF step.hyps(2) rsteps_inv [OF step.hyps(1)], of i] by simp
qed simp

section \<open>The daemon\<close>

text \<open>A stripe for which a pass submits nothing.\<close>

definition silent :: "jraid5_conf \<Rightarrow> sid \<Rightarrow> bool" where
  "silent conf i \<longleftrightarrow> (\<forall>k < unat (raid_disks conf). requests_of (disks conf) i (heap conf i) k = [])"

lemma requests_of_Nil:
  "requests_of ds i sh k = [] \<longleftrightarrow> want (dev sh ! k) = None \<or> di_jrdev (ds ! k) = None"
  by (auto simp: requests_of_def split: option.splits)

lemma want_sent_None:
  assumes "want d = None"
  shows "want (sent ds sect k (prepared pd k d)) = None"
proof -
  have w: "\<not> bit (dev_flags d) R5_Wantwrite" "towrite d = []" "\<not> bit (dev_flags d) R5_Wantread"
    "toread d = []" using assms by (auto simp: want_def split: if_splits)
  have "same_chains (sent ds sect k (prepared pd k d)) d"
    by (rule same_chains_trans [OF sent_simps(1) prepared_simps(1)])
  then show ?thesis using w by (simp add: want_def same_chains_def)
qed

lemma silent_concat:
  "silent conf i \<longleftrightarrow>
   concat (map (requests_of (disks conf) i (heap conf i)) (rev [0..<unat (raid_disks conf)])) = []"
  by (auto simp: silent_def)

text \<open>One round of the daemon's loop.\<close>

lemma daemon_round:
  assumes inv: "cache_inv refs conf" and pd: "pd_ok conf" and hl: "handle_list conf = j # rest"
    and h: "handle_stripe j (daemon_take j conf) = (conf2, rs)"
  shows "cache_inv (refs(j := length rs)) (release_stripe j conf2)" "pd_ok (release_stripe j conf2)"
    "handle_list (release_stripe j conf2) = rest @ (if rs = [] then [j] else [])"
    "\<And>i. silent conf i \<Longrightarrow> silent (release_stripe j conf2) i"
    "rs = [] \<longleftrightarrow> silent conf j"
    "\<And>i. i \<noteq> j \<Longrightarrow> silent (release_stripe j conf2) i \<longleftrightarrow> silent conf i"
proof -
  let ?c1 = "daemon_take j conf" and ?c3 = "release_stripe j conf2"
  note t = daemon_take_inv [OF inv hl]
  have held: "(refs(j := refs j + 1)) j \<noteq> 0" by simp
  have pd1: "pd_ok ?c1" using pd by (simp add: pd_ok_def)
  note s = handle_stripe_held [OF t(1) held pd1 h]
  obtain sh' where c2: "conf2 = upd_stripe j (\<lambda>_. sh') ?c1" and sec: "sector sh' = sector (heap ?c1 j)"
    "pd_idx sh' = pd_idx (heap ?c1 j)"
    and flag: "bit (sh_state (heap ?c1 j)) STRIPE_HANDLE \<or>
      (\<exists>k < unat (raid_disks ?c1). orphan (disks ?c1) (heap ?c1 j) k) \<longrightarrow>
      bit (sh_state sh') STRIPE_HANDLE"
    and devs: "\<forall>k < unat (raid_disks ?c1). dev sh' ! k = sent (disks ?c1) (sector (heap ?c1 j)) k
          (prepared (unat (pd_idx (heap ?c1 j))) k (dev (heap ?c1 j) ! k))"
    using s(3) by blast
  have inv2: "cache_inv (refs(j := refs j + 1 + length rs)) conf2"
    using s(1) by (simp only: fun_upd_upd fun_upd_same)
  have "cache_inv ((refs(j := refs j + 1 + length rs))(j := (refs(j := refs j + 1 + length rs)) j - 1)) ?c3"
    using inv2 by (rule release_stripe_inv) simp
  then show inv3: "cache_inv (refs(j := length rs)) ?c3" using t(2) by simp
  show "pd_ok ?c3" using pd c2 sec by (simp add: pd_ok_def)
  have b: "bit (sh_state (heap conf2 j)) STRIPE_HANDLE"
    using flag cache_invD(3) [OF inv] hl by (simp add: c2 flags_ok_def)
  have "sh_count (heap conf2 j) = int (refs j + 1 + length rs)"
    using cache_inv_held(3) [OF inv2, of j] by simp
  then have one: "sh_count (heap conf2 j) = 1 \<longleftrightarrow> rs = []" using t(2) by simp
  show "handle_list ?c3 = rest @ (if rs = [] then [j] else [])"
    using b one t(4) by (simp add: release_stripe_lists c2)
  have req_eq: "requests_of ds i sh k = requests_of ds i sh2 k"
    if "dev sh = dev sh2" "sector sh = sector sh2" for ds i sh sh2 k
    unfolding requests_of_def that ..
  show "rs = [] \<longleftrightarrow> silent conf j"
    unfolding s(2) silent_concat using req_eq [of "heap ?c1 j" "heap conf j"] by simp
  show keep: "silent ?c3 i \<longleftrightarrow> silent conf i" if "i \<noteq> j" for i
    using that by (simp add: silent_def requests_of_Nil c2)
  show "silent ?c3 i" if sil: "silent conf i" for i
  proof (cases "i = j")
    case True
    have "want (dev sh' ! k) = None \<or> di_jrdev (disks conf ! k) = None"
      if "k < unat (raid_disks conf)" for k
      using sil that devs True want_sent_None by (auto simp: silent_def requests_of_Nil)
    then show ?thesis using True by (simp add: silent_def requests_of_Nil c2)
  qed (use keep sil in simp)
qed

lemma jraid5d_loop_diverges:
  assumes "jraid5d_loop conf rs0 = Some y"
  shows "\<not> (\<exists>refs i. cache_inv refs conf \<and> pd_ok conf \<and> i \<in> set (handle_list conf) \<and> silent conf i)"
proof (rule jraid5d_loop.raw_induct [OF _ assms])
  fix loop conf rs0 y
  assume IH: "\<And>conf rs0 y. loop conf rs0 = Some y \<Longrightarrow>
      \<not> (\<exists>refs i. cache_inv refs conf \<and> pd_ok conf \<and> i \<in> set (handle_list conf) \<and> silent conf i)"
    and body: "(case handle_list conf of
        [] \<Rightarrow> Some (Ret (conf, rs0))
      | i # _ \<Rightarrow>
          let conf1 = daemon_take i conf in
          if sh_count (heap conf1 i) \<noteq> 1 then Some Bug
          else let (conf2, rs) = handle_stripe i conf1
               in loop (release_stripe i conf2) (rs0 @ rs)) = Some y"
  show "\<not> (\<exists>refs i. cache_inv refs conf \<and> pd_ok conf \<and> i \<in> set (handle_list conf) \<and> silent conf i)"
  proof (rule notI, elim exE conjE)
    fix refs i assume inv: "cache_inv refs conf" "pd_ok conf" and i: "i \<in> set (handle_list conf)" "silent conf i"
    obtain j rest where hl: "handle_list conf = j # rest" using i(1) by (cases "handle_list conf") auto
    obtain conf2 rs where h: "handle_stripe j (daemon_take j conf) = (conf2, rs)" by fastforce
    note round = daemon_round [OF inv hl h]
    have "loop (release_stripe j conf2) (rs0 @ rs) = Some y"
      using body daemon_take_inv(3) [OF inv(1) hl] by (simp add: hl Let_def h)
    from IH [OF this] have no: "\<not> (\<exists>refs i. cache_inv refs (release_stripe j conf2) \<and>
        pd_ok (release_stripe j conf2) \<and> i \<in> set (handle_list (release_stripe j conf2)) \<and>
        silent (release_stripe j conf2) i)" .
    have "i \<in> set (handle_list (release_stripe j conf2))"
      using i hl round(3,5) by (cases "i = j") auto
    then show False using no round(1,2,4) i(2) by blast
  qed
qed

lemma jraid5d_loop_returns:
  assumes "cache_inv refs conf" "pd_ok conf" and "\<forall>i \<in> set (handle_list conf). \<not> silent conf i"
  shows "\<exists>conf' rs refs'. jraid5d_loop conf rs0 = Some (Ret (conf', rs0 @ rs)) \<and>
    handle_list conf' = [] \<and> cache_inv refs' conf'"
  using assms
proof (induction "handle_list conf" arbitrary: conf refs rs0)
  case Nil
  then have "jraid5d_loop conf rs0 = Some (Ret (conf, rs0))" by (subst jraid5d_loop.simps) simp
  then show ?case using Nil by auto
next
  case (Cons j rest)
  note hl = Cons.hyps(2) [symmetric]
  obtain conf2 rs where h: "handle_stripe j (daemon_take j conf) = (conf2, rs)" by fastforce
  note round = daemon_round [OF Cons.prems(1,2) hl h]
  let ?c3 = "release_stripe j conf2"
  have ne: "rs \<noteq> []" using round(5) Cons.prems(3) hl by simp
  then have hl3: "handle_list ?c3 = rest" using round(3) by simp
  have "j \<notin> set rest" using cache_invD(1) [OF Cons.prems(1)] hl by (auto simp: lists_ok_def)
  have "\<not> silent ?c3 i" if i: "i \<in> set (handle_list ?c3)" for i
  proof -
    have "i \<noteq> j" using i hl3 \<open>j \<notin> set rest\<close> by auto
    then show ?thesis using i hl hl3 Cons.prems(3) round(6) [of i] by simp
  qed
  then have "\<forall>i \<in> set (handle_list ?c3). \<not> silent ?c3 i" by blast
  then obtain conf' rs' refs' where r: "jraid5d_loop ?c3 (rs0 @ rs) = Some (Ret (conf', (rs0 @ rs) @ rs'))"
    "handle_list conf' = []" "cache_inv refs' conf'"
    using Cons.hyps(1) [OF hl3 [symmetric] round(1,2)] by blast
  have "jraid5d_loop conf rs0 = jraid5d_loop ?c3 (rs0 @ rs)"
    using daemon_take_inv(3) [OF Cons.prems(1) hl] by (subst jraid5d_loop.simps) (simp add: hl Let_def h)
  then show ?case using r by auto
qed

section \<open>A request on its own\<close>

lemma add_stripe_bio_chained:
  assumes "dd < length (dev sh)"
  shows "toread (dev (snd (add_stripe_bio sh bi dd rw)) ! dd) \<noteq> [] \<or>
    towrite (dev (snd (add_stripe_bio sh bi dd rw)) ! dd) \<noteq> []"
proof (cases "insert_bio bi (if rw then towrite (dev sh ! dd) else toread (dev sh ! dd))")
  case None
  then have "(if rw then towrite (dev sh ! dd) else toread (dev sh ! dd)) \<noteq> []" by auto
  then show ?thesis using add_stripe_bio_grows by (cases rw) auto
next
  case (Some cs)
  then have "cs \<noteq> []" using insert_bio_set by fastforce
  then show ?thesis using Some assms
    by (cases rw) (simp_all add: add_stripe_bio_def Let_def upd_dev_def)
qed

lemma make_request_got:
  assumes inv: "cache_inv refs conf" and pd: "pd_ok conf" "unat pdx < unat (raid_disks conf)"
    and get: "get_active_stripe conf ns pdx False = Ret (Got i, conf1)"
    and dd: "unat dd < unat (raid_disks conf)"
    and h: "handle_stripe i (add_to_stripe i bi (unat dd) rw conf1) = (conf3, rs)"
  shows "cache_inv (refs(i := refs i + length rs)) (release_stripe i conf3) \<and>
    pd_ok (release_stripe i conf3) \<and> sector (heap (release_stripe i conf3) i) = ns \<and>
    used (release_stripe i conf3) i \<and> (\<forall>r \<in> set rs. rq_stripe r = i)"
proof -
  let ?c2 = "add_to_stripe i bi (unat dd) rw conf1" and ?refs = "refs(i := refs i + 1)"
  have take: "cache_inv ?refs conf1" "pd_ok conf1" "sector (heap conf1 i) = ns"
    using get_active_take [OF inv get pd] by auto
  have inv2: "cache_inv ?refs ?c2" using take(1) by (rule add_to_stripe_inv) simp
  have pd2: "pd_ok ?c2" using take(2) by (simp add: pd_ok_def)
  have ref: "?refs i \<noteq> 0" by simp
  note s = handle_stripe_held [OF inv2 ref pd2 h]
  have live: "i \<in> set (live conf1)" using cache_inv_held(1) [OF take(1) ref] .
  then have len: "length (dev (heap conf1 i)) = unat (raid_disks conf)"
    using cache_invD(5) [OF take(1)] get_active_frame(2) [OF get] by simp
  obtain sh' where c3: "conf3 = upd_stripe i (\<lambda>_. sh') ?c2" "sector sh' = sector (heap ?c2 i)"
    "pd_idx sh' = pd_idx (heap ?c2 i)"
    "\<forall>k < length (dev (heap ?c2 i)). same_chains (dev sh' ! k) (dev (heap ?c2 i) ! k)"
    using s(3) by blast
  have "cache_inv (refs(i := refs i + 1 + length rs)) conf3"
    using s(1) by (simp only: fun_upd_upd fun_upd_same)
  then have "cache_inv ((refs(i := refs i + 1 + length rs))
      (i := (refs(i := refs i + 1 + length rs)) i - 1)) (release_stripe i conf3)"
    by (rule release_stripe_inv) simp
  moreover have "used (release_stripe i conf3) i"
  proof -
    have "same_chains (dev sh' ! unat dd) (dev (heap ?c2 i) ! unat dd)" using c3(4) len dd by simp
    moreover have "toread (dev (heap ?c2 i) ! unat dd) \<noteq> [] \<or> towrite (dev (heap ?c2 i) ! unat dd) \<noteq> []"
      using add_stripe_bio_chained [of "unat dd" "heap conf1 i" bi rw] len dd
      by (simp add: add_to_stripe_def)
    ultimately show ?thesis
      using live dd get_active_frame(2) [OF get] c3(1) by (auto simp: used_def same_chains_def)
  qed
  moreover have "pd_ok (release_stripe i conf3)" using pd2 c3 by (simp add: pd_ok_def)
  ultimately show ?thesis using s(4) c3 take(3) by simp
qed

section \<open>Properties\<close>

lemma refs_of_empty: "refs_of \<lparr>cfg = c, holders = {#}, inflight = {#}\<rparr> = (\<lambda>_. 0)"
  by (simp add: refs_of_def fun_eq_iff)

lemma cache_example_pd: "pd_ok cache_example"
  by (simp add: pd_ok_def cache_example_def conf_example_def zero_stripe_def)

lemma sys_example_inv: "sys_inv \<lparr>cfg = cache_example, holders = {#}, inflight = {#}\<rparr>"
  by (simp add: sys_inv_def refs_of_empty cache_example_inv cache_example_geom cache_example_pd)




text \<open>
  C5 The daemon's loop returns if and only if every stripe on \<open>handle_list\<close> has a request to
  submit (and no completion puts one back meanwhile); then it leaves the list empty. A stripe
  for which nothing can be submitted is put back by the daemon's own \<open>release_stripe\<close>, as
  \<open>STRIPE_HANDLE\<close> is never cleared, and the daemon spins on it for ever.
\<close>

theorem jraid5d_returns_iff:
  assumes inv: "cache_inv refs conf" and pd: "pd_ok conf"
  shows "if \<exists>i \<in> set (handle_list conf). silent conf i then jraid5d conf = None
    else \<exists>conf' rs. jraid5d conf = Some (Ret (conf', rs)) \<and> handle_list conf' = []"
proof (cases "\<exists>i \<in> set (handle_list conf). silent conf i")
  case True
  then have "jraid5d_loop conf [] \<noteq> Some y" for y
    using jraid5d_loop_diverges [of conf "[]" y] inv pd by blast
  then have "jraid5d conf = None" unfolding jraid5d_def by (cases "jraid5d_loop conf []") auto
  then show ?thesis using True by simp
next
  case False
  then have "\<exists>conf' rs. jraid5d conf = Some (Ret (conf', rs)) \<and> handle_list conf' = []"
    using jraid5d_loop_returns [OF inv pd, of "[]"] unfolding jraid5d_def by auto
  then show ?thesis using False by simp
qed

theorem jraid5d_returns_iff_witness:
  "\<exists>conf' rs. jraid5d cache_example = Some (Ret (conf', rs)) \<and> handle_list conf' = []"
  using jraid5d_returns_iff [OF cache_example_inv cache_example_pd]
  by (simp add: cache_example_def conf_example_def zero_conf_def)



definition used_example :: jraid5_conf where
  "used_example = cache_example\<lparr>heap := (\<lambda>_. (zero_stripe 4)\<lparr>dev := (replicate 4 zero_dev)
     [3 := zero_dev\<lparr>towrite := [bio_example 0]\<rparr>]\<rparr>)\<rparr>"

lemma used_example_simps:
  "live used_example = [0]" "inactive_list used_example = [0]" "handle_list used_example = []"
  "raid_disks used_example = 4" "stripe_hashtbl used_example = (\<lambda>_. None)"
  "active_stripes used_example = 0" "sector (heap used_example i) = 0"
  "pd_idx (heap used_example i) = 0" "sh_state (heap used_example i) = 0"
  "sh_count (heap used_example i) = 0" "hash_pprev (heap used_example i) = None"
  "length (dev (heap used_example i)) = 4" "towrite (dev (heap used_example i) ! 3) \<noteq> []"
  by (simp_all add: used_example_def cache_example_def conf_example_def zero_conf_def zero_stripe_def)

lemma used_example_inv: "sys_inv \<lparr>cfg = used_example, holders = {#}, inflight = {#}\<rparr>"
proof -
  have z: "\<not> hashed used_example i" for i by (simp add: hashed_def used_example_simps)
  then have "hash_ok used_example"
    using hash_rep_zero [of used_example] used_example_simps by (auto simp: hash_ok_def)
  then have "cache_inv (\<lambda>_. 0) used_example"
    using z by (simp add: cache_inv_defs stripes.unique_def used_example_simps)
  moreover have "geom_ok used_example (raid_disks used_example)"
    using geom_ok_example geom_ok_cong [of used_example conf_example]
    by (simp add: used_example_simps) (simp add: used_example_def cache_example_def conf_example_def)
  ultimately show ?thesis by (simp add: sys_inv_def refs_of_empty pd_ok_def used_example_simps)
qed


lemma chained_on_fresh:
  assumes len: "length (dev (heap conf i)) = n" and fresh: "\<forall>k < n. fresh_dev sct (dev (heap conf i) ! k)" and dd: "dd < n"
  shows "want (dev (heap (add_to_stripe i bi dd rw conf) i) ! dd) \<noteq> None"
    and "k < n \<Longrightarrow> k \<noteq> dd \<Longrightarrow> want (dev (heap (add_to_stripe i bi dd rw conf) i) ! k) = None"
proof -
  have "toread (dev (heap conf i) ! dd) = []" "towrite (dev (heap conf i) ! dd) = []"
    using fresh dd by (auto simp: fresh_dev_def)
  then have "dev (heap (add_to_stripe i bi dd rw conf) i) ! k = dev (heap conf i) ! k" if "k \<noteq> dd" for k
    using that by (simp add: add_to_stripe_def add_stripe_bio_def Let_def upd_dev_def)
  then show "want (dev (heap (add_to_stripe i bi dd rw conf) i) ! k) = None" if "k < n" "k \<noteq> dd"
    using that fresh by (auto simp: want_def fresh_dev_def)
  show "want (dev (heap (add_to_stripe i bi dd rw conf) i) ! dd) \<noteq> None"
    using add_stripe_bio_chained [of dd "heap conf i" bi rw] len dd by (auto simp: add_to_stripe_def want_def)
qed

text \<open>A stripe whose only wish is for a missing member: nothing is sent, and it stays to be handled.\<close>

lemma missing_handled:
  assumes inv: "cache_inv refs conf" "refs i \<noteq> 0" "pd_ok conf" and h: "handle_stripe i conf = (conf', rs)"
    and dd: "dd < unat (raid_disks conf)" "want (dev (heap conf i) ! dd) \<noteq> None" "di_jrdev (disks conf ! dd) = None"
    and others: "\<And>k. k < unat (raid_disks conf) \<Longrightarrow> k \<noteq> dd \<Longrightarrow> want (dev (heap conf i) ! k) = None"
  shows "rs = []" "cache_inv refs conf'" "silent conf' i" "bit (sh_state (heap conf' i)) STRIPE_HANDLE"
    "\<exists>sh'. conf' = upd_stripe i (\<lambda>_. sh') conf"
proof -
  note s = handle_stripe_held [OF inv h]
  have "want (dev (heap conf i) ! k) = None \<or> di_jrdev (disks conf ! k) = None" if "k < unat (raid_disks conf)" for k
    using others [OF that] dd(3) by (cases "k = dd") simp_all
  then have "silent conf i" by (simp add: silent_def requests_of_Nil)
  then show rs: "rs = []" unfolding s(2) silent_concat .
  show "cache_inv refs conf'" using s(1) unfolding rs by (simp only: fun_upd_triv list.size add_0_right)
  obtain sh' where c: "conf' = upd_stripe i (\<lambda>_. sh') conf"
    "(\<exists>k < unat (raid_disks conf). orphan (disks conf) (heap conf i) k) \<longrightarrow> bit (sh_state sh') STRIPE_HANDLE"
    "\<forall>k < unat (raid_disks conf). dev sh' ! k = sent (disks conf) (sector (heap conf i)) k
          (prepared (unat (pd_idx (heap conf i))) k (dev (heap conf i) ! k))"
    using s(3) by blast
  show "bit (sh_state (heap conf' i)) STRIPE_HANDLE" using c(1,2) dd by (auto simp: orphan_def)
  have "want (dev sh' ! k) = None \<or> di_jrdev (disks conf ! k) = None" if "k < unat (raid_disks conf)" for k
    using that others [OF that] want_sent_None c(3) dd(3) by (cases "k = dd") auto
  then show "silent conf' i" by (simp add: silent_def requests_of_Nil c(1))
  show "\<exists>sh'. conf' = upd_stripe i (\<lambda>_. sh') conf" using c(1) by blast
qed

text \<open>
  C6 A request for a member that is missing hangs the daemon. When the row is not cached and a
  free stripe is recycled for it, \<open>jraid5_make_request\<close> ends the caller's bio without having
  submitted anything, leaves the stripe on \<open>handle_list\<close> and wakes \<open>jraid5d\<close>, whose loop then
  never ends.
\<close>

theorem degraded_request_hangs_daemon:
  assumes inv: "cache_inv refs conf" and pd: "pd_ok conf" and g: "geom_ok conf (raid_disks conf)"
    and m: "jraid5_compute_sector conf (bi_sector bi) (raid_disks conf) (raid_disks conf - 1)
      = Some (ns, dd, pdx)"
    and missing: "di_jrdev (disks conf ! unat dd) = None"
    and uncached: "\<forall>i. hashed conf i \<longrightarrow> sector (heap conf i) \<noteq> ns"
    and free: "inactive_list conf = i # rest" "\<not> busy_stripe conf (heap conf i)"
  shows "\<exists>conf'. jraid5_make_request bi rw conf = Ret (Returned True conf' []) \<and>
    i \<in> set (handle_list conf') \<and> thread conf' = map_option jmd_wakeup_thread (thread conf) \<and>
    jraid5d conf' = None"
proof -
  let ?n = "unat (raid_disks conf)" and ?dd = "unat dd"
  have b: "?dd < ?n" "unat pdx < ?n"
    using compute_sector_bounds [OF g m] by (simp_all add: word_less_nat_alt)
  have no: "\<not> (\<exists>i. hashed conf i \<and> sector (heap conf i) = ns)" using uncached by blast
  obtain conf1 where get: "get_active_stripe conf ns pdx False = Ret (Got i, conf1)"
    and fresh: "\<forall>k < ?n. fresh_dev ns (dev (heap conf1 i) ! k)"
    using get_active_stripe_outcome [OF inv g, of ns pdx False, unfolded if_not_P [OF no]] free by auto
  note take = get_active_take [OF inv get pd b(2)] and fr = get_active_frame [OF get]
  let ?refs = "refs(i := refs i + 1)" and ?c2 = "add_to_stripe i bi ?dd rw conf1"
  have inv2: "cache_inv ?refs ?c2" "?refs i \<noteq> 0" "pd_ok ?c2"
    using take by (auto intro!: add_to_stripe_inv simp: pd_ok_def)
  have "i \<in> set (live conf1)" using cache_inv_held(1) [of ?refs conf1 i] take by simp
  then have "length (dev (heap conf1 i)) = ?n" using cache_invD(5) take fr by metis
  note chained = chained_on_fresh [OF this fresh b(1)]
  obtain conf3 rs where h: "handle_stripe i ?c2 = (conf3, rs)" by fastforce
  have n2: "raid_disks ?c2 = raid_disks conf" "disks ?c2 = disks conf" using fr by simp_all
  note s = missing_handled [OF inv2 h, of ?dd, unfolded n2, OF b(1) chained(1) missing chained(2)]
  let ?c4 = "release_stripe i conf3"
  have z: "refs i = 0"
    using cache_invD(1,2) [OF inv] free(1) by (auto simp: lists_ok_def refs_ok_def on_lru_def)
  then have cnt: "sh_count (heap conf3 i) = 1" using cache_inv_held(3) [OF s(2) inv2(2)] by simp
  obtain sh' where c3: "conf3 = upd_stripe i (\<lambda>_. sh') ?c2" using s(5) by blast
  have hl: "handle_list ?c4 = handle_list conf3 @ [i]"
    using cnt s(4) by (simp add: release_stripe_lists)
  have th: "thread ?c4 = map_option jmd_wakeup_thread (thread conf)"
    using cnt s(4) fr(6) by (simp add: release_stripe_def release_stripe_locked_def Let_def c3 add_to_stripe_def)
  have "cache_inv (?refs(i := ?refs i - 1)) ?c4" using s(2) inv2(2) by (rule release_stripe_inv)
  moreover have "pd_ok ?c4" using make_request_got [OF inv pd b(2) get b(1) h] by simp
  moreover have "silent ?c4 i" using s(3) by (simp add: silent_def requests_of_Nil)
  ultimately have "jraid5d_loop ?c4 [] \<noteq> Some y" for y
    using jraid5d_loop_diverges [of ?c4 "[]" y] hl by auto
  then have "jraid5d ?c4 = None" unfolding jraid5d_def by (cases "jraid5d_loop ?c4 []") auto
  moreover have "jraid5_make_request bi rw conf = Ret (Returned True ?c4 [])"
    using m get h s(1) by (simp add: jraid5_make_request_def Let_def)
  ultimately show ?thesis using hl th by (intro exI [of _ ?c4]) simp
qed

theorem degraded_request_hangs_daemon_witness:
  "\<exists>conf'. jraid5_make_request (bio_example 200) True (cache_example\<lparr>disks := replicate 27 zero_disk_info\<rparr>)
      = Ret (Returned True conf' []) \<and> jraid5d conf' = None"
proof -
  let ?c = "cache_example\<lparr>disks := replicate 27 zero_disk_info\<rparr>"
  have z: "stripe_hashtbl ?c = (\<lambda>_. None)" "\<not> hashed ?c i" for i
    by (simp_all add: cache_example_def conf_example_def zero_conf_def hashed_def zero_stripe_def)
  then have "hash_ok ?c" using hash_rep_zero [of ?c] by (auto simp: hash_ok_def)
  then have inv: "cache_inv (\<lambda>_. 0) ?c"
    using z by (simp add: cache_inv_defs stripes.unique_def)
      (simp add: cache_example_def conf_example_def zero_conf_def zero_stripe_def)
  have g: "geom_ok ?c (raid_disks ?c)"
    using cache_example_geom geom_ok_cong [of ?c cache_example] by simp
  have pd: "pd_ok ?c" using cache_example_pd by (simp add: pd_ok_def)
  have r: "raid_disks ?c = 4" by (simp add: cache_example_def conf_example_def)
  have m: "jraid5_compute_sector ?c (bi_sector (bio_example 200)) (raid_disks ?c) (raid_disks ?c - 1)
      = Some (72, 3, 2)"
    using g unfolding r by (rule compute_sector_eqI)
      (simp add: spec_place_def spec_dd_def spec_pd_def Let_def conf_example_def layout_of_def
        chunk_sectors_def algorithm_defs bio_example_def cache_example_def)
  have idle: "\<not> busy_stripe ?c (heap ?c 0)" using cache_example_idle by (simp add: busy_stripe_def)
  have free: "inactive_list ?c = [0]" by (simp add: cache_example_def)
  show ?thesis
    using degraded_request_hangs_daemon [OF inv pd g m _ _ free idle, of True] z(2)
    by (auto simp: zero_disk_info_def)
qed

end
