(* ===== verification/Array_Serves.thy ===== *)
theory Array_Serves
  imports Jmd_Assemble Raid5_Requests
begin

text \<open>
  From the block device to the member: what the first request of an array that \<open>add_store\<close> has put
  together does on its way through \<open>jmd_make_request\<close> (\<^verbatim>\<open>src/src/jmd.c\<close>) and \<open>jraid5_make_request\<close>
  (\<^verbatim>\<open>src/src/jraid5.c\<close>). No code of its own is defined here.
\<close>

section \<open>One request on an empty cache\<close>

lemma concat_only:
  "distinct ks \<Longrightarrow> d \<in> set ks \<Longrightarrow> (\<And>k. k \<in> set ks \<Longrightarrow> k \<noteq> d \<Longrightarrow> f k = []) \<Longrightarrow> concat (map f ks) = f d"
proof (induction ks)
  case (Cons k ks)
  show ?case
  proof (cases "k = d")
    case True
    then have "concat (map f ks) = []" using Cons.prems by auto
    then show ?thesis using True by simp
  qed (use Cons in auto)
qed simp

lemma want_chained:
  assumes "fresh_dev sct (dev (heap conf i) ! dd)" "dd < length (dev (heap conf i))"
  shows "want (dev (heap (add_to_stripe i bi dd rw conf) i) ! dd) = Some rw"
  using assms by (cases rw) (auto simp: add_to_stripe_def add_stripe_bio_def Let_def upd_dev_def want_def fresh_dev_def
      set_dev_flag_def bit_set_bit_iff R5_OVERWRITE_def R5_Wantwrite_def R5_Wantread_def)

lemma placed_everywhere:
  assumes ok: "places_ok n xs" "length xs = unat n" and k: "k < unat n"
  obtains x where "x \<in> set xs" "unat (pl_num x) = k"
proof -
  let ?f = "unat \<circ> pl_num"
  have "distinct (map ?f xs)" using ok(1) by (auto simp: places_ok_def distinct_map inj_on_def unat_inject)
  then have "card (set (map ?f xs)) = unat n" using distinct_card ok(2) by fastforce
  moreover have "set (map ?f xs) \<subseteq> {..<unat n}" using ok(1) by (auto simp: places_ok_def word_less_nat_alt)
  ultimately have "set (map ?f xs) = {..<unat n}" by (intro card_subset_eq) auto
  then have "k \<in> set (map ?f xs)" using k by simp
  then show thesis using that by auto
qed

definition serves :: "u32 \<Rightarrow> placed list \<Rightarrow> jraid5_conf \<Rightarrow> bool" where
  "serves n xs conf \<longleftrightarrow> places_ok n xs \<and> length xs = unat n \<and> 2 \<le> unat n \<and> filled n xs conf \<and> cache_inv (\<lambda>_. 0) conf \<and>
     live conf \<noteq> [] \<and> inactive_list conf = live conf \<and> new_conf conf \<and> chunk_size conf = 32768 \<and>
     algorithm conf = ALGORITHM_LEFT_ASYMMETRIC"

lemma serves_geom:
  assumes "serves n xs conf"
  shows "geom_ok conf (raid_disks conf)" "pd_ok conf" "raid_disks conf = n" "\<not> hashed conf i"
    "\<exists>i rest. inactive_list conf = i # rest \<and> \<not> busy_stripe conf (heap conf i)"
proof -
  note s = assms [unfolded serves_def]
  show n: "raid_disks conf = n" using s by (simp add: filled_def)
  have "unat n \<le> MD_SB_DISKS" using s by (simp add: places_ok_def)
  then have "nonneg n" by (simp add: nonneg_def MD_SB_DISKS_def)
  then show "geom_ok conf (raid_disks conf)" using s n
    by (simp add: geom_ok_def layout_ok_def layout_of_def nonneg_def)
  show "pd_ok conf" using s n by (auto simp: pd_ok_def new_conf_def blank_stripe_def)
  show "\<not> hashed conf i" using s cache_invD(4) [of "\<lambda>_. 0" conf]
    by (auto simp: hashed_def index_ok_def new_conf_def blank_stripe_def)
  obtain i rest where i: "live conf = i # rest" using s by (cases "live conf") auto
  then have "length (dev (heap conf i)) = unat (raid_disks conf)" using s cache_invD(5) by fastforce
  moreover have "blank_stripe (heap conf i)" using s i by (simp add: new_conf_def)
  ultimately have "\<not> busy_stripe conf (heap conf i)" by (auto simp: busy_stripe_def blank_stripe_def)
  then show "\<exists>i rest. inactive_list conf = i # rest \<and> \<not> busy_stripe conf (heap conf i)" using i s by auto
qed

lemma first_request:
  assumes ok: "serves n xs conf"
  shows "\<exists>conf' r x. jraid5_make_request bi rw conf = Ret (Returned True conf' [r]) \<and> x \<in> set xs \<and>
    rq_bdev (rq_bio r) = Some (pl_idx x) \<and> rq_rw (rq_bio r) = of_bool rw \<and> rq_size (rq_bio r) = of_nat STRIPE_SIZE \<and> rq_slot r = unat (pl_num x) \<and>
    spec_place conf (unat n) (unat (bi_sector bi)) =
      (unat (rq_sector (rq_bio r)), unat (pl_num x), snd (snd (spec_place conf (unat n) (unat (bi_sector bi)))))"
proof -
  note s = ok [unfolded serves_def] and g = serves_geom [OF ok]
  obtain ns dd pdx where m: "jraid5_compute_sector conf (bi_sector bi) (raid_disks conf)
      (raid_disks conf - 1) = Some (ns, dd, pdx)" using compute_sector_total [OF g(1)] by blast
  have b: "unat dd < unat n" "unat pdx < unat (raid_disks conf)"
    using compute_sector_bounds [OF g(1) m] g(3) by (simp_all add: word_less_nat_alt)
  have place: "spec_place conf (unat n) (unat (bi_sector bi)) = (unat ns, unat dd, unat pdx)"
    using compute_sector_place [OF g(1) m] g(3) by simp
  have no: "\<not> (\<exists>i. hashed conf i \<and> sector (heap conf i) = ns)" using g(4) by blast
  have inv: "cache_inv (\<lambda>_. 0) conf" using s by simp
  obtain i conf1 where get: "get_active_stripe conf ns pdx False = Ret (Got i, conf1)"
    and sect: "sector (heap conf1 i) = ns"
    and fresh: "\<forall>k < unat n. fresh_dev ns (dev (heap conf1 i) ! k)"
    using get_active_stripe_outcome [OF inv g(1), of ns pdx False, unfolded if_not_P [OF no]] g(3,5) by auto
  note take = get_active_take [OF inv get g(2) b(2)] and fr = get_active_frame [OF get]
  let ?refs = "(\<lambda>_. 0)(i := 0 + 1 :: nat)" and ?c2 = "add_to_stripe i bi (unat dd) rw conf1"
  have inv2: "cache_inv ?refs ?c2" "?refs i \<noteq> 0" "pd_ok ?c2"
    using take by (auto intro!: add_to_stripe_inv simp: pd_ok_def)
  have "i \<in> set (live conf1)" using cache_inv_held(1) [of ?refs conf1 i] take by simp
  then have len: "length (dev (heap conf1 i)) = unat n" using cache_invD(5) take fr g(3) by metis
  obtain conf3 rs where h: "handle_stripe i ?c2 = (conf3, rs)" by fastforce
  obtain x where x: "x \<in> set xs" "unat (pl_num x) = unat dd" using placed_everywhere [of n xs] s b(1) by metis
  have held: "di_jrdev (disks ?c2 ! unat dd) = Some (pl_idx x)" using s x fr by (auto simp: filled_def Let_def)
  have n2: "raid_disks ?c2 = n" "sector (heap ?c2 i) = ns" using fr g(3) sect by simp_all
  let ?r = "\<lparr>rq_stripe = i, rq_slot = unat dd, rq_bio = submitted_bio rw (pl_idx x) ns (req (dev (heap ?c2 i) ! unat dd))\<rparr>"
  have "rs = requests_of (disks ?c2) i (heap ?c2 i) (unat dd)"
    unfolding handle_stripe_held(2) [OF inv2 h]
  proof (rule concat_only)
    fix k assume "k \<in> set (rev [0..<unat (raid_disks ?c2)])" "k \<noteq> unat dd"
    then show "requests_of (disks ?c2) i (heap ?c2 i) k = []"
      using chained_on_fresh(2) [OF len fresh b(1)] n2 by (simp add: requests_of_Nil)
  qed (use b n2 in auto)
  also have "\<dots> = [?r]" using want_chained [of ns conf1 i "unat dd" bi rw] fresh b(1) len held n2
    by (simp add: requests_of_def)
  finally have "jraid5_make_request bi rw conf = Ret (Returned True (release_stripe i conf3) [?r])"
    using m get h by (simp add: jraid5_make_request_def Let_def)
  then show ?thesis using x place by (intro exI [of _ "release_stripe i conf3"] exI [of _ ?r] exI [of _ x]) (simp add: submitted_bio_def)
qed

text \<open>From there on the cache stays consistent, whatever requests, completions and runs of the daemon interleave.\<close>

lemma serves_sys_inv: "serves n xs conf \<Longrightarrow> sys_inv \<lparr>cfg = conf, holders = {#}, inflight = {#}\<rparr>"
  using serves_geom(1,2) [of n xs conf] by (simp add: sys_inv_def refs_of_empty serves_def)

lemma serves_stays_consistent:
  assumes "serves n xs conf" "rstep\<^sup>*\<^sup>* \<lparr>cfg = conf, holders = {#}, inflight = {#}\<rparr> t"
  shows "sys_inv t"
  by (rule rsteps_inv [OF assms(2) serves_sys_inv [OF assms(1)]])

section \<open>An assembled array\<close>

text \<open>The left-asymmetric layout with chunks of 64 sectors, in numbers.\<close>

lemma left_asymmetric_place:
  assumes "chunk_size conf = 32768" "algorithm conf = ALGORITHM_LEFT_ASYMMETRIC" "level conf = 5"
  shows "spec_place conf n r =
    (let row = r div 64 div (n - 1); par = n - 1 - row mod n; col = r div 64 mod (n - 1)
     in (row * 64 + r mod 64, if par \<le> col then col + 1 else col, par))"
  using assms by (simp add: spec_place_def spec_dd_def spec_pd_def layout_of_def chunk_sectors_def Let_def)

text \<open>
  C3 From the user's commands to the disks. The user puts an array of at least two devices together with the
  sysfs file \<open>add\<close>, no allocation fails and every device is large enough. Then the first bio that comes
  to the block device, a read or a write of any sector, is passed by \<open>jmd_make_request\<close> to
  \<open>jraid5_make_request\<close>, which submits exactly one request, for a page. It goes to the device the user gave the number that the left-asymmetric layout has for the sector, at
  the sector of the row, in the bio's direction; and the bio is ended at once.
\<close>

theorem assembled_array_serves:
  assumes new: "no_array s" and devs: "places_ok n (map placed_by cs)" "length cs = unat n" "2 \<le> length cs"
    and goes: "\<forall>c \<in> set cs. call_goes n c \<and> dev_big (as_env (last cs)) (pl_dev (placed_by c))"
    and env: "run_goes re" "mem_enough ops" "mem_ok ops pages objs"
  shows "\<exists>s' io' m' conf. add_all (jraid5_run re ops) cs s io m = Ret (s', io', m') \<and> md_private (md s') = Some conf \<and>
    (\<exists>conf' r c. c \<in> set cs \<and>
      jmd_make_request (Some (md s')) (\<lambda>d bi. jraid5_make_request bi rw (the (md_private d))) bi = Inr (Ret (Returned True conf' [r])) \<and>
      rq_bdev (rq_bio r) = ev_kmalloc (as_env c) \<and> rq_rw (rq_bio r) = of_bool rw \<and> rq_size (rq_bio r) = of_nat STRIPE_SIZE \<and>
      (let k = unat (bi_sector bi); row = k div 64 div (unat n - 1); par = unat n - 1 - row mod unat n; col = k div 64 mod (unat n - 1)
       in unat (rq_sector (rq_bio r)) = row * 64 + k mod 64 \<and>
          unat (aa_jrdev (as_args c)) = (if par \<le> col then col + 1 else col)))"
proof -
  let ?xs = "rev (map placed_by cs)"
  have cs: "cs \<noteq> []" using devs(3) by auto
  have "building n [] s" using new by (simp add: building_def)
  moreover have ok: "places_ok n ?xs" using devs(1) by (simp add: places_ok_def rev_map [symmetric])
  ultimately obtain s' io' m' conf where r: "add_all (jraid5_run re ops) cs s io m = Ret (s', io', m')"
    "md_pers (md s') = Some RAID5" "md_private (md s') = Some conf" "filled n ?xs conf" "cache_inv (\<lambda>_. 0) conf"
    "length (live conf) = NR_STRIPES" "inactive_list conf = live conf" "new_conf conf" "chunk_size conf = 32768"
    "algorithm conf = ALGORITHM_LEFT_ASYMMETRIC"
    using add_all_runs [of n "[]" s cs re ops pages objs io m] devs(2) cs goes env by auto
  have lev: "level conf = 5" using r(8) by (simp add: new_conf_def)
  have "serves n ?xs conf" using ok devs r by (auto simp: serves_def NR_STRIPES_def)
  then obtain conf' q x where q: "jraid5_make_request bi rw conf = Ret (Returned True conf' [q])" "x \<in> set ?xs"
    "rq_bdev (rq_bio q) = Some (pl_idx x)" "rq_rw (rq_bio q) = of_bool rw" "rq_size (rq_bio q) = of_nat STRIPE_SIZE"
    "fst (spec_place conf (unat n) (unat (bi_sector bi))) = unat (rq_sector (rq_bio q))"
    "fst (snd (spec_place conf (unat n) (unat (bi_sector bi)))) = unat (pl_num x)"
    using first_request [of n ?xs conf bi rw] by (metis fst_conv snd_conv)
  obtain c where c: "c \<in> set cs" "x = placed_by c" using q(2) by auto
  then have dev: "rq_bdev (rq_bio q) = ev_kmalloc (as_env c)" using goes q(3) by (auto simp: call_goes_def import_goes_def)
  have mk: "jmd_make_request (Some (md s')) (\<lambda>d bi. jraid5_make_request bi rw (the (md_private d))) bi =
    Inr (Ret (Returned True conf' [q]))" using r(2,3) q(1) by (simp add: jmd_make_request_def)
  have num: "pl_num x = aa_jrdev (as_args c)" using c(2) by simp
  have place: "let k = unat (bi_sector bi); row = k div 64 div (unat n - 1); par = unat n - 1 - row mod unat n; col = k div 64 mod (unat n - 1)
       in unat (rq_sector (rq_bio q)) = row * 64 + k mod 64 \<and>
          unat (aa_jrdev (as_args c)) = (if par \<le> col then col + 1 else col)"
    using q(6,7) unfolding left_asymmetric_place [OF r(9,10) lev] num Let_def fst_conv snd_conv by (intro conjI) (rule sym, assumption)+
  show ?thesis
    by (intro exI conjI, rule r(1), rule r(3), rule c(1), rule mk, rule dev, rule q(4), rule q(5), rule place)
qed

text \<open>Sector 200 is sector 8 of chunk 3, the second of row 1: member 2, which the user named first.\<close>

theorem assembled_array_serves_witness:
  "\<exists>s' io' m' conf' r. add_all (jraid5_run run_example mem_example) calls_example new_md io_start ([], []) = Ret (s', io', m') \<and>
     jmd_make_request (Some (md s')) (\<lambda>d bi. jraid5_make_request bi True (the (md_private d))) (bio_example 200) =
       Inr (Ret (Returned True conf' [r])) \<and> rq_bdev (rq_bio r) = Some 4 \<and> rq_sector (rq_bio r) = 72"
proof -
  note ok = calls_example_ok
  have ne: "length calls_example = unat (3 :: u32)" "2 \<le> length calls_example" using ok(3) by simp_all
  obtain s' io' m' conf' r c where r: "add_all (jraid5_run run_example mem_example) calls_example new_md io_start ([], []) = Ret (s', io', m')"
    "c \<in> set calls_example"
    "jmd_make_request (Some (md s')) (\<lambda>d bi. jraid5_make_request bi True (the (md_private d))) (bio_example 200) =
       Inr (Ret (Returned True conf' [r]))" "rq_bdev (rq_bio r) = ev_kmalloc (as_env c)"
    "unat (rq_sector (rq_bio r)) = 72" "unat (aa_jrdev (as_args c)) = 2"
    using assembled_array_serves [where rw = True and bi = "bio_example 200" and io = io_start and m = "([], [])",
      OF ok(1,2) ne ok(4-6) mem_example_ok]
    by (auto simp: Let_def bio_example_def)
  have "rq_sector (rq_bio r) = 72" using r(5) by (simp add: word_unat_eq_iff)
  moreover have "ev_kmalloc (as_env c) = Some 4" using r(2,6) by (auto simp: calls_example_def call_example_def)
  ultimately show ?thesis using r(1,3,4) by (intro exI conjI) simp_all
qed

end
