(* ===== verification/Jmd_Sync.thy ===== *)
theory Jmd_Sync
  imports Jmd_Run Raid5_Requests
begin

text \<open>
  Resynchronisation and the RAID-5 daemon's thread: \<open>jmd_do_sync\<close> of \<^verbatim>\<open>src/src/jmd.c\<close>, and
  \<open>jraid5d\<close> of \<^verbatim>\<open>src/src/jraid5.c\<close> with the writing of a dirty superblock.

  The personality's \<open>sync_request\<close> is a function pointer of the code and an argument here.
  \<open>jmd_do_sync\<close> reads two variables it never sets, \<open>serialize\<close> and \<open>window\<close>; what they hold is an
  argument, as are the answer of the semaphore and the readings of \<open>jiffies\<close>. The arrays \<open>mark\<close> and
  \<open>mark_cnt\<close> hold the first ten readings and zeros when they are used, once, right before the exit.
\<close>

section \<open>The code\<close>

record sync_vars =
  sv_down :: cint
  sv_serialize :: u32
  sv_window :: u32
  sv_jiffies :: "nat \<Rightarrow> u64"
  sv_hz :: u64

definition SYNC_MARKS :: nat where "SYNC_MARKS = 10"

text \<open>What the test on a signal leaves when it is commented out: the marks are stepped, and the
  function leaves with \<open>-EINTR\<close>.\<close>

definition sync_interrupted :: "sync_vars \<Rightarrow> jmd_state \<Rightarrow> jmd_state" where
  "sync_interrupted v s =
     upd_md (\<lambda>d. d\<lparr>curr_resync := 0\<rparr>)
       (if sv_jiffies v SYNC_MARKS \<ge> sv_jiffies v 0 + 3 * sv_hz v
        then upd_md (\<lambda>d. d\<lparr>resync_mark := sv_jiffies v 1, resync_mark_cnt := 0\<rparr>) s
        else s)"

type_synonym sync_request = "jmd_state \<Rightarrow> u64 \<Rightarrow> (cint \<times> jmd_state) outcome"

partial_function (option) sync_loop ::
    "sync_request \<Rightarrow> sync_vars \<Rightarrow> u32 \<Rightarrow> u32 \<Rightarrow> jmd_state \<Rightarrow> (cint \<times> jmd_state) outcome option" where
  "sync_loop request v max_blocks j s =
     (if \<not> j < max_blocks then Some (Ret (0, s))
      else case request s (ucast j) of
        Bug \<Rightarrow> Some Bug
      | Hang \<Rightarrow> Some Hang
      | Ret (blocks, s1) \<Rightarrow>
          if sint blocks < 0 then Some (Ret (blocks, s1))
          else
            let j1 = j + blocks;
                s2 = upd_md (\<lambda>d. d\<lparr>recovery_active := recovery_active d + sint blocks, curr_resync := ucast j1\<rparr>) s1
            in if sv_window v > j1 then sync_loop request v max_blocks j1 s2
               else Some (Ret (- 4, sync_interrupted v s2)))"

text \<open>
  \<open>jmd_do_sync\<close> up to the wait at \<open>out\<close>: \<open>Inr\<close> is a task that waits there with the result it will
  return, \<open>Inl\<close> one that never got the semaphore and has returned.
\<close>

definition jmd_do_sync :: "sync_request \<Rightarrow> sync_vars \<Rightarrow> jmd_state \<Rightarrow>
    (cint \<times> jmd_state + cint \<times> jmd_state) outcome" where
  "jmd_do_sync request v s =
     (if sv_down v \<noteq> 0 then Ret (Inl (sv_down v, upd_md (\<lambda>d. d\<lparr>curr_resync := 0\<rparr>) s))
      else if sv_serialize v \<noteq> 0 then Hang
      else case md_sb (md s) of
        None \<Rightarrow> Bug
      | Some sb \<Rightarrow>
          bind_outcome (of_option_hang (sync_loop request v (sb_size sb) 0
            (upd_md (\<lambda>d. d\<lparr>curr_resync := 1, recovery_active := 0\<rparr>) s))) (\<lambda>r.
          bind_outcome r (\<lambda>x. Ret (Inr x))))"

text \<open>The wait for the blocks in flight, and the end; \<open>None\<close> is a task that still waits.\<close>

definition sync_out :: "cint \<times> jmd_state \<Rightarrow> (cint \<times> jmd_state) option" where
  "sync_out = (\<lambda>(err, s).
     if recovery_active (md s) = 0 then Some (err, upd_md (\<lambda>d. d\<lparr>curr_resync := 0\<rparr>) s) else None)"

text \<open>The thread of \<open>jraid5d\<close>: a dirty superblock is written first, then the stripes are handled.\<close>

definition jraid5d_thread :: "env \<Rightarrow> mem_answers \<Rightarrow> jmd_state \<Rightarrow> sb_io \<Rightarrow> jraid5_conf \<Rightarrow>
    (jmd_state \<times> sb_io \<times> jraid5_conf \<times> request list) outcome" where
  "jraid5d_thread ev mem s io conf =
     bind_outcome (if sb_dirty (md s) then jmd_update_sb ev mem (upd_md (\<lambda>d. d\<lparr>sb_dirty := False\<rparr>) s, io)
                   else Ret (s, io)) (\<lambda>(s1, io1).
     bind_outcome (of_option_hang (jraid5d conf)) (\<lambda>r.
     bind_outcome r (\<lambda>(conf1, rs). Ret (s1, io1, conf1, rs))))"

section \<open>How the loop ends\<close>

text \<open>A personality that answers every request with the same number of blocks.\<close>

definition steady :: "sync_request \<Rightarrow> cint \<Rightarrow> bool" where
  "steady request n \<longleftrightarrow> n \<noteq> 0 \<and> nonneg n \<and>
     (\<forall>s j. \<exists>s1. request s j = Ret (n, s1) \<and> recovery_active (md s1) = recovery_active (md s))"

lemma sync_loop_steady:
  assumes st: "steady request n" and room: "c * unat n < 2 ^ 32" and c: "unat m \<le> c * unat n"
    and k: "unat j = k * unat n" "k \<le> c" "\<forall>i. k \<le> i \<and> i < c \<longrightarrow> i * unat n < unat m"
  shows "\<exists>e s' t. sync_loop request v m j s = Some (Ret (e, s')) \<and> k + t \<le> c \<and>
    recovery_active (md s') = recovery_active (md s) + int t * int (unat n) \<and>
    (if \<exists>i. k < i \<and> i \<le> c \<and> unat (sv_window v) \<le> i * unat n then e = - 4 \<and> 0 < t else e = 0 \<and> k + t = c)"
  using k
proof (induction "c - k" arbitrary: k j s)
  case 0
  then have "k = c" by simp
  then have "\<not> j < m" using c "0.prems"(1) by (simp add: word_less_nat_alt)
  then have "sync_loop request v m j s = Some (Ret (0, s))" by (simp add: sync_loop.simps)
  then show ?case using \<open>k = c\<close> by (intro exI [of _ 0] exI [of _ s]) auto
next
  case (Suc d)
  have kc: "k < c" using Suc.hyps(2) by simp
  then have jm: "j < m" using Suc.prems(1,3) by (simp add: word_less_nat_alt)
  obtain s1 where rq: "request s (ucast j) = Ret (n, s1)" "recovery_active (md s1) = recovery_active (md s)"
    using st unfolding steady_def by blast
  have nn: "nonneg n" using st by (simp add: steady_def)
  then have n: "\<not> sint n < 0" by (simp add: sint_nonneg)
  have mult: "Suc k * unat n \<le> c * unat n" using kc by (intro mult_le_mono1) simp
  have uj: "unat (j + n) = Suc k * unat n"
    using Suc.prems(1) mult room by (subst unat_add_lem [THEN iffD1]) auto
  define s2 where "s2 = upd_md (\<lambda>d. d\<lparr>recovery_active := recovery_active d + sint n, curr_resync := ucast (j + n)\<rparr>) s1"
  have ra: "recovery_active (md s2) = recovery_active (md s) + int (unat n)"
    using rq(2) sint_nonneg [OF nn] by (simp add: s2_def)
  have step: "sync_loop request v m j s = (if sv_window v > j + n then sync_loop request v m (j + n) s2
      else Some (Ret (- 4, sync_interrupted v s2)))"
    using jm rq(1) n by (subst sync_loop.simps) (simp add: Let_def s2_def)
  show ?case
  proof (cases "sv_window v > j + n")
    case False
    then have "unat (sv_window v) \<le> Suc k * unat n" using uj by (simp add: word_less_nat_alt not_less)
    then have P: "\<exists>i. k < i \<and> i \<le> c \<and> unat (sv_window v) \<le> i * unat n"
      using kc by (intro exI [of _ "Suc k"]) simp
    have "recovery_active (md (sync_interrupted v s2)) = recovery_active (md s2)"
      by (simp add: sync_interrupted_def)
    then have r: "recovery_active (md (sync_interrupted v s2)) = recovery_active (md s) + int 1 * int (unat n)"
      unfolding ra by simp
    have l: "sync_loop request v m j s = Some (Ret (- 4, sync_interrupted v s2))" unfolding step if_not_P [OF False] by (rule refl)
    have k1: "k + 1 \<le> c" using kc by simp
    show ?thesis unfolding if_P [OF P]
      by (intro exI conjI, rule l, rule k1, rule r, rule refl, rule zero_less_one)
  next
    case True
    then have w: "\<not> unat (sv_window v) \<le> Suc k * unat n" using uj by (simp add: word_less_nat_alt)
    have "d = c - Suc k" using Suc.hyps(2) by simp
    moreover have "Suc k \<le> c" using kc by simp
    moreover have "\<forall>i. Suc k \<le> i \<and> i < c \<longrightarrow> i * unat n < unat m" using Suc.prems(3) by simp
    ultimately obtain e s' t where IH: "sync_loop request v m (j + n) s2 = Some (Ret (e, s'))" "Suc k + t \<le> c"
      "recovery_active (md s') = recovery_active (md s2) + int t * int (unat n)"
      "if \<exists>i. Suc k < i \<and> i \<le> c \<and> unat (sv_window v) \<le> i * unat n then e = - 4 \<and> 0 < t else e = 0 \<and> Suc k + t = c"
      using Suc.hyps(1) [OF _ uj, of s2] by blast
    have "(\<exists>i. k < i \<and> i \<le> c \<and> unat (sv_window v) \<le> i * unat n) \<longleftrightarrow>
        (\<exists>i. Suc k < i \<and> i \<le> c \<and> unat (sv_window v) \<le> i * unat n)"
      using w Suc_lessD Suc_lessI by blast
    then show ?thesis using IH step True ra
      by (intro exI [of _ e] exI [of _ s'] exI [of _ "Suc t"]) (auto simp: algebra_simps split: if_splits)
  qed
qed

text \<open>The completions of blocks, one after the other.\<close>

primrec done_all :: "int list \<Rightarrow> jmd_state \<Rightarrow> jmd_state outcome" where
  "done_all [] s = Ret s"
| "done_all (b # bs) s = bind_outcome (jmd_done_sync b True s) (done_all bs)"

lemma done_all_active:
  "\<exists>s'. done_all bs s = Ret s' \<and> recovery_active (md s') = recovery_active (md s) - sum_list bs"
proof (induction bs arbitrary: s)
  case (Cons b bs)
  let ?s = "upd_md (\<lambda>d. d\<lparr>recovery_active := recovery_active d - b\<rparr>) s"
  from Cons.IH [of ?s] show ?case by (auto simp: jmd_done_sync_def)
qed simp

lemma sync_passes:
  assumes st: "steady request n" and down: "sv_down v = 0" "sv_serialize v = 0"
    and sb: "md_sb (md s) = Some sb" and room: "unat (sb_size sb) + unat n \<le> 2 ^ 32"
    and c: "c = (unat (sb_size sb) + unat n - 1) div unat n"
  shows "\<exists>e s' t. jmd_do_sync request v s = Ret (Inr (e, s')) \<and> (e = 0 \<or> e = - 4) \<and>
    (e = 0 \<longleftrightarrow> sb_size sb = 0 \<or> c * unat n < unat (sv_window v)) \<and>
    (e = 0 \<longrightarrow> t = c) \<and> t \<le> c \<and> recovery_active (md s') = int t * int (unat n)"
proof -
  let ?m = "sb_size sb" and ?n = "unat n"
  let ?s = "upd_md (\<lambda>d. d\<lparr>curr_resync := 1, recovery_active := 0\<rparr>) s"
  have n: "0 < ?n" using st by (auto simp: steady_def unat_gt_0)
  have le: "c * ?n \<le> unat ?m + ?n - 1" unfolding c by (rule div_times_less_eq_dividend)
  then have "c * ?n < 2 ^ 32" using room n by linarith
  moreover have ge: "unat ?m \<le> c * ?n"
    using mod_less_divisor [OF n, of "unat ?m + ?n - 1"] div_mult_mod_eq [of "unat ?m + ?n - 1" ?n]
    unfolding c by linarith
  moreover have below: "i * ?n < unat ?m" if "i < c" for i
  proof -
    have "Suc i * ?n \<le> c * ?n" using that by (intro mult_le_mono1) simp
    then show ?thesis using le n by simp
  qed
  ultimately have L: "\<exists>e s' t. sync_loop request v ?m 0 ?s = Some (Ret (e, s')) \<and> 0 + t \<le> c \<and>
    recovery_active (md s') = recovery_active (md ?s) + int t * int ?n \<and>
    (if \<exists>i. 0 < i \<and> i \<le> c \<and> unat (sv_window v) \<le> i * ?n then e = - 4 \<and> 0 < t else e = 0 \<and> 0 + t = c)"
    by (intro sync_loop_steady [OF st]) auto
  have r0: "recovery_active (md ?s) = 0" by simp
  from L [unfolded add_0 r0] obtain e s' t where l: "sync_loop request v ?m 0 ?s = Some (Ret (e, s'))" "t \<le> c"
    "recovery_active (md s') = int t * int ?n"
    "if \<exists>i. 0 < i \<and> i \<le> c \<and> unat (sv_window v) \<le> i * ?n then e = - 4 \<and> 0 < t else e = 0 \<and> t = c"
    by (elim exE conjE) (rule that, assumption+)
  let ?P = "\<exists>i. 0 < i \<and> i \<le> c \<and> unat (sv_window v) \<le> i * ?n"
  have P: "?P \<longleftrightarrow> 0 < c \<and> unat (sv_window v) \<le> c * ?n"
  proof
    assume ?P
    then obtain i where "0 < i" "i \<le> c" "unat (sv_window v) \<le> i * ?n" by blast
    then show "0 < c \<and> unat (sv_window v) \<le> c * ?n" using mult_le_mono1 [of i c ?n] by linarith
  qed blast
  have c0: "c = 0 \<longleftrightarrow> ?m = 0" using ge below [of 0] by (cases "c = 0") (auto simp: unat_eq_zero)
  have "(e = 0 \<longleftrightarrow> ?m = 0 \<or> c * ?n < unat (sv_window v)) \<and> (e = 0 \<or> e = - 4) \<and> (e = 0 \<longrightarrow> t = c)"
  proof (cases ?P)
    case True
    then have "e = - 4" using l(4) by (simp only: if_True simp_thms)
    moreover have "?m \<noteq> 0" "\<not> c * ?n < unat (sv_window v)" using True unfolding P c0 [symmetric] by auto
    ultimately show ?thesis by simp
  next
    case False
    then have "e = 0" "t = c" using l(4) by (simp_all only: if_False simp_thms)
    moreover have "?m = 0 \<or> c * ?n < unat (sv_window v)" using False unfolding P c0 [symmetric] by auto
    ultimately show ?thesis by blast
  qed
  moreover have "jmd_do_sync request v s = Ret (Inr (e, s'))" using l(1) down sb by (simp add: jmd_do_sync_def)
  ultimately show ?thesis using l(2,3) by blast
qed

text \<open>
  C30 A resynchronisation, with a personality that takes \<open>n\<close> blocks per request. Once it has the
  semaphore (and \<open>serialize\<close> happens to be 0) it issues requests and then waits; its result is 0
  exactly when there is nothing to do or the uninitialised \<open>window\<close> lies beyond the last request,
  and \<open>-EINTR\<close> in all other cases, after at most as many requests as the device needs. The wait
  ends once completions have reported as many blocks as were issued, and not before.
\<close>

theorem jmd_do_sync_outcome:
  assumes "steady request n" "sv_down v = 0" "sv_serialize v = 0" "md_sb (md s) = Some sb"
    and "unat (sb_size sb) + unat n \<le> 2 ^ 32" "c = (unat (sb_size sb) + unat n - 1) div unat n"
  shows "\<exists>e s' t. jmd_do_sync request v s = Ret (Inr (e, s')) \<and> (e = 0 \<or> e = - 4) \<and>
    (e = 0 \<longleftrightarrow> sb_size sb = 0 \<or> c * unat n < unat (sv_window v)) \<and> (e = 0 \<longrightarrow> t = c) \<and> t \<le> c \<and>
    (\<forall>bs. \<exists>s''. done_all bs s' = Ret s'' \<and>
       (if sum_list bs = int t * int (unat n)
        then sync_out (e, s'') = Some (e, upd_md (\<lambda>d. d\<lparr>curr_resync := 0\<rparr>) s'')
        else sync_out (e, s'') = None))"
proof -
  obtain e s' t where p: "jmd_do_sync request v s = Ret (Inr (e, s'))" "e = 0 \<or> e = - 4"
    "e = 0 \<longleftrightarrow> sb_size sb = 0 \<or> c * unat n < unat (sv_window v)" "e = 0 \<longrightarrow> t = c" "t \<le> c"
    "recovery_active (md s') = int t * int (unat n)"
    using sync_passes [OF assms] by blast
  have "\<exists>s''. done_all bs s' = Ret s'' \<and>
     (if sum_list bs = int t * int (unat n)
      then sync_out (e, s'') = Some (e, upd_md (\<lambda>d. d\<lparr>curr_resync := 0\<rparr>) s'') else sync_out (e, s'') = None)" for bs
    using done_all_active [of bs s'] p(6) by (auto simp: sync_out_def)
  then show ?thesis using p(1-5) by blast
qed

definition sync_example :: "u32 \<Rightarrow> sync_vars" where
  "sync_example w = \<lparr>sv_down = 0, sv_serialize = 0, sv_window = w, sv_jiffies = (\<lambda>_. 0), sv_hz = 100\<rparr>"

theorem jmd_do_sync_outcome_witness:
  "\<exists>s'. jmd_do_sync (\<lambda>s j. Ret (4, s)) (sync_example 100)
     (upd_md (\<lambda>d. d\<lparr>md_sb := Some (zero_sb\<lparr>sb_size := 120\<rparr>)\<rparr>) md_example) = Ret (Inr (- 4, s'))"
proof -
  have "steady (\<lambda>s j. Ret (4, s)) 4" by (simp add: steady_def nonneg_def)
  moreover have "(30 :: nat) = (unat (sb_size (zero_sb\<lparr>sb_size := 120\<rparr>)) + unat (4 :: cint) - 1) div unat (4 :: cint)"
    "unat (sb_size (zero_sb\<lparr>sb_size := 120\<rparr>)) + unat (4 :: cint) \<le> 2 ^ 32" by simp_all
  moreover have "sv_down (sync_example 100) = 0" "sv_serialize (sync_example 100) = 0"
    "unat (sv_window (sync_example 100)) = 100" by (simp_all add: sync_example_def)
  moreover have "md_sb (md (upd_md (\<lambda>d. d\<lparr>md_sb := Some (zero_sb\<lparr>sb_size := 120\<rparr>)\<rparr>) md_example)) =
      Some (zero_sb\<lparr>sb_size := 120\<rparr>)" by simp
  ultimately obtain e s' where
    "jmd_do_sync (\<lambda>s j. Ret (4, s)) (sync_example 100)
      (upd_md (\<lambda>d. d\<lparr>md_sb := Some (zero_sb\<lparr>sb_size := 120\<rparr>)\<rparr>) md_example) = Ret (Inr (e, s'))"
    "e = 0 \<or> e = - 4" "e = 0 \<longleftrightarrow> sb_size (zero_sb\<lparr>sb_size := 120\<rparr>) = 0 \<or> 30 * unat (4 :: cint) < 100"
    using jmd_do_sync_outcome by metis
  then show ?thesis by auto
qed

section \<open>The requests of the personality\<close>

text \<open>
  \<open>jraid5_sync_request\<close>. The look-up of the stripe is commented out, so \<open>sh\<close> holds anything: here it is the
  stripe \<open>i\<close> it happens to point to, or \<open>None\<close> when it points nowhere; \<open>shsize\<close> is that stripe's size. The
  second result is what is put in \<open>sync_redone\<close>.
\<close>

definition sync_mark :: "cint \<Rightarrow> stripe_head \<Rightarrow> stripe_head" where
  "sync_mark pd sh = sh\<lparr>pd_idx := pd, sh_state := unset_bit STRIPE_INSYNC (set_bit STRIPE_SYNCING (sh_state sh))\<rparr>"

definition jraid5_sync_request :: "sid option \<Rightarrow> cint \<Rightarrow> u64 \<Rightarrow> jraid5_conf \<Rightarrow>
    (cint \<times> cint \<times> jraid5_conf \<times> request list) outcome" where
  "jraid5_sync_request sh shsize block_nr conf =
     (let spc = (scast (signed_drop_bit 9 (chunk_size conf)) :: u64); data_disks = raid_disks conf - 1 in
      if spc = 0 then Bug
      else
        let stripe = push_bit 1 block_nr div spc; chunk_offset = (ucast (push_bit 1 block_nr mod spc) :: u32)
        in case sh of
          None \<Rightarrow> Bug
        | Some i \<Rightarrow>
            let redone = (ucast (block_nr - drop_bit 1 (sector (heap conf i))) :: u32) in
            (case jraid5_compute_sector conf (stripe * scast data_disks * spc + scast chunk_offset) (raid_disks conf) data_disks of
               None \<Rightarrow> Bug
             | Some (_, _, pd) \<Rightarrow>
                 let (conf1, rs) = handle_stripe i (upd_stripe i (sync_mark pd) conf)
                 in Ret (signed_drop_bit 10 shsize - redone, redone, release_stripe i conf1, rs)))"

lemma submit_dev_count:
  "sh_count (fst (submit_dev ds i k x)) - int (length (snd (submit_dev ds i k x))) = sh_count (fst x) - int (length (snd x))"
  by (cases x) (auto simp: submit_dev_def Let_def split: option.splits)

lemma handle_stripe_count:
  assumes "handle_stripe i conf = (conf', rs)"
  shows "sh_count (heap conf' i) = sh_count (heap conf i) + int (length rs)"
proof -
  define sh2 where "sh2 = upd_dev (unat (pd_idx (for_down (unat (raid_disks conf)) (\<lambda>k. upd_dev k scan_dev) (heap conf i))))
    parity_flags (for_down (unat (raid_disks conf)) (\<lambda>k. upd_dev k scan_dev) (heap conf i))"
  have "sh_count (for_down n (\<lambda>k. upd_dev k scan_dev) sh) = sh_count sh" for n sh
    by (rule for_down_invariant [where P = "\<lambda>x. sh_count x = sh_count sh"]) simp_all
  then have sh2: "sh_count sh2 = sh_count (heap conf i)" by (simp add: sh2_def)
  obtain sh3 where sh3: "for_down (unat (raid_disks conf)) (submit_dev (disks conf) i) (sh2, []) = (sh3, rs)"
    "conf' = upd_stripe i (\<lambda>_. sh3) conf"
    using assms by (auto simp: handle_stripe_def Let_def sh2_def split: prod.splits)
  have "sh_count (fst (for_down n (submit_dev ds i) x)) - int (length (snd (for_down n (submit_dev ds i) x))) =
      sh_count (fst x) - int (length (snd x))" for n ds x
    by (rule for_down_invariant [where P = "\<lambda>y. sh_count (fst y) - int (length (snd y)) = sh_count (fst x) - int (length (snd x))"])
       (simp_all add: submit_dev_count)
  from this [of "unat (raid_disks conf)" "disks conf" "(sh2, [])"] sh3 sh2 show ?thesis by simp
qed

text \<open>
  A request for resynchronisation drops a reference to the stripe it never took one to: whatever
  stripe the pointer happens to hold ends with one reference less than its users and the
  submitted requests account for, and an idle one for which nothing was submitted falls below zero.
\<close>

lemma sync_request_drops_reference:
  assumes "jraid5_sync_request (Some i) shsize block_nr conf = Ret (r, redone, conf', rs)"
  shows "sh_count (heap conf' i) = sh_count (heap conf i) + int (length rs) - 1"
proof -
  obtain pd c where h: "handle_stripe i (upd_stripe i (sync_mark pd) conf) = (c, rs)" and conf': "conf' = release_stripe i c"
    using assms by (auto simp: jraid5_sync_request_def Let_def split: if_splits option.splits prod.splits)
  have "sh_count (heap (release_stripe i c) i) = sh_count (heap c i) - 1"
    by (simp add: release_stripe_def release_stripe_locked_def atomic_add_count_def Let_def)
  then show ?thesis unfolding conf' using handle_stripe_count [OF h] by (simp add: sync_mark_def)
qed

end
