(* ===== verification/Raid5_Resync.thy ===== *)
theory Raid5_Resync
  imports Jmd_Sync
begin

text \<open>
  The manager's resynchronisation with the only personality there is: \<open>jmd_do_sync\<close> of \<^verbatim>\<open>src/src/jmd.c\<close> calling
  \<open>jraid5_sync_request\<close> of \<^verbatim>\<open>src/src/jraid5.c\<close> through the pointer of the personality. The array that request works
  on is the one \<open>jraid5_run\<close> left in \<open>private\<close>.
\<close>

definition raid5_sync_request :: "sid option \<Rightarrow> cint \<Rightarrow> sync_request" where
  "raid5_sync_request sh shsize s block_nr =
     (case md_private (md s) of
        None \<Rightarrow> Bug
      | Some conf \<Rightarrow> bind_outcome (jraid5_sync_request sh shsize block_nr conf) (\<lambda>(blocks, redone, conf', rs).
          Ret (blocks, upd_md (\<lambda>d. d\<lparr>md_private := Some conf'\<rparr>) s)))"

section \<open>One request\<close>

text \<open>The geometry under which no address computation traps.\<close>

definition sync_geom :: "jraid5_conf \<Rightarrow> bool" where
  "sync_geom conf \<longleftrightarrow> (scast (signed_drop_bit 9 (chunk_size conf)) :: u64) \<noteq> 0 \<and> raid_disks conf \<noteq> 0 \<and> raid_disks conf \<noteq> 1 \<and>
     (level conf = 4 \<or> algorithm conf \<in> {ALGORITHM_LEFT_ASYMMETRIC, ALGORITHM_RIGHT_ASYMMETRIC,
        ALGORITHM_LEFT_SYMMETRIC, ALGORITHM_RIGHT_SYMMETRIC})"

lemma sync_place_total:
  "sync_geom conf \<Longrightarrow> \<exists>r. jraid5_compute_sector conf sct (raid_disks conf) (raid_disks conf - 1) = Some r"
  by (auto simp: sync_geom_def jraid5_compute_sector_def Let_def)

definition same_geom :: "jraid5_conf \<Rightarrow> jraid5_conf \<Rightarrow> bool" where
  "same_geom c d \<longleftrightarrow> chunk_size c = chunk_size d \<and> raid_disks c = raid_disks d \<and> level c = level d \<and> algorithm c = algorithm d"

lemma sync_geom_cong: "same_geom c d \<Longrightarrow> sync_geom c = sync_geom d"
  by (simp add: same_geom_def sync_geom_def)

lemma handle_stripe_frame:
  assumes "handle_stripe i conf = (conf', rs)"
  shows "same_geom conf' conf" "sector (heap conf' i) = sector (heap conf i)"
proof -
  have "sector (for_down n (\<lambda>k. upd_dev k scan_dev) sh) = sector sh" for n sh
    by (rule for_down_invariant [where P = "\<lambda>x. sector x = sector sh"]) simp_all
  moreover have "sector (fst (for_down n (submit_dev ds i) x)) = sector (fst x)" for n ds x
    by (rule for_down_invariant [where P = "\<lambda>y. sector (fst y) = sector (fst x)"])
       (auto simp: submit_dev_def Let_def split: option.splits prod.splits)
  ultimately show "sector (heap conf' i) = sector (heap conf i)" "same_geom conf' conf"
    using assms by (auto simp: handle_stripe_def Let_def same_geom_def split_def)
qed

text \<open>The answer to a request counts from the place of the stripe, not from the block asked for.\<close>

definition sync_target :: "cint \<Rightarrow> sid \<Rightarrow> jraid5_conf \<Rightarrow> u32" where
  "sync_target shsize i conf = signed_drop_bit 10 shsize + ucast (drop_bit 1 (sector (heap conf i)))"

lemma ucast_minus_u32: "(ucast (ucast (j :: u32) - (x :: u64)) :: u32) = j - ucast x"
  by (simp add: unsigned_ucast_eq word_uint_eq_iff uint_word_ariths take_bit_eq_mod mod_simps mod_mod_cancel)

lemma sync_request_answer:
  assumes "sync_geom conf"
  shows "\<exists>redone conf' rs. jraid5_sync_request (Some i) shsize (ucast j) conf = Ret (sync_target shsize i conf - j, redone, conf', rs) \<and>
    same_geom conf' conf \<and> sector (heap conf' i) = sector (heap conf i)"
proof -
  obtain r where r: "jraid5_compute_sector conf sct (raid_disks conf) (raid_disks conf - 1) = Some (r sct)" for sct
    using sync_place_total [OF assms] by metis
  have spc: "(scast (signed_drop_bit 9 (chunk_size conf)) :: u64) \<noteq> 0" using assms by (simp add: sync_geom_def)
  define pd where "pd = (\<lambda>sct. snd (snd (r sct)))"
  have rp: "\<exists>a b. r sct = (a, b, pd sct)" for sct by (metis pd_def prod.collapse)
  define x where "x = push_bit 1 (ucast j :: u64) div scast (signed_drop_bit 9 (chunk_size conf)) * scast (raid_disks conf - 1) *
      scast (signed_drop_bit 9 (chunk_size conf)) +
      scast (ucast (push_bit 1 (ucast j :: u64) mod scast (signed_drop_bit 9 (chunk_size conf))) :: u32)"
  obtain c rs where h: "handle_stripe i (upd_stripe i (sync_mark (pd x)) conf) = (c, rs)" by fastforce
  note f = handle_stripe_frame [OF h]
  obtain a b where ab: "r x = (a, b, pd x)" using rp by blast
  have "(ucast (ucast j - drop_bit 1 (sector (heap conf i)) :: u64) :: u32) = j - ucast (drop_bit 1 (sector (heap conf i)))"
    by (simp add: ucast_minus_u32)
  then have "jraid5_sync_request (Some i) shsize (ucast j) conf =
      Ret (sync_target shsize i conf - j, ucast (ucast j - drop_bit 1 (sector (heap conf i)) :: u64), release_stripe i c, rs)"
    using spc r [of x] ab h unfolding jraid5_sync_request_def Let_def x_def [symmetric]
    by (simp add: sync_target_def)
  then show ?thesis using f by (simp add: same_geom_def sync_mark_def)
qed

text \<open>What the loop keeps of the array.\<close>

definition sync_inv :: "cint \<Rightarrow> sid \<Rightarrow> u32 \<Rightarrow> jmd_state \<Rightarrow> bool" where
  "sync_inv shsize i J s \<longleftrightarrow> (\<exists>conf. md_private (md s) = Some conf \<and> sync_geom conf \<and> sync_target shsize i conf = J)"

lemma raid5_request_step:
  assumes "sync_inv shsize i J s"
  shows "\<exists>s1. raid5_sync_request (Some i) shsize s (ucast j) = Ret (J - j, s1) \<and> sync_inv shsize i J s1 \<and>
    recovery_active (md s1) = recovery_active (md s)"
proof -
  obtain conf where c: "md_private (md s) = Some conf" "sync_geom conf" "sync_target shsize i conf = J"
    using assms unfolding sync_inv_def by blast
  obtain redone conf' rs where r: "jraid5_sync_request (Some i) shsize (ucast j) conf = Ret (J - j, redone, conf', rs)"
    "same_geom conf' conf" "sector (heap conf' i) = sector (heap conf i)"
    using sync_request_answer [OF c(2)] c(3) by blast
  have "sync_inv shsize i J (upd_md (\<lambda>d. d\<lparr>md_private := Some conf'\<rparr>) s)"
    using sync_geom_cong [OF r(2)] c(2,3) r(3) by (simp add: sync_inv_def sync_target_def)
  then show ?thesis using c(1) r(1) by (simp add: raid5_sync_request_def)
qed

lemma sync_inv_upd [simp]:
  "sync_inv shsize i J (upd_md (\<lambda>d. d\<lparr>recovery_active := f d, curr_resync := g d\<rparr>) s) = sync_inv shsize i J s"
  by (simp add: sync_inv_def)

section \<open>The loop\<close>

text \<open>Once it is there, the loop asks for the same place for ever.\<close>

lemma resync_stuck_aux:
  assumes "sync_loop request v m j s = Some y"
  shows "\<not> (request = raid5_sync_request (Some i) shsize \<and> j = J \<and> J < m \<and> J < sv_window v \<and> sync_inv shsize i J s)"
proof (rule sync_loop.raw_induct [OF _ assms])
  fix loop request v m j s y
  assume IH: "\<And>request v m j s y. loop request v m j s = Some y \<Longrightarrow>
      \<not> (request = raid5_sync_request (Some i) shsize \<and> j = J \<and> J < m \<and> J < sv_window v \<and> sync_inv shsize i J s)"
    and body: "(if \<not> j < m then Some (Ret (0, s))
      else case request s (ucast j) of
        Ret (blocks, s1) \<Rightarrow>
          if sint blocks < 0 then Some (Ret (blocks, s1))
          else
            let j1 = j + blocks;
                s2 = upd_md (\<lambda>d. d\<lparr>recovery_active := recovery_active d + sint blocks, curr_resync := ucast j1\<rparr>) s1
            in if j1 < sv_window v then loop request v m j1 s2
               else Some (Ret (- 4, sync_interrupted v s2))
      | Bug \<Rightarrow> Some Bug
      | Hang \<Rightarrow> Some Hang) = Some y"
  show "\<not> (request = raid5_sync_request (Some i) shsize \<and> j = J \<and> J < m \<and> J < sv_window v \<and> sync_inv shsize i J s)"
  proof (rule notI, elim conjE)
    assume a: "request = raid5_sync_request (Some i) shsize" "j = J" "J < m" "J < sv_window v" "sync_inv shsize i J s"
    obtain s1 where s1: "request s (ucast j) = Ret (0, s1)" "sync_inv shsize i J s1"
      using raid5_request_step [OF a(5), of J] a(1,2) by auto
    have "loop request v m j (upd_md (\<lambda>d. d\<lparr>recovery_active := recovery_active d + 0, curr_resync := ucast j\<rparr>) s1) = Some y"
      using body a(2-4) s1(1) by (simp add: Let_def)
    note no = IH [OF this]
    have "sync_inv shsize i J (upd_md (\<lambda>d. d\<lparr>recovery_active := recovery_active d + 0, curr_resync := ucast j\<rparr>) s1)"
      using s1(2) by (simp only: sync_inv_upd)
    then show False using no a(1-4) by blast
  qed
qed

lemma resync_stuck:
  assumes "J < m" "J < sv_window v" "sync_inv shsize i J s"
  shows "sync_loop (raid5_sync_request (Some i) shsize) v m J s = None"
  using resync_stuck_aux [of "raid5_sync_request (Some i) shsize" v m J s _ i shsize J] assms
  by (cases "sync_loop (raid5_sync_request (Some i) shsize) v m J s") auto

text \<open>The first request takes the loop to its target, whatever the size of the array.\<close>

lemma resync_first:
  assumes "sync_inv shsize i J s" "0 < m"
  shows "\<exists>s1. sync_loop (raid5_sync_request (Some i) shsize) v m 0 s =
      (if sint J < 0 then Some (Ret (J, s1))
       else if \<not> sv_window v > J then Some (Ret (- 4, sync_interrupted v s1))
       else if J < m then None else Some (Ret (0, s1))) \<and>
    recovery_active (md s1) = recovery_active (md s) + (if sint J < 0 then 0 else sint J)"
proof -
  obtain s1 where s1: "raid5_sync_request (Some i) shsize s (ucast (0 :: u32)) = Ret (J, s1)" "sync_inv shsize i J s1"
    "recovery_active (md s1) = recovery_active (md s)"
    using raid5_request_step [OF assms(1), of 0] by auto
  define s2 where "s2 = upd_md (\<lambda>d. d\<lparr>recovery_active := recovery_active d + sint J, curr_resync := ucast J\<rparr>) s1"
  have l: "sync_loop (raid5_sync_request (Some i) shsize) v m 0 s =
      (if sint J < 0 then Some (Ret (J, s1))
       else if sv_window v > J then sync_loop (raid5_sync_request (Some i) shsize) v m J s2
       else Some (Ret (- 4, sync_interrupted v s2)))"
    using assms(2) s1(1) by (subst sync_loop.simps) (simp add: Let_def s2_def)
  have inv: "sync_inv shsize i J s2" using s1(2) by (simp add: s2_def)
  have ra: "recovery_active (md s2) = recovery_active (md s) + sint J" using s1(3) by (simp add: s2_def)
  show ?thesis
  proof (cases "sint J < 0")
    case True
    then show ?thesis using l s1(3) by auto
  next
    case False
    have "sync_loop (raid5_sync_request (Some i) shsize) v m J s2 = (if J < m then None else Some (Ret (0, s2)))" if "J < sv_window v"
      using resync_stuck [OF _ that inv] by (cases "J < m") (simp_all add: sync_loop.simps)
    then show ?thesis using l False ra by (intro exI [of _ s2]) auto
  qed
qed

section \<open>A resynchronisation of RAID-5\<close>


definition resync_example :: jmd_state where
  "resync_example = upd_md (\<lambda>d. d\<lparr>md_sb := Some (zero_sb\<lparr>sb_size := 1000\<rparr>),
     md_private := Some (zero_conf\<lparr>chunk_size := 32768, raid_disks := 4, level := 5, algorithm := ALGORITHM_LEFT_SYMMETRIC\<rparr>)\<rparr>) md_example"


end
