(* ===== verification/Jmd_Mem.thy ===== *)
theory Jmd_Mem
  imports Prelude "HOL-Library.Signed_Division"
begin

text \<open>
  The cache of I/O blocks, \<^verbatim>\<open>src/src/jmd_mem.c\<close> and \<^verbatim>\<open>src/src/jmd_mem.h\<close>: \<open>jmd_cache_mem_init\<close>,
  \<open>jmd_cache_mem_exit\<close>, the test of the memory manager, the state bits of a block, and the lock of a
  block as a step relation over the tasks that take it.

  A block is known by the round of the loop that allocated it; \<open>live\<close> are the blocks that are
  allocated, each with its page. The thread is in \<open>Jmd_Mem_Thread\<close>. Both lists of the source are lists of blocks. The answers of
  the allocators and of \<open>kthread_run\<close> are arguments.
\<close>

unbundle bit_operations_syntax

section \<open>The state bits of a block\<close>

datatype blk_state = CACHE_locked | CACHE_dirty | CACHE_uptodate | CACHE_writeerror | CACHE_error
  | CACHE_readerror | CACHE_readahead | CACHE_mappedtodisk | CACHE_reading | CACHE_release

primrec blk_bit :: "blk_state \<Rightarrow> nat" where
  "blk_bit CACHE_locked = 0"
| "blk_bit CACHE_dirty = 1"
| "blk_bit CACHE_uptodate = 2"
| "blk_bit CACHE_writeerror = 3"
| "blk_bit CACHE_error = 4"
| "blk_bit CACHE_readerror = 5"
| "blk_bit CACHE_readahead = 6"
| "blk_bit CACHE_mappedtodisk = 7"
| "blk_bit CACHE_reading = 8"
| "blk_bit CACHE_release = 9"

text \<open>
  The macros. Those named after \<open>CACHE_writeback\<close>, \<open>CACHE_mirror\<close>, \<open>CACHE_private\<close>, \<open>CACHE_remoteread\<close>,
  \<open>CACHE_sending\<close> and \<open>CACHE_recving\<close> (\<open>SetBlkWriteError\<close> is one of them) name states that do not exist.
\<close>

definition is_blk :: "blk_state \<Rightarrow> u64 \<Rightarrow> bool" where
  "is_blk st flag = bit flag (blk_bit st)"

definition SetBlk :: "blk_state \<Rightarrow> u64 \<Rightarrow> u64" where
  "SetBlk st flag = set_bit (blk_bit st) flag"

definition ClearBlk :: "blk_state \<Rightarrow> u64 \<Rightarrow> u64" where
  "ClearBlk st flag = unset_bit (blk_bit st) flag"

definition TestSetBlk :: "blk_state \<Rightarrow> u64 \<Rightarrow> bool \<times> u64" where
  "TestSetBlk st flag = (is_blk st flag, SetBlk st flag)"

definition TestClearBlk :: "blk_state \<Rightarrow> u64 \<Rightarrow> bool \<times> u64" where
  "TestClearBlk st flag = (is_blk st flag, ClearBlk st flag)"

lemma blk_bit_inject [simp]: "blk_bit st = blk_bit st' \<longleftrightarrow> st = st'"
  by (cases st; cases st') simp_all

lemma blk_bit_less [simp]: "blk_bit st < 64"
  by (cases st) simp_all

text \<open>A macro changes the state it names and no other.\<close>

lemma is_SetBlk [simp]: "is_blk st (SetBlk st' flag) \<longleftrightarrow> st = st' \<or> is_blk st flag"
  by (auto simp: is_blk_def SetBlk_def bit_flags)

lemma is_ClearBlk [simp]: "is_blk st (ClearBlk st' flag) \<longleftrightarrow> st \<noteq> st' \<and> is_blk st flag"
  by (auto simp: is_blk_def ClearBlk_def bit_flags)

section \<open>The lock of a block\<close>

definition trylock_blk :: "u64 \<Rightarrow> bool \<times> u64" where
  "trylock_blk flag = (let (old, flag1) = TestSetBlk CACHE_locked flag in (\<not> old, flag1))"

text \<open>
  A task is outside, asleep in \<open>__lock_blk\<close>, or has the lock. \<open>lock\<close> is the call of \<open>lock_blk\<close>,
  \<open>try_fail\<close> a \<open>trylock_blk\<close> that did not get it, \<open>retry\<close> the test a waiting task makes when it is
  woken; \<open>other\<close> is any macro on another state.
\<close>

datatype lock_pc = Outside | Waiting | Holding

record lock_sys =
  ls_flag :: u64
  ls_pc :: "nat \<Rightarrow> lock_pc"

definition lock_blk :: "nat \<Rightarrow> lock_sys \<Rightarrow> lock_sys" where
  "lock_blk t s = (let (got, flag) = trylock_blk (ls_flag s)
     in s\<lparr>ls_flag := flag, ls_pc := (ls_pc s)(t := if got then Holding else Waiting)\<rparr>)"

definition unlock_blk :: "nat \<Rightarrow> lock_sys \<Rightarrow> lock_sys" where
  "unlock_blk t s = s\<lparr>ls_flag := ClearBlk CACHE_locked (ls_flag s), ls_pc := (ls_pc s)(t := Outside)\<rparr>"

inductive lock_step :: "lock_sys \<Rightarrow> lock_sys \<Rightarrow> bool" where
  lock: "ls_pc s t = Outside \<Longrightarrow> lock_step s (lock_blk t s)"
| try_lock: "ls_pc s t = Outside \<Longrightarrow> trylock_blk (ls_flag s) = (True, flag) \<Longrightarrow>
    lock_step s (s\<lparr>ls_flag := flag, ls_pc := (ls_pc s)(t := Holding)\<rparr>)"
| try_fail: "ls_pc s t = Outside \<Longrightarrow> trylock_blk (ls_flag s) = (False, flag) \<Longrightarrow> lock_step s (s\<lparr>ls_flag := flag\<rparr>)"
| retry: "ls_pc s t = Waiting \<Longrightarrow> lock_step s (lock_blk t s)"
| unlock: "ls_pc s t = Holding \<Longrightarrow> lock_step s (unlock_blk t s)"
| other_set: "st \<noteq> CACHE_locked \<Longrightarrow> lock_step s (s\<lparr>ls_flag := SetBlk st (ls_flag s)\<rparr>)"
| other_clear: "st \<noteq> CACHE_locked \<Longrightarrow> lock_step s (s\<lparr>ls_flag := ClearBlk st (ls_flag s)\<rparr>)"

inductive_cases lock_stepE: "lock_step s s'"

inductive lock_reach :: "lock_sys \<Rightarrow> bool" where
  init: "lock_reach \<lparr>ls_flag = 0, ls_pc = (\<lambda>_. Outside)\<rparr>"
| step: "lock_reach s \<Longrightarrow> lock_step s s' \<Longrightarrow> lock_reach s'"

definition lock_inv :: "lock_sys \<Rightarrow> bool" where
  "lock_inv s \<longleftrightarrow> (\<forall>t u. ls_pc s t = Holding \<longrightarrow> ls_pc s u = Holding \<longrightarrow> t = u) \<and>
     (is_blk CACHE_locked (ls_flag s) \<longleftrightarrow> (\<exists>t. ls_pc s t = Holding))"

lemma trylock_blk_eq: "trylock_blk flag = (\<not> is_blk CACHE_locked flag, SetBlk CACHE_locked flag)"
  by (simp add: trylock_blk_def TestSetBlk_def)

lemma lock_inv_lock: "lock_inv s \<Longrightarrow> ls_pc s t \<noteq> Holding \<Longrightarrow> lock_inv (lock_blk t s)"
  by (auto simp: lock_inv_def lock_blk_def trylock_blk_eq)

lemma lock_inv_unlock: "lock_inv s \<Longrightarrow> ls_pc s t = Holding \<Longrightarrow> lock_inv (unlock_blk t s)"
  by (auto simp: lock_inv_def unlock_blk_def)

lemma lock_inv_step: "lock_step s s' \<Longrightarrow> lock_inv s \<Longrightarrow> lock_inv s'"
proof (induction rule: lock_step.induct)
  case (try_lock s t flag)
  then have "s\<lparr>ls_flag := flag, ls_pc := (ls_pc s)(t := Holding)\<rparr> = lock_blk t s"
    by (simp add: lock_blk_def)
  then show ?case using lock_inv_lock try_lock by simp
next
  case (try_fail s t flag)
  then show ?case by (auto simp: lock_inv_def trylock_blk_eq)
qed (auto simp: lock_inv_lock lock_inv_unlock, auto simp: lock_inv_def)

lemma lock_reach_inv: "lock_reach s \<Longrightarrow> lock_inv s"
proof (induction rule: lock_reach.induct)
  case init
  show ?case by (simp add: lock_inv_def is_blk_def)
qed (rule lock_inv_step)

text \<open>
  The lock of a block excludes: in every interleaving of tasks that take, try, wait for and release
  it, while other states are set and cleared, at most one task holds it, the bit is set exactly while a
  task does, and once the holder has released it a waiting task that is woken gets it.
\<close>

lemma block_lock_excludes:
  assumes "lock_reach s"
  shows "(\<forall>t u. ls_pc s t = Holding \<and> ls_pc s u = Holding \<longrightarrow> t = u) \<and>
    (is_blk CACHE_locked (ls_flag s) \<longleftrightarrow> (\<exists>t. ls_pc s t = Holding)) \<and>
    (\<forall>t u. ls_pc s t = Holding \<and> ls_pc s u = Waiting \<longrightarrow> ls_pc (lock_blk u (unlock_blk t s)) u = Holding)"
  using lock_reach_inv [OF assms] by (auto simp: lock_inv_def lock_blk_def unlock_blk_def trylock_blk_eq)

section \<open>The memory manager\<close>

definition release_start_line :: cint where "release_start_line = 0"
definition cache_ratio :: cint where "cache_ratio = 1"

text \<open>\<open>need_release\<close> on the counters \<open>free_blks\<close> and \<open>total_blks\<close>; \<open>None\<close> is a division by zero.\<close>

definition need_release :: "cint \<Rightarrow> cint \<Rightarrow> bool option" where
  "need_release free tot =
     (if tot = 0 then None else Some (sint (100 * free) sdiv sint tot < sint release_start_line))"

text \<open>
  Nothing sets \<open>release_start_line\<close>, so the manager is not asked to release a block while at most
  21474836 blocks (80 GiB) are free.
\<close>

lemma need_release_never:
  assumes "unat free \<le> 21474836" "tot \<noteq> 0" "nonneg tot"
  shows "need_release free tot = Some False"
proof -
  have u: "unat (100 * free) = 100 * unat free"
    using assms(1) by (subst unat_mult_no_wrap) simp_all
  have "nonneg (100 * free)" unfolding nonneg_def u using assms(1) by simp
  then have "sint (100 * free) \<ge> 0" "sint tot \<ge> 0" using sint_nonneg assms(3) by (metis of_nat_0_le_iff)+
  then have "0 \<le> sint (100 * free) sdiv sint tot"
    by (simp add: signed_divide_int_def sgn_if pos_imp_zdiv_nonneg_iff)
  then show ?thesis using assms(2) by (simp add: need_release_def release_start_line_def not_less)
qed

section \<open>Making and destroying the cache\<close>

datatype cache_ptr = Cache_null | Cache_live | Cache_destroyed

datatype task_ptr = Task_null | Task_run | Task_err

record blk_mem =
  cache_blk :: cache_ptr
  live :: "nat set"
  cache_list_cold :: "nat list"
  cache_list_hot :: "nat list"
  total_blks :: cint
  free_blks :: cint
  memory_management_tsk :: task_ptr

record mem_env =
  me_cache :: bool
  me_nodes :: "u64 list"
  me_blk :: "nat \<Rightarrow> bool"
  me_page :: "nat \<Rightarrow> bool"
  me_task :: bool

definition mem_start :: blk_mem where
  "mem_start = \<lparr>cache_blk = Cache_null, live = {}, cache_list_cold = [], cache_list_hot = [], total_blks = 0, free_blks = 0,
     memory_management_tsk = Task_null\<rparr>"

definition calc_total_pages :: "u64 list \<Rightarrow> u64" where
  "calc_total_pages nodes = foldl (+) 0 nodes"

definition cache_pages :: "u64 list \<Rightarrow> nat" where
  "cache_pages nodes = unat (calc_total_pages nodes * scast cache_ratio div 100)"

primrec fill_cache :: "mem_env \<Rightarrow> nat list \<Rightarrow> blk_mem \<Rightarrow> bool \<times> blk_mem" where
  "fill_cache me [] m = (True, m)"
| "fill_cache me (i # is) m =
     (if \<not> me_blk me i \<or> \<not> me_page me i then (False, m)
      else fill_cache me is (m\<lparr>live := insert i (live m), cache_list_cold := i # cache_list_cold m,
             total_blks := total_blks m + 1, free_blks := free_blks m + 1\<rparr>))"

text \<open>Freeing a block that is not allocated is a trap; so is destroying a cache twice.\<close>

primrec free_blocks :: "nat list \<Rightarrow> blk_mem \<Rightarrow> blk_mem outcome" where
  "free_blocks [] m = Ret m"
| "free_blocks (i # is) m = (if i \<notin> live m then Bug else free_blocks is (m\<lparr>live := live m - {i}\<rparr>))"

definition destroy_cache :: "blk_mem \<Rightarrow> blk_mem outcome" where
  "destroy_cache m = (if cache_blk m = Cache_live then Ret (m\<lparr>cache_blk := Cache_destroyed\<rparr>) else Bug)"

definition mem_unwind :: "blk_mem \<Rightarrow> blk_mem outcome" where
  "mem_unwind m =
     bind_outcome (free_blocks (cache_list_cold m) (m\<lparr>cache_list_cold := [],
         total_blks := total_blks m - of_nat (length (cache_list_cold m)),
         free_blks := free_blks m - of_nat (length (cache_list_cold m))\<rparr>)) destroy_cache"

text \<open>The result of a failure is the error code, or \<open>None\<close> where the code returns a variable it never set.\<close>

definition jmd_cache_mem_init :: "mem_env \<Rightarrow> blk_mem \<Rightarrow> ((unit + errno option) \<times> blk_mem) outcome" where
  "jmd_cache_mem_init me m =
     (if \<not> me_cache me then Ret (Inr (Some ENOMEM), m\<lparr>cache_blk := Cache_null\<rparr>)
      else
        let (ok, m1) = fill_cache me [0..<cache_pages (me_nodes me)]
              (m\<lparr>cache_blk := Cache_live, total_blks := 0, free_blks := 0\<rparr>)
        in if \<not> ok then bind_outcome (mem_unwind m1) (\<lambda>m2. Ret (Inr (Some ENOMEM), m2))
           else if \<not> me_task me
           then bind_outcome (mem_unwind (m1\<lparr>memory_management_tsk := Task_err\<rparr>)) (\<lambda>m2. Ret (Inr None, m2))
           else Ret (Inl (), m1\<lparr>memory_management_tsk := Task_run\<rparr>))"

text \<open>Neither \<open>cache_blk\<close> nor \<open>memory_management_tsk\<close> is reset; stopping an error pointer is a trap.\<close>

definition jmd_cache_mem_exit :: "blk_mem \<Rightarrow> blk_mem outcome" where
  "jmd_cache_mem_exit m =
     (if cache_blk m = Cache_null then Ret m
      else if memory_management_tsk m = Task_err then Bug
      else bind_outcome (free_blocks (cache_list_cold m) (m\<lparr>cache_list_cold := []\<rparr>))
             (\<lambda>m1. bind_outcome (free_blocks (cache_list_hot m1) (m1\<lparr>cache_list_hot := []\<rparr>)) destroy_cache))"

lemma fill_cache_ok:
  assumes "fill_cache me is m = (ok, m')" "distinct is" "set is \<inter> live m = {}"
  shows "\<exists>js. m' = m\<lparr>live := live m \<union> set js, cache_list_cold := rev js @ cache_list_cold m,
      total_blks := total_blks m + of_nat (length js), free_blks := free_blks m + of_nat (length js)\<rparr> \<and>
    distinct js \<and> set js \<inter> live m = {} \<and> (ok \<longleftrightarrow> js = is) \<and> (ok \<longleftrightarrow> (\<forall>i \<in> set is. me_blk me i \<and> me_page me i))"
  using assms
proof (induction "is" arbitrary: m)
  case Nil
  then show ?case by (intro exI [of _ "[]"]) simp
next
  case (Cons i "is")
  let ?m1 = "m\<lparr>live := insert i (live m), cache_list_cold := i # cache_list_cold m,
    total_blks := total_blks m + 1, free_blks := free_blks m + 1\<rparr>"
  show ?case
  proof (cases "me_blk me i \<and> me_page me i")
    case False
    then show ?thesis using Cons.prems by (intro exI [of _ "[]"]) auto
  next
    case True
    then obtain js where js: "m' = ?m1\<lparr>live := live ?m1 \<union> set js, cache_list_cold := rev js @ cache_list_cold ?m1,
        total_blks := total_blks ?m1 + of_nat (length js), free_blks := free_blks ?m1 + of_nat (length js)\<rparr>"
      "distinct js" "set js \<inter> live ?m1 = {}" "ok \<longleftrightarrow> js = is" "ok \<longleftrightarrow> (\<forall>i \<in> set is. me_blk me i \<and> me_page me i)"
      using Cons.IH [of ?m1] Cons.prems by auto
    then show ?thesis using True Cons.prems(3) by (intro exI [of _ "i # js"]) (auto simp: add.assoc)
  qed
qed

lemma free_blocks_ok:
  "distinct is \<Longrightarrow> set is \<subseteq> live m \<Longrightarrow> free_blocks is m = Ret (m\<lparr>live := live m - set is\<rparr>)"
proof (induction "is" arbitrary: m)
  case (Cons i "is")
  let ?m1 = "m\<lparr>live := live m - {i}\<rparr>"
  have "free_blocks is ?m1 = Ret (?m1\<lparr>live := live ?m1 - set is\<rparr>)"
    using Cons.prems by (intro Cons.IH) auto
  moreover have "live m - {i} - set is = live m - set (i # is)" by auto
  moreover have "i \<in> live m" using Cons.prems(2) by simp
  ultimately show ?case by (simp del: list.set)
qed simp

lemma cache_mem_init_cases:
  shows "\<exists>r m. jmd_cache_mem_init me mem_start = Ret (r, m) \<and>
    (r = Inl () \<longleftrightarrow> me_cache me \<and> (\<forall>i < cache_pages (me_nodes me). me_blk me i \<and> me_page me i) \<and> me_task me) \<and>
    (if r = Inl () then live m = {..<cache_pages (me_nodes me)} \<and> set (cache_list_cold m) = live m \<and>
        distinct (cache_list_cold m) \<and> total_blks m = of_nat (cache_pages (me_nodes me)) \<and> free_blks m = total_blks m \<and>
        (\<exists>m'. jmd_cache_mem_exit m = Ret m' \<and> live m' = {} \<and> cache_list_cold m' = [])
     else live m = {} \<and> cache_list_cold m = [] \<and> total_blks m = 0 \<and> free_blks m = 0 \<and>
        (r = Inr None \<longleftrightarrow> memory_management_tsk m = Task_err) \<and>
        jmd_cache_mem_exit m = (if me_cache me then Bug else Ret m))"
proof (cases "me_cache me")
  case False
  then show ?thesis by (simp add: jmd_cache_mem_init_def mem_start_def jmd_cache_mem_exit_def)
next
  case True
  let ?n = "cache_pages (me_nodes me)" and ?m0 = "mem_start\<lparr>cache_blk := Cache_live, total_blks := 0, free_blks := 0\<rparr>"
  obtain ok m1 where f: "fill_cache me [0..<?n] ?m0 = (ok, m1)" by fastforce
  have "\<exists>js. m1 = ?m0\<lparr>live := set js, cache_list_cold := rev js,
      total_blks := of_nat (length js), free_blks := of_nat (length js)\<rparr> \<and> distinct js \<and>
    (ok \<longleftrightarrow> js = [0..<?n]) \<and> (ok \<longleftrightarrow> (\<forall>i < ?n. me_blk me i \<and> me_page me i))"
    using fill_cache_ok [OF f] by (simp add: mem_start_def Ball_def)
  then obtain js where m1: "m1 = ?m0\<lparr>live := set js, cache_list_cold := rev js,
      total_blks := of_nat (length js), free_blks := of_nat (length js)\<rparr>" "distinct js"
    "ok \<longleftrightarrow> js = [0..<?n]" "ok \<longleftrightarrow> (\<forall>i < ?n. me_blk me i \<and> me_page me i)"
    by blast
  have un: "mem_unwind (m1\<lparr>memory_management_tsk := t\<rparr>) = Ret (m1\<lparr>memory_management_tsk := t, live := {}, cache_list_cold := [],
      total_blks := 0, free_blks := 0, cache_blk := Cache_destroyed\<rparr>)" for t
    using m1(2) by (simp add: mem_unwind_def free_blocks_ok m1(1) destroy_cache_def)
  have "mem_unwind m1 = mem_unwind (m1\<lparr>memory_management_tsk := Task_null\<rparr>)" by (simp add: m1(1) mem_start_def)
  note un0 = this [unfolded un]
  consider (failed) "\<not> ok" | (no_task) "ok" "\<not> me_task me" | (made) "ok" "me_task me" by blast
  then show ?thesis
  proof cases
    case failed
    then show ?thesis using True f un0 m1(4)
      by (simp add: jmd_cache_mem_init_def jmd_cache_mem_exit_def destroy_cache_def m1(1) mem_start_def)
  next
    case no_task
    then show ?thesis using True f un m1(4)
      by (simp add: jmd_cache_mem_init_def jmd_cache_mem_exit_def destroy_cache_def m1(1) mem_start_def)
  next
    case made
    then have js: "js = [0..<?n]" using m1(3) by simp
    show ?thesis using True f m1(4) made
      by (simp add: jmd_cache_mem_init_def jmd_cache_mem_exit_def destroy_cache_def m1(1) mem_start_def js free_blocks_ok
          atLeast_upt lessThan_atLeast0)
  qed
qed



end
