(* ===== verification/Jmd_Device.thy ===== *)
theory Jmd_Device
  imports Jmd_Rdev
begin

text \<open>
  What a member device holds of the kernel, \<^verbatim>\<open>src/src/jmd.c\<close>: \<open>alloc_disk_sb\<close>, \<open>free_disk_sb\<close>,
  \<open>lock_jrdev\<close>, \<open>unlock_jrdev\<close>, \<open>sync_page_io\<close>, \<open>read_disk_sb\<close>, and \<open>jmd_import_device\<close> composed of
  them. \<open>Jmd_Rdev\<close> has the same function with the answers of the kernel put in place of the calls; here
  the pointers of the new device and the pages, opened devices and devices in memory are tracked, and
  the detailed function is shown to implement the other one.
\<close>

section \<open>The code\<close>

text \<open>The pointers of one \<open>jmd_rdev\<close>: whether \<open>sb_page\<close>, \<open>sb\<close> and \<open>bdev\<close> are set, and \<open>sb_loaded\<close>.\<close>

record jrdev_ptrs =
  p_page :: bool
  p_sb :: bool
  p_bdev :: bool
  p_loaded :: bool

record kres =
  k_pages :: int
  k_bdevs :: int
  k_rdevs :: int

definition alloc_disk_sb :: "bool \<Rightarrow> jrdev_ptrs \<Rightarrow> kres \<Rightarrow> errno option \<times> jrdev_ptrs \<times> kres" where
  "alloc_disk_sb got p k =
     (if \<not> got then (Some ENOMEM, p\<lparr>p_page := False\<rparr>, k)
      else (None, p\<lparr>p_page := True\<rparr>, k\<lparr>k_pages := k_pages k + 1\<rparr>))"

definition free_disk_sb :: "jrdev_ptrs \<Rightarrow> kres \<Rightarrow> jrdev_ptrs \<times> kres" where
  "free_disk_sb p k =
     (if p_page p then (p\<lparr>p_sb := False, p_page := False\<rparr>, k\<lparr>k_pages := k_pages k - 1\<rparr>) else (p, k))"

definition lock_jrdev :: "bool \<Rightarrow> jrdev_ptrs \<Rightarrow> kres \<Rightarrow> bool \<times> jrdev_ptrs \<times> kres" where
  "lock_jrdev opens p k =
     (if \<not> opens then (False, p, k) else (True, p\<lparr>p_bdev := True\<rparr>, k\<lparr>k_bdevs := k_bdevs k + 1\<rparr>))"

text \<open>Putting a device that is not there is a null pointer for the kernel.\<close>

definition unlock_jrdev :: "jrdev_ptrs \<Rightarrow> kres \<Rightarrow> (jrdev_ptrs \<times> kres) outcome" where
  "unlock_jrdev p k =
     (if \<not> p_bdev p then Bug else Ret (p\<lparr>p_bdev := False\<rparr>, k\<lparr>k_bdevs := k_bdevs k - 1\<rparr>))"

text \<open>A read of one page; the bio is used without a test that there is one. \<open>None\<close>: the read failed.\<close>

definition sync_page_io :: "bool \<Rightarrow> jmd_superblock option \<Rightarrow> jmd_superblock option outcome" where
  "sync_page_io bio ans = (if \<not> bio then Bug else Ret ans)"

text \<open>The superblock in the page after the call, \<open>cur\<close> being the one before it.\<close>

definition read_disk_sb :: "bool \<Rightarrow> jmd_superblock option \<Rightarrow> jmd_superblock \<Rightarrow> jrdev_ptrs \<Rightarrow>
    (errno option \<times> jmd_superblock \<times> jrdev_ptrs) outcome" where
  "read_disk_sb bio ans cur p =
     (if \<not> p_page p then Ret (Some EINVAL, cur, p)
      else if p_loaded p then Ret (None, cur, p)
      else bind_outcome (sync_page_io bio ans) (\<lambda>r.
        case r of None \<Rightarrow> Ret (Some EINVAL, cur, p) | Some sb \<Rightarrow> Ret (None, sb, p\<lparr>p_loaded := True\<rparr>)))"

text \<open>The exit \<open>abort_free\<close>: the page is freed only if \<open>sb\<close> points to it already.\<close>

definition abort_free :: "errno \<Rightarrow> jrdev_ptrs \<Rightarrow> kres \<Rightarrow> jmd_state \<Rightarrow> (errno option \<times> jmd_state \<times> kres) outcome" where
  "abort_free e p k s =
     (if \<not> p_sb p then Ret (Some e, s, k\<lparr>k_rdevs := k_rdevs k - 1\<rparr>)
      else bind_outcome (if p_bdev p then unlock_jrdev p k else Ret (p, k)) (\<lambda>(p1, k1).
        let (_, k2) = free_disk_sb p1 k1 in Ret (Some e, s, k2\<lparr>k_rdevs := k_rdevs k2 - 1\<rparr>)))"

definition import_device_steps :: "env \<Rightarrow> bool \<Rightarrow> dev_t \<Rightarrow> bool \<Rightarrow> jmd_state \<Rightarrow> kres \<Rightarrow>
    (errno option \<times> jmd_state \<times> kres) outcome" where
  "import_device_steps ev bio newdev on_disk s k =
     (if find_jrdev_all s newdev \<noteq> None then Ret (Some EEXIST, s, k)
      else case ev_kmalloc ev of
        None \<Rightarrow> Ret (Some ENOMEM, s, k)
      | Some i \<Rightarrow>
          let k0 = k\<lparr>k_rdevs := k_rdevs k + 1\<rparr>; p0 = \<lparr>p_page = False, p_sb = False, p_bdev = False, p_loaded = False\<rparr> in
          if ev_super ev newdev then abort_free EBUSY p0 k0 s
          else case alloc_disk_sb (ev_page ev) p0 k0 of
            (Some e, p1, k1) \<Rightarrow> abort_free e p1 k1 s
          | (None, p1, k1) \<Rightarrow>
              (case lock_jrdev (ev_open ev newdev) p1 k1 of
                 (False, p2, k2) \<Rightarrow> abort_free EINVAL p2 k2 s
               | (True, p2, k2) \<Rightarrow>
                   let p3 = p2\<lparr>p_sb := p_page p2\<rparr>;
                       r = zero_rdev\<lparr>rd_opened := p_bdev p3, rd_dev := newdev, desc_nr := - 1, faulty := False,
                         rd_sb := Some (ev_junk ev)\<rparr>
                   in if \<not> on_disk
                      then Ret (None, s\<lparr>rd := (rd s)(i := r), all_jraid_disks := i # all_jraid_disks s\<rparr>, k2)
                      else bind_outcome (read_disk_sb bio (ev_read ev newdev) (ev_junk ev) p3) (\<lambda>(e, sb, p4).
                        case e of
                          Some e \<Rightarrow> abort_free e p4 k2 s
                        | None \<Rightarrow>
                            (case check_disk_sb (Some sb) of
                               Some e \<Rightarrow> abort_free e p4 k2 s
                             | None \<Rightarrow>
                                 Ret (None, s\<lparr>rd := (rd s)(i := r\<lparr>rd_sb := Some sb, sb_loaded := p_loaded p4,
                                     old_dev := dk_dev (this_disk sb), desc_nr := dk_number (this_disk sb)\<rparr>),
                                   all_jraid_disks := i # all_jraid_disks s\<rparr>, k2)))))"

section \<open>The import\<close>

text \<open>A device that was allocated, had its page and could not be opened: its page is lost.\<close>

definition lock_fails :: "env \<Rightarrow> dev_t \<Rightarrow> jmd_state \<Rightarrow> bool" where
  "lock_fails ev newdev s \<longleftrightarrow> find_jrdev_all s newdev = None \<and> ev_kmalloc ev \<noteq> None \<and> \<not> ev_super ev newdev \<and>
     ev_page ev \<and> \<not> ev_open ev newdev"

text \<open>
  C38 \<open>jmd_import_device\<close>, call by call, gives the result and the lists that the model with the answers
  of the kernel in place of the calls gives, and the kernel's resources balance: an imported device holds
  one page, one opened device and its memory, a failed import holds nothing; except that when the
  device cannot be opened the page allocated before stays allocated for ever.
\<close>

theorem import_steps_refine:
  assumes "bio \<or> \<not> on_disk" "jmd_import_device ev newdev on_disk s = (e, s')"
  shows "\<exists>k'. import_device_steps ev bio newdev on_disk s k = Ret (e, s', k') \<and>
    k_rdevs k' = k_rdevs k + (if e = None then 1 else 0) \<and> k_bdevs k' = k_bdevs k + (if e = None then 1 else 0) \<and>
    k_pages k' = k_pages k + (if e = None \<or> lock_fails ev newdev s then 1 else 0)"
proof -
  show ?thesis
  proof (cases "find_jrdev_all s newdev = None \<and> ev_kmalloc ev \<noteq> None \<and> \<not> ev_super ev newdev \<and> ev_page ev \<and> ev_open ev newdev")
    case False
    then show ?thesis using assms(2)
      by (auto simp: jmd_import_device_def import_device_steps_def abort_free_def alloc_disk_sb_def lock_jrdev_def lock_fails_def
          Let_def split: option.splits if_splits)
  next
    case True
    then obtain i where i: "ev_kmalloc ev = Some i" by blast
    have lf: "\<not> lock_fails ev newdev s" using True by (simp add: lock_fails_def)
    show ?thesis
    proof (cases on_disk)
      case False
      then show ?thesis using assms(2) True lf
        by (auto simp: jmd_import_device_def import_device_steps_def alloc_disk_sb_def lock_jrdev_def i Let_def)
    next
      case od: True
      then have bio: bio using assms(1) by simp
      show ?thesis
      proof (cases "ev_read ev newdev")
        case None
        then show ?thesis using assms(2) True lf od bio
          by (auto simp: jmd_import_device_def import_device_steps_def alloc_disk_sb_def lock_jrdev_def i Let_def
              read_disk_sb_def sync_page_io_def abort_free_def unlock_jrdev_def free_disk_sb_def)
      next
        case (Some sb)
        then show ?thesis using assms(2) True lf od bio
          by (cases "check_disk_sb (Some sb)")
             (auto simp: jmd_import_device_def import_device_steps_def alloc_disk_sb_def lock_jrdev_def i Let_def
              read_disk_sb_def sync_page_io_def abort_free_def unlock_jrdev_def free_disk_sb_def upd_rd_def)
      qed
    qed
  qed
qed

text \<open>A second device that cannot be opened.\<close>

theorem import_steps_refine_witness:
  "\<exists>k'. import_device_steps (ev_example\<lparr>ev_open := (\<lambda>_. False)\<rparr>) True (8, 16) True md_example \<lparr>k_pages = 1, k_bdevs = 1, k_rdevs = 1\<rparr> =
     Ret (Some EINVAL, md_example, k') \<and> k_rdevs k' = 1 \<and> k_pages k' = 2"
proof -
  let ?ev = "ev_example\<lparr>ev_open := (\<lambda>_. False)\<rparr>"
  have no: "find_jrdev_all md_example (8, 16) = None" by (simp add: find_jrdev_all_def md_example_def)
  then have "jmd_import_device ?ev (8, 16) True md_example = (Some EINVAL, md_example)" "lock_fails ?ev (8, 16) md_example"
    by (simp_all add: jmd_import_device_def lock_fails_def ev_example_def)
  with import_steps_refine [of True True ?ev "(8, 16)" md_example "Some EINVAL" md_example "\<lparr>k_pages = 1, k_bdevs = 1, k_rdevs = 1\<rparr>"]
  show ?thesis by auto
qed

end
