(* ===== verification/Jmd_Module.thy ===== *)
theory Jmd_Module
  imports Jmd_Thread Jmd_Mem Jmd_Device
begin

text \<open>
  Loading and unloading the array manager, \<^verbatim>\<open>src/src/jmd.c\<close>: \<open>jmddev_find\<close>, \<open>jmd_alloc\<close>, \<open>jmd_init\<close>,
  \<open>jmd_exit\<close>, and the sysfs file \<open>del\<close>.

  The state is what the module holds of the kernel beside the manager's own state: the block device
  number, the global device, its queue and disk, the kobject \<open>kobj_base\<close> with its files, and the cache of
  blocks. The answers of the kernel are arguments. A call with a null or stale pointer is \<open>Bug\<close>.
\<close>

section \<open>The code\<close>

datatype kobj_ptr = Kobj_null | Kobj_live | Kobj_put

record jmd_module =
  jm_state :: jmd_state
  jm_g :: bool
  jm_blkdev :: bool
  jm_queue :: bool
  jm_disks :: nat
  jm_gendisk :: bool
  kobj_base :: kobj_ptr
  jm_files :: bool
  jm_mem :: blk_mem

record module_env =
  mo_major :: int
  mo_thread :: "bool \<times> bool"
  mo_jmddev :: bool
  mo_queue :: bool
  mo_disk :: bool
  mo_kobj :: bool
  mo_files :: bool
  mo_mem :: mem_env

definition jmddev_find :: "module_env \<Rightarrow> jmd_module \<Rightarrow> jmd_module" where
  "jmddev_find mo m =
     (if mo_jmddev mo then m\<lparr>jm_g := True, jm_gendisk := False, jm_queue := False\<rparr> else m\<lparr>jm_g := False\<rparr>)"

text \<open>The new device is all zero, so it has neither queue nor disk. \<open>kobject_del\<close> and \<open>kobject_put\<close>, which accept a null pointer.\<close>

definition kobj_release :: "jmd_module \<Rightarrow> jmd_module outcome" where
  "kobj_release m =
     (case kobj_base m of Kobj_null \<Rightarrow> Ret m | Kobj_live \<Rightarrow> Ret (m\<lparr>kobj_base := Kobj_put\<rparr>) | Kobj_put \<Rightarrow> Bug)"

definition alloc_abort :: "errno \<Rightarrow> jmd_module \<Rightarrow> (errno option \<times> jmd_module) outcome" where
  "alloc_abort e m = bind_outcome (kobj_release m) (\<lambda>m1. Ret (Some e, m1))"

definition jmd_alloc :: "module_env \<Rightarrow> string option \<Rightarrow> jmd_module \<Rightarrow> (errno option \<times> jmd_module) outcome" where
  "jmd_alloc mo name m =
     (let m1 = jmddev_find mo m in
      if \<not> jm_g m1 then Bug
      else if jm_gendisk m1 then alloc_abort EEXIST m1
      else if \<not> mo_queue mo then alloc_abort ENOMEM m1
      else let m2 = m1\<lparr>jm_queue := True\<rparr> in
        if \<not> mo_disk mo then alloc_abort ENOMEM m2
        else let m3 = m2\<lparr>jm_disks := jm_disks m2 + 1\<rparr> in
          if name = None then alloc_abort ENOMEM m3
          else let m4 = m3\<lparr>jm_gendisk := True\<rparr> in
            if \<not> mo_kobj mo then alloc_abort ENOMEM (m4\<lparr>kobj_base := Kobj_null\<rparr>)
            else let m5 = m4\<lparr>kobj_base := Kobj_live\<rparr> in
              if \<not> mo_files mo then alloc_abort ENOMEM m5 else Ret (None, m5\<lparr>jm_files := True\<rparr>))"

text \<open>\<open>jmd_init\<close>: the result is an \<open>int\<close>, the major number of the device when the thread cannot be made.\<close>

definition jmd_init :: "module_env \<Rightarrow> jmd_module \<Rightarrow> (int \<times> jmd_module) outcome" where
  "jmd_init mo m =
     (if mo_major mo < 0 then Ret (mo_major mo, m)
      else
        let m1 = m\<lparr>jm_blkdev := True\<rparr>;
            (th, s1) = jmd_register_thread (fst (mo_thread mo)) (snd (mo_thread mo)) ''jmd_do_recovery'' ''jmd_recoveryd'' (jm_state m1);
            m2 = m1\<lparr>jm_state := s1\<lparr>jmd_recovery_thread := th\<rparr>\<rparr>
        in if th = None then Ret (mo_major mo, m2\<lparr>jm_blkdev := False\<rparr>)
           else bind_outcome (jmd_alloc mo (Some ''jmd0'') m2) (\<lambda>(_, m3).
             bind_outcome (jmd_cache_mem_init (mo_mem mo) (jm_mem m3)) (\<lambda>(_, mem).
               Ret (0, m3\<lparr>jm_mem := mem\<rparr>))))"

text \<open>One member of the array: \<open>unlock_jrdev\<close> and \<open>free_disk_sb\<close>; the device's memory is not freed.\<close>

definition exit_member :: "nat \<Rightarrow> jmd_state \<Rightarrow> jmd_state outcome" where
  "exit_member i s =
     (if \<not> rd_opened (rd s i) then Bug
      else Ret (upd_rd i (\<lambda>r. if rd_sb r = None then r\<lparr>rd_opened := False\<rparr>
          else r\<lparr>rd_opened := False, rd_sb := None, sb_offset := 0, rd_size := 0\<rparr>) s))"

primrec exit_members :: "nat list \<Rightarrow> jmd_state \<Rightarrow> jmd_state outcome" where
  "exit_members [] s = Ret s"
| "exit_members (i # is) s = bind_outcome (exit_member i s) (exit_members is)"

definition jmd_exit :: "jmd_module \<Rightarrow> jmd_module outcome" where
  "jmd_exit m =
     (if \<not> jm_g m then Bug
      else bind_outcome (exit_members (mdisks (md (jm_state m))) (jm_state m)) (\<lambda>s1.
        if kobj_base m \<noteq> Kobj_live then Bug
        else
          let m1 = m\<lparr>jm_state := s1, jm_files := False\<rparr>;
              m2 = (if jm_gendisk m1 then m1\<lparr>jm_disks := jm_disks m1 - 1\<rparr> else m1);
              m3 = (if jm_queue m2 then m2\<lparr>jm_queue := False\<rparr> else m2)\<lparr>jm_blkdev := False\<rparr>;
              m4 = (case jmd_recovery_thread s1 of None \<Rightarrow> m3
                    | Some th \<Rightarrow> m3\<lparr>jm_state := jmd_unregister_thread th s1\<rparr>)
          in bind_outcome (jmd_cache_mem_exit (jm_mem m4)) (\<lambda>mem. Ret (m4\<lparr>jm_mem := mem, jm_g := False\<rparr>))))"

text \<open>\<open>del_store\<close>: looking up a member by its name finds nothing, so the file refuses every name.\<close>

definition jrdev_get_by_name :: "string \<Rightarrow> nat option" where
  "jrdev_get_by_name filename = None"

definition del_store :: "string \<Rightarrow> nat \<Rightarrow> errno + nat" where
  "del_store filename cnt = (case jrdev_get_by_name filename of None \<Rightarrow> Inl EINVAL | Some jrdev \<Rightarrow> Inr cnt)"

lemma del_store_refuses: "del_store filename cnt = Inl EINVAL"
  by (simp add: del_store_def jrdev_get_by_name_def)

section \<open>Loading and unloading\<close>

definition module_start :: "jmd_state \<Rightarrow> jmd_module" where
  "module_start s = \<lparr>jm_state = s, jm_g = False, jm_blkdev = False, jm_queue = False, jm_disks = 0, jm_gendisk = False,
     kobj_base = Kobj_null, jm_files = False, jm_mem = mem_start\<rparr>"

text \<open>The module holds nothing of what it gives back; \<open>kobj_base\<close> is not part of that.\<close>

definition module_empty :: "jmd_state \<Rightarrow> jmd_module \<Rightarrow> bool" where
  "module_empty s m \<longleftrightarrow> \<not> jm_g m \<and> \<not> jm_blkdev m \<and> \<not> jm_queue m \<and> jm_disks m = 0 \<and> \<not> jm_files m \<and>
     live (jm_mem m) = {} \<and> kthreads (jm_state m) = kthreads s"

definition mem_made :: "mem_env \<Rightarrow> bool" where
  "mem_made me \<longleftrightarrow> me_cache me \<and> (\<forall>i < cache_pages (me_nodes me). me_blk me i \<and> me_page me i) \<and> me_task me"

definition exit_works :: "module_env \<Rightarrow> bool" where
  "exit_works mo \<longleftrightarrow> mo_queue mo \<and> mo_disk mo \<and> mo_kobj mo \<and> mo_files mo \<and> (me_cache (mo_mem mo) \<longrightarrow> mem_made (mo_mem mo))"

lemma jmd_alloc_cases:
  assumes "mo_jmddev mo" "kobj_base m = Kobj_null"
  shows "\<exists>e m'. jmd_alloc mo (Some name) m = Ret (e, m') \<and> jm_g m' \<and> jm_state m' = jm_state m \<and> jm_mem m' = jm_mem m \<and>
    jm_blkdev m' = jm_blkdev m \<and> jm_queue m' = mo_queue mo \<and> jm_gendisk m' = (mo_queue mo \<and> mo_disk mo) \<and>
    jm_disks m' = jm_disks m + (if mo_queue mo \<and> mo_disk mo then 1 else 0) \<and>
    (kobj_base m' = Kobj_live \<longleftrightarrow> mo_queue mo \<and> mo_disk mo \<and> mo_kobj mo \<and> mo_files mo) \<and>
    (e = None \<longleftrightarrow> kobj_base m' = Kobj_live)"
  using assms
  by (cases "mo_queue mo"; cases "mo_disk mo"; cases "mo_kobj mo"; cases "mo_files mo")
     (simp_all add: jmd_alloc_def jmddev_find_def alloc_abort_def kobj_release_def Let_def)

lemma mem_exit_iff:
  assumes "jmd_cache_mem_init me mem_start = Ret (r, m)"
  shows "((\<exists>m'. jmd_cache_mem_exit m = Ret m') \<longleftrightarrow> (me_cache me \<longrightarrow> mem_made me)) \<and>
    (\<forall>m'. jmd_cache_mem_exit m = Ret m' \<longrightarrow> live m' = {})"
  using cache_mem_init_cases [of me] assms by (auto simp: mem_made_def split: if_splits)

lemma mem_init_returns: "\<exists>r m. jmd_cache_mem_init me mem_start = Ret (r, m)"
  using cache_mem_init_cases [of me] by blast

text \<open>A module that was loaded: what it got, and what its exit gives back.\<close>

lemma jmd_init_loaded:
  assumes s: "mdisks (md s) = []"
    and loaded: "\<not> mo_major mo < 0" "fst (mo_thread mo)" "snd (mo_thread mo)" "mo_jmddev mo"
  shows "\<exists>m. jmd_init mo (module_start s) = Ret (0, m) \<and> ((\<exists>m'. jmd_exit m = Ret m') \<longleftrightarrow> exit_works mo) \<and>
    (\<forall>m'. jmd_exit m = Ret m' \<longrightarrow> module_empty s m' \<and> kobj_base m' = Kobj_live)"
proof -
  define th where "th = \<lparr>th_run = Some ''jmd_do_recovery'', th_name = ''jmd_recoveryd'', th_flags = 0 :: u64\<rparr>"
  define m2 where "m2 = (module_start s)\<lparr>jm_blkdev := True,
    jm_state := s\<lparr>kthreads := ''jmd_recoveryd'' # kthreads s, jmd_recovery_thread := Some th\<rparr>\<rparr>"
  have k2: "kobj_base m2 = Kobj_null" by (simp add: m2_def module_start_def)
  obtain e m3 where al: "jmd_alloc mo (Some ''jmd0'') m2 = Ret (e, m3)" and m3: "jm_g m3" "jm_state m3 = jm_state m2"
    "jm_mem m3 = jm_mem m2" "jm_blkdev m3 = jm_blkdev m2" "jm_queue m3 = mo_queue mo" "jm_gendisk m3 = (mo_queue mo \<and> mo_disk mo)"
    "jm_disks m3 = jm_disks m2 + (if mo_queue mo \<and> mo_disk mo then 1 else 0)"
    "kobj_base m3 = Kobj_live \<longleftrightarrow> mo_queue mo \<and> mo_disk mo \<and> mo_kobj mo \<and> mo_files mo"
    using jmd_alloc_cases [OF loaded(4) k2, of "''jmd0''"] by blast
  have mem3: "jm_mem m3 = mem_start" using m3(3) by (simp add: m2_def module_start_def)
  obtain r mem where mem: "jmd_cache_mem_init (mo_mem mo) mem_start = Ret (r, mem)" using mem_init_returns by blast
  have init: "jmd_init mo (module_start s) = Ret (0, m3\<lparr>jm_mem := mem\<rparr>)"
    using loaded al mem mem3 by (simp add: jmd_init_def jmd_register_thread_def m2_def th_def module_start_def)
  have st: "mdisks (md (jm_state m3)) = []" "jmd_recovery_thread (jm_state m3) = Some th"
    using m3(2) s by (simp_all add: m2_def)
  have ex: "jmd_exit (m3\<lparr>jm_mem := mem\<rparr>) = (if kobj_base m3 \<noteq> Kobj_live then Bug
    else bind_outcome (jmd_cache_mem_exit mem) (\<lambda>mem'. Ret (m3\<lparr>jm_files := False, jm_disks := jm_disks m3 - 1, jm_queue := False,
      jm_blkdev := False, jm_state := jmd_unregister_thread th (jm_state m3), jm_mem := mem', jm_g := False\<rparr>)))"
    using m3(1,5,6,8) st by (auto simp: jmd_exit_def Let_def)
  have kt: "kthreads (jmd_unregister_thread th (jm_state m3)) = kthreads s"
    using m3(2) by (simp add: m2_def th_def jmd_unregister_thread_def jmd_interrupt_thread_def)
  have "(\<exists>m'. jmd_exit (m3\<lparr>jm_mem := mem\<rparr>) = Ret m') \<longleftrightarrow> exit_works mo"
    unfolding ex exit_works_def using m3(8) mem_exit_iff [OF mem] by (auto simp: bind_outcome_Ret_iff)
  moreover have "module_empty s m' \<and> kobj_base m' = Kobj_live" if "jmd_exit (m3\<lparr>jm_mem := mem\<rparr>) = Ret m'" for m'
    using that m3(7,8) kt mem_exit_iff [OF mem] unfolding ex
    by (auto simp: bind_outcome_Ret_iff module_empty_def m2_def module_start_def split: if_splits)
  ultimately show ?thesis using init by blast
qed


text \<open>A machine where all but the files of the kobject can be made: the module loads and cannot be unloaded.\<close>

definition module_env_example :: module_env where
  "module_env_example = \<lparr>mo_major = 250, mo_thread = (True, True), mo_jmddev = True, mo_queue = True, mo_disk = True, mo_kobj = True,
     mo_files = False, mo_mem = \<lparr>me_cache = True, me_nodes = [], me_blk = (\<lambda>_. True), me_page = (\<lambda>_. True), me_task = True\<rparr>\<rparr>"


end
