(* ===== verification/Kthread_Stop.thy ===== *)
theory Kthread_Stop
  imports Prelude
begin

text \<open>
  Stopping a kernel thread, the interface the threads of \<^verbatim>\<open>jmd_mem.c\<close> and \<^verbatim>\<open>attach/jrcpp\<close> share: \<open>kthread_stop\<close>
  comes back when the thread's function has returned. A thread's function is its own step (nothing while
  it sleeps or when it has returned); the locale asks that a thread that is being stopped always
  has a step, nearer to its end.
\<close>

primrec own_steps :: "('t \<Rightarrow> 't option) \<Rightarrow> nat \<Rightarrow> 't \<Rightarrow> 't option" where
  "own_steps own 0 t = Some t"
| "own_steps own (Suc n) t = (case own t of None \<Rightarrow> None | Some u \<Rightarrow> own_steps own n u)"

definition stop_returns :: "('t \<Rightarrow> 't option) \<Rightarrow> ('t \<Rightarrow> bool) \<Rightarrow> 't \<Rightarrow> bool" where
  "stop_returns own returned t \<longleftrightarrow> (\<exists>n u. own_steps own n t = Some u \<and> returned u)"

lemma stop_returns_now: "returned t \<Longrightarrow> stop_returns own returned t"
  unfolding stop_returns_def by (intro exI [of _ 0] exI [of _ t]) simp

lemma stop_returns_step: "own t = Some u \<Longrightarrow> stop_returns own returned u \<Longrightarrow> stop_returns own returned t"
  unfolding stop_returns_def by (metis own_steps.simps(2) option.simps(5))

lemma stop_returns_asleep: "own t = None \<Longrightarrow> stop_returns own returned t \<longleftrightarrow> returned t"
proof
  assume a: "own t = None" and "stop_returns own returned t"
  then obtain n u where "own_steps own n t = Some u" "returned u" unfolding stop_returns_def by blast
  then show "returned t" using a by (cases n) auto
qed (rule stop_returns_now)

lemma stop_returns_iff:
  assumes "own t = Some u" "\<not> returned t"
  shows "stop_returns own returned t \<longleftrightarrow> stop_returns own returned u"
proof
  assume "stop_returns own returned t"
  then obtain n v where "own_steps own n t = Some v" "returned v" unfolding stop_returns_def by blast
  then show "stop_returns own returned u"
    using assms unfolding stop_returns_def by (cases n) auto
qed (use assms(1) in \<open>blast intro: stop_returns_step\<close>)

locale stoppable_thread =
  fixes own :: "'t \<Rightarrow> 't option" and leaving :: "'t \<Rightarrow> bool" and returned :: "'t \<Rightarrow> bool" and steps_left :: "'t \<Rightarrow> nat"
  assumes leaves: "leaving t \<Longrightarrow> \<not> returned t \<Longrightarrow> \<exists>u. own t = Some u \<and> leaving u \<and> steps_left u < steps_left t"
begin

lemma returns: "leaving t \<Longrightarrow> stop_returns own returned t"
proof (induction "steps_left t" arbitrary: t rule: less_induct)
  case less
  show ?case
  proof (cases "returned t")
    case False
    then obtain u where "own t = Some u" "leaving u" "steps_left u < steps_left t" using leaves less.prems by blast
    then show ?thesis using less.hyps stop_returns_step by metis
  qed (rule stop_returns_now)
qed

end

end
