(* ===== verification/Jmd_Mem_Thread.thy ===== *)
theory Jmd_Mem_Thread
  imports Jmd_Mem Kthread_Stop
begin

text \<open>
  The thread of the cache's memory manager, \<open>memory_management_fn\<close> of \<^verbatim>\<open>src/src/jmd_mem.c\<close>, and the
  way \<open>jmd_cache_mem_exit\<close> stops it: first the signal, then \<open>kthread_stop\<close>. What the thread would do when it is woken is
  commented out in the source. The wait ends on a pending signal or when \<open>need_release\<close> says so; being
  asked to stop only makes the thread look at both again.
\<close>

section \<open>The code\<close>

datatype mm_pc = Mm_Test | Mm_Flush | Mm_Wait | Mm_Woken | Mm_Returned

record mm_task =
  mm_pc :: mm_pc
  mm_signal :: bool
  mm_stop :: bool
  mm_free :: cint
  mm_total :: cint

definition memory_management_fn :: "mm_task \<Rightarrow> mm_task option" where
  "memory_management_fn t =
     (case mm_pc t of
        Mm_Test \<Rightarrow> Some (t\<lparr>mm_pc := if mm_stop t then Mm_Returned else Mm_Flush\<rparr>)
      | Mm_Flush \<Rightarrow> Some (t\<lparr>mm_pc := Mm_Wait, mm_signal := False\<rparr>)
      | Mm_Wait \<Rightarrow>
          (case need_release (mm_free t) (mm_total t) of
             None \<Rightarrow> None
           | Some b \<Rightarrow> if b \<or> mm_signal t then Some (t\<lparr>mm_pc := Mm_Woken\<rparr>) else None)
      | Mm_Woken \<Rightarrow> Some (t\<lparr>mm_pc := Mm_Test\<rparr>)
      | Mm_Returned \<Rightarrow> None)"

text \<open>The thread and the exit that stops it: the signal is sent once, and before the request to stop.\<close>

record mm_run =
  mm_thread :: mm_task
  mm_sent :: bool

inductive mm_step :: "mm_run \<Rightarrow> mm_run \<Rightarrow> bool" where
  own: "memory_management_fn (mm_thread r) = Some u \<Longrightarrow> mm_step r (r\<lparr>mm_thread := u\<rparr>)"
| send_sig: "\<not> mm_sent r \<Longrightarrow> mm_step r (r\<lparr>mm_sent := True, mm_thread := (mm_thread r)\<lparr>mm_signal := True\<rparr>\<rparr>)"
| kthread_stop: "mm_sent r \<Longrightarrow> mm_step r (r\<lparr>mm_thread := (mm_thread r)\<lparr>mm_stop := True\<rparr>\<rparr>)"

inductive_cases mm_stepE: "mm_step r r'"

definition mm_start :: "cint \<Rightarrow> cint \<Rightarrow> mm_run" where
  "mm_start free tot = \<lparr>mm_thread = \<lparr>mm_pc = Mm_Test, mm_signal = False, mm_stop = False, mm_free = free, mm_total = tot\<rparr>, mm_sent = False\<rparr>"

inductive mm_reach :: "cint \<Rightarrow> cint \<Rightarrow> mm_run \<Rightarrow> bool" for free tot where
  start: "mm_reach free tot (mm_start free tot)"
| step: "mm_reach free tot r \<Longrightarrow> mm_step r r' \<Longrightarrow> mm_reach free tot r'"

section \<open>Stopping the thread\<close>

abbreviation mm_returned :: "mm_task \<Rightarrow> bool" where
  "mm_returned t \<equiv> mm_pc t = Mm_Returned"

text \<open>What the exit needs: the thread is not past the loop's test with the signal already gone.\<close>

definition mm_leaving :: "mm_task \<Rightarrow> bool" where
  "mm_leaving t \<longleftrightarrow> mm_stop t \<and> need_release (mm_free t) (mm_total t) = Some False \<and>
     mm_pc t \<noteq> Mm_Flush \<and> (mm_pc t = Mm_Wait \<longrightarrow> mm_signal t)"

definition mm_left :: "mm_task \<Rightarrow> nat" where
  "mm_left t = (case mm_pc t of Mm_Flush \<Rightarrow> 4 | Mm_Wait \<Rightarrow> 3 | Mm_Woken \<Rightarrow> 2 | Mm_Test \<Rightarrow> 1 | Mm_Returned \<Rightarrow> 0)"

interpretation mm: stoppable_thread memory_management_fn mm_leaving mm_returned mm_left
proof
  fix t assume "mm_leaving t" "\<not> mm_returned t"
  then show "\<exists>u. memory_management_fn t = Some u \<and> mm_leaving u \<and> mm_left u < mm_left t"
    by (cases "mm_pc t") (simp_all add: mm_leaving_def mm_left_def memory_management_fn_def)
qed

lemma mm_counters: "mm_reach free tot r \<Longrightarrow> mm_free (mm_thread r) = free \<and> mm_total (mm_thread r) = tot"
proof (induction rule: mm_reach.induct)
  case (step r r')
  then show ?case
    by (auto elim!: mm_stepE simp: memory_management_fn_def split: mm_pc.splits option.splits if_splits)
qed (simp add: mm_start_def)

text \<open>A thread that sleeps without a signal sleeps for ever once it has been asked to stop.\<close>

definition mm_hung :: "mm_run \<Rightarrow> bool" where
  "mm_hung r \<longleftrightarrow> mm_sent r \<and> mm_pc (mm_thread r) = Mm_Wait \<and> \<not> mm_signal (mm_thread r)"

lemma mm_hung_step:
  assumes "mm_step r r'" "mm_hung r" "need_release (mm_free (mm_thread r)) (mm_total (mm_thread r)) = Some False"
  shows "mm_hung r'"
  using assms by (auto elim!: mm_stepE simp: mm_hung_def memory_management_fn_def)

lemma mm_asleep:
  assumes "mm_pc t = Mm_Wait" "\<not> mm_signal t" "need_release (mm_free t) (mm_total t) = Some False"
  shows "\<not> stop_returns memory_management_fn mm_returned t"
  using assms by (simp add: stop_returns_asleep memory_management_fn_def)

lemma mm_stop_returns_iff:
  assumes "mm_stop t" "need_release (mm_free t) (mm_total t) = Some False"
  shows "stop_returns memory_management_fn mm_returned t \<longleftrightarrow> mm_pc t \<noteq> Mm_Flush \<and> (mm_pc t = Mm_Wait \<longrightarrow> mm_signal t)"
proof (cases "mm_leaving t")
  case True
  then show ?thesis using mm.returns [OF True] by (simp add: mm_leaving_def)
next
  case False
  then consider "mm_pc t = Mm_Flush" | "mm_pc t = Mm_Wait" "\<not> mm_signal t" using assms by (auto simp: mm_leaving_def)
  then show ?thesis
  proof cases
    case 1
    then have s: "memory_management_fn t = Some (t\<lparr>mm_pc := Mm_Wait, mm_signal := False\<rparr>)" "\<not> mm_returned t"
      by (simp_all add: memory_management_fn_def)
    show ?thesis using 1 assms(2) mm_asleep [of "t\<lparr>mm_pc := Mm_Wait, mm_signal := False\<rparr>"] stop_returns_iff [of memory_management_fn t _ mm_returned, OF s] by simp
  next
    case 2
    then show ?thesis using mm_asleep assms(2) by simp
  qed
qed

text \<open>
  C37 Unloading can wait for ever for the memory manager. While at most 21474836 blocks are free,
  \<open>kthread_stop\<close> comes back in a reachable state iff the thread is not between the loop's test and its wait
  and does not sleep without a pending signal; and if \<open>jmd_cache_mem_exit\<close> sends the signal just after the
  test, the thread flushes it, goes to sleep, and no later state is any different.
\<close>

theorem mm_exit_may_hang:
  assumes "unat free \<le> 21474836" "tot \<noteq> 0" "nonneg tot"
  shows "(mm_reach free tot r \<and> mm_stop (mm_thread r) \<longrightarrow>
      (stop_returns memory_management_fn mm_returned (mm_thread r) \<longleftrightarrow>
         mm_pc (mm_thread r) \<noteq> Mm_Flush \<and> (mm_pc (mm_thread r) = Mm_Wait \<longrightarrow> mm_signal (mm_thread r)))) \<and>
    (\<exists>h. mm_reach free tot h \<and> mm_hung h \<and> (\<forall>h'. mm_step\<^sup>*\<^sup>* h h' \<longrightarrow> mm_hung h' \<and> \<not> mm_returned (mm_thread h')))"
proof (intro conjI impI)
  note never = need_release_never [OF assms]
  {
    assume "mm_reach free tot r \<and> mm_stop (mm_thread r)"
    then show "stop_returns memory_management_fn mm_returned (mm_thread r) \<longleftrightarrow>
         mm_pc (mm_thread r) \<noteq> Mm_Flush \<and> (mm_pc (mm_thread r) = Mm_Wait \<longrightarrow> mm_signal (mm_thread r))"
      using mm_counters never by (intro mm_stop_returns_iff) auto
  }
  define t where "t = (\<lambda>pc sig. \<lparr>mm_pc = pc, mm_signal = sig, mm_stop = False, mm_free = free, mm_total = tot\<rparr>)"
  define run where "run = (\<lambda>pc sig b. \<lparr>mm_thread = t pc sig, mm_sent = b\<rparr>)"
  have "mm_reach free tot (run Mm_Test False False)"
    using mm_reach.start [of free tot] by (simp add: mm_start_def run_def t_def)
  moreover have "mm_step (run Mm_Test False False) (run Mm_Flush False False)"
    using mm_step.own [of "run Mm_Test False False"] by (simp add: run_def t_def memory_management_fn_def)
  moreover have "mm_step (run Mm_Flush False False) (run Mm_Flush True True)"
    using mm_step.send_sig [of "run Mm_Flush False False"] by (simp add: run_def t_def)
  moreover have "mm_step (run Mm_Flush True True) (run Mm_Wait False True)"
    using mm_step.own [of "run Mm_Flush True True"] by (simp add: run_def t_def memory_management_fn_def)
  ultimately have reach: "mm_reach free tot (run Mm_Wait False True)" using mm_reach.step by metis
  have hung: "mm_hung (run Mm_Wait False True)" by (simp add: mm_hung_def run_def t_def)
  have "mm_reach free tot h' \<and> mm_hung h'" if "mm_step\<^sup>*\<^sup>* (run Mm_Wait False True) h'" for h'
    using that
  proof (induction rule: rtranclp_induct)
    case (step y z)
    then show ?case using mm_reach.step mm_counters [of free tot y] mm_hung_step [OF step(2)] never by metis
  qed (use reach hung in simp)
  then show "\<exists>h. mm_reach free tot h \<and> mm_hung h \<and> (\<forall>h'. mm_step\<^sup>*\<^sup>* h h' \<longrightarrow> mm_hung h' \<and> \<not> mm_returned (mm_thread h'))"
    using reach hung by (intro exI [of _ "run Mm_Wait False True"]) (auto simp: mm_hung_def)
qed

theorem mm_exit_may_hang_witness:
  "\<exists>h. mm_reach 100 100 h \<and> mm_hung h \<and> (\<forall>h'. mm_step\<^sup>*\<^sup>* h h' \<longrightarrow> mm_hung h' \<and> \<not> mm_returned (mm_thread h'))"
proof -
  have "unat (100 :: cint) \<le> 21474836" "(100 :: cint) \<noteq> 0" "nonneg (100 :: cint)" by (simp_all add: nonneg_def)
  then show ?thesis using mm_exit_may_hang by blast
qed

end
