(* ===== verification/Raid6_Galois.thy ===== *)
theory Raid6_Galois
  imports Prelude
begin

text \<open>
  The Galois field demo of the RAID-6 algorithm, \<^verbatim>\<open>src/algorithm/raid6_pq/algorithm.c\<close>: the tables of logarithms
  and powers of the field with 16 elements, multiplication and division by table, and the
  reconstruction of a lost data word and the parity in \<open>main\<close>.

  The tables are arrays of \<open>int\<close> that only ever hold numbers below 16, here natural numbers. An access
  outside the 16 entries is \<open>None\<close>. What \<open>main\<close> prints is left out.
\<close>

unbundle bit_operations_syntax

section \<open>The code\<close>

definition NUM :: nat where "NUM = 4"
definition T_NUM :: nat where "T_NUM = 3"

text \<open>One round of \<open>generate_Galois_table\<close> on the arrays \<open>log\<close> and \<open>alog\<close>.\<close>

definition table_step :: "nat \<Rightarrow> nat list \<times> nat list \<Rightarrow> nat list \<times> nat list" where
  "table_step i t =
     (let (lg, al) = t;
          d = al ! (i - 1) * 2;
          d1 = (if d AND 16 \<noteq> 0 then d XOR 19 else d)
      in (lg[d1 := i], al[i := d1]))"

definition generate_Galois_table :: "nat list \<times> nat list" where
  "generate_Galois_table = fold table_step [1..<15] (replicate 16 0, (replicate 16 0)[0 := 1])"

definition log_table :: "nat list" where "log_table = fst generate_Galois_table"
definition alog_table :: "nat list" where "alog_table = snd generate_Galois_table"

definition Galois_mutipile :: "nat \<Rightarrow> nat \<Rightarrow> nat option" where
  "Galois_mutipile a b =
     (if a < 16 \<and> b < 16 then Some (alog_table ! ((log_table ! a XOR log_table ! b) mod 15)) else None)"

definition Galois_division :: "nat \<Rightarrow> nat \<Rightarrow> nat option" where
  "Galois_division a b =
     (if a < 16 \<and> b < 16 then Some (alog_table ! (((log_table ! a XOR log_table ! b) + 15) mod 15)) else None)"

text \<open>The first loop of \<open>main\<close>: the coefficients, \<open>P\<close> and \<open>Q\<close>, for the random numbers drawn.\<close>

fun encode_loop :: "nat list \<Rightarrow> nat list \<Rightarrow> nat list \<Rightarrow> nat list \<Rightarrow> nat \<Rightarrow> nat \<Rightarrow> (nat list \<times> nat \<times> nat) option" where
  "encode_loop D rk [] K P Q = Some (K, P, Q)"
| "encode_loop D rk (i # is) K P Q =
     (let K1 = K[i := rk ! i, T_NUM := 0] in
      case Galois_mutipile (D ! i) (K1 ! i) of
        None \<Rightarrow> None
      | Some q \<Rightarrow> encode_loop D rk is K1 (P XOR D ! i) (Q XOR q))"

text \<open>The loop that folds the products of the other data words into the lost one.\<close>

fun recover_loop :: "nat list \<Rightarrow> nat list \<Rightarrow> nat list \<Rightarrow> nat \<Rightarrow> nat option" where
  "recover_loop D K [] x = Some x"
| "recover_loop D K (i # is) x =
     (if i = T_NUM then recover_loop D K is x
      else case Galois_mutipile (D ! i) (K ! i) of None \<Rightarrow> None | Some q \<Rightarrow> recover_loop D K is (x XOR q))"

text \<open>\<open>main\<close> for the data words \<open>D\<close>, the random numbers \<open>rk\<close> and what the stack held in \<open>K\<close>: \<open>P\<close> before, and \<open>P\<close> and the lost word after.\<close>

definition main_recovery :: "nat list \<Rightarrow> nat list \<Rightarrow> nat list \<Rightarrow> (nat \<times> nat \<times> nat) option" where
  "main_recovery D rk junk =
     (case encode_loop D rk [0..<NUM] junk 0 0 of
        None \<Rightarrow> None
      | Some (K, P, Q) \<Rightarrow>
          (case recover_loop (D[T_NUM := 0]) K [0..<NUM] 0 of
             None \<Rightarrow> None
           | Some x \<Rightarrow>
               (case Galois_division (x XOR Q) (K ! T_NUM) of
                  None \<Rightarrow> None
                | Some d \<Rightarrow> Some (P, foldl (XOR) 0 (D[T_NUM := d]), d))))"

section \<open>The tables\<close>

lemma tables_eq:
  "generate_Galois_table = ([0, 0, 1, 4, 2, 8, 5, 10, 3, 14, 9, 7, 6, 13, 11, 12], [1, 2, 4, 8, 3, 6, 12, 11, 5, 10, 7, 14, 15, 13, 9, 0])"
  by code_simp

lemmas log_eq = log_table_def [unfolded tables_eq fst_conv]
lemmas alog_eq = alog_table_def [unfolded tables_eq snd_conv]

text \<open>Multiplication in the field: polynomials over two elements, modulo \<open>x^4 + x + 1\<close>.\<close>

definition times_x :: "nat \<Rightarrow> nat" where
  "times_x a = (if 8 \<le> a then (2 * a) XOR 19 else 2 * a)"

lemma upto_15: "[0..<15] = [0, 1, 2, 3, 4, 5, 6, 7, 8, 9, 10, 11, 12, 13, 14 :: nat]" "[1..<16] = [1, 2, 3, 4, 5, 6, 7, 8, 9, 10, 11, 12, 13, 14, 15 :: nat]"
  by (simp_all add: upt_rec)

lemma powers: "list_all (\<lambda>i. times_x (alog_table ! i) = alog_table ! ((i + 1) mod 15) \<and> log_table ! (alog_table ! i) = i) [0..<15]"
  unfolding log_eq alog_eq upto_15 by (simp add: times_x_def)

lemma logs: "list_all (\<lambda>a. alog_table ! (log_table ! a) = a \<and> log_table ! a < 15) [1..<16]"
  unfolding log_eq alog_eq upto_15 by simp

lemma below_15: "(i :: nat) < 15 \<Longrightarrow> list_all P [0..<15] \<Longrightarrow> P i"
  by (auto simp: list_all_iff)

lemma below_16: "(i :: nat) < 16 \<Longrightarrow> i \<noteq> 0 \<Longrightarrow> list_all P [1..<16] \<Longrightarrow> P i"
  by (auto simp: list_all_iff)

lemma alog_log: "a < 16 \<Longrightarrow> a \<noteq> 0 \<Longrightarrow> alog_table ! (log_table ! a) = a" "a < 16 \<Longrightarrow> a \<noteq> 0 \<Longrightarrow> log_table ! a < 15"
  using below_16 [OF _ _ logs] by blast+

lemma log_alog: "i < 15 \<Longrightarrow> log_table ! (alog_table ! i) = i" "i < 15 \<Longrightarrow> times_x (alog_table ! i) = alog_table ! ((i + 1) mod 15)"
  using below_15 [OF _ powers] by blast+

lemma alog_power: "i < 15 \<Longrightarrow> alog_table ! i = (times_x ^^ i) 1"
proof (induction i)
  case 0
  show ?case by (simp add: alog_eq)
next
  case (Suc i)
  then show ?case using log_alog(2) [of i] by simp
qed

lemma division_is_multiplication: "Galois_division a b = Galois_mutipile a b"
  by (simp add: Galois_division_def Galois_mutipile_def)

lemma xor_less_16: "(a :: nat) < 15 \<Longrightarrow> b < 15 \<Longrightarrow> a XOR b < 16"
proof -
  assume "a < 15" "b < 15"
  then have "take_bit 4 a = a" "take_bit 4 b = b" by (simp_all add: take_bit_nat_eq_self)
  then have "take_bit 4 (a XOR b) = a XOR b" by (simp add: take_bit_xor)
  then have "a XOR b < 2 ^ 4" using take_bit_nat_less_exp by metis
  then show ?thesis by simp
qed

lemma mult_div:
  assumes "a < 16" "a \<noteq> 0" "b < 16" "b \<noteq> 0"
  shows "\<exists>m. Galois_mutipile a b = Some m \<and> m < 16 \<and> m \<noteq> 0 \<and>
    Galois_division m b = Some (if log_table ! a XOR log_table ! b = 15 then b else a)"
proof -
  let ?x = "log_table ! a XOR log_table ! b"
  have l: "log_table ! a < 15" "log_table ! b < 15" using alog_log(2) assms by blast+
  have x: "?x < 16" using xor_less_16 [OF l] .
  have all: "list_all (\<lambda>i. alog_table ! i < 16 \<and> alog_table ! i \<noteq> 0) [0..<15]" unfolding alog_eq upto_15 by simp
  have m: "alog_table ! (?x mod 15) < 16" "alog_table ! (?x mod 15) \<noteq> 0" using below_15 [OF _ all, of "?x mod 15"] by simp_all
  have lg: "log_table ! (alog_table ! (?x mod 15)) = ?x mod 15" by (rule log_alog) simp
  have "alog_table ! ((?x mod 15 XOR log_table ! b) mod 15) = (if ?x = 15 then b else a)"
  proof (cases "?x = 15")
    case True
    then show ?thesis using l(2) alog_log(1) [OF assms(3,4)] by simp
  next
    case False
    then have "?x mod 15 = ?x" using x by simp
    moreover have "?x XOR log_table ! b = log_table ! a" by (simp add: xor.assoc)
    ultimately show ?thesis using l(1) alog_log(1) [OF assms(1,2)] False by simp
  qed
  moreover have "Galois_mutipile a b = Some (alog_table ! (?x mod 15))" using assms by (simp add: Galois_mutipile_def)
  moreover have "Galois_division (alog_table ! (?x mod 15)) b =
      Some (alog_table ! ((log_table ! (alog_table ! (?x mod 15)) XOR log_table ! b) mod 15))"
    using assms m unfolding division_is_multiplication by (simp only: Galois_mutipile_def simp_thms if_True)
  ultimately show ?thesis using m unfolding lg by auto
qed

text \<open>
  C39 The tables are those of the field with 16 elements: the \<open>i\<close>-th entry of the powers is \<open>x\<close> multiplied
  \<open>i\<close> times by itself modulo \<open>x^4 + x + 1\<close>, and logarithms and powers are inverse. But the products
  combine the logarithms with exclusive or instead of addition: division is the same function as
  multiplication, and it undoes a multiplication of nonzero elements exactly when the two logarithms are not
  complementary; otherwise it returns the divisor.
\<close>

theorem galois_tables_and_division:
  "(i < 15 \<longrightarrow> alog_table ! i = (times_x ^^ i) 1 \<and> log_table ! (alog_table ! i) = i) \<and>
   (a < 16 \<and> a \<noteq> 0 \<longrightarrow> alog_table ! (log_table ! a) = a) \<and>
   Galois_division a b = Galois_mutipile a b \<and>
   (a < 16 \<and> a \<noteq> 0 \<and> b < 16 \<and> b \<noteq> 0 \<longrightarrow>
     (Option.bind (Galois_mutipile a b) (\<lambda>m. Galois_division m b) = Some a \<longleftrightarrow> log_table ! a XOR log_table ! b \<noteq> 15))"
proof -
  have "Option.bind (Galois_mutipile a b) (\<lambda>m. Galois_division m b) = Some a \<longleftrightarrow> log_table ! a XOR log_table ! b \<noteq> 15"
    if ab: "a < 16 \<and> a \<noteq> 0 \<and> b < 16 \<and> b \<noteq> 0"
  proof -
    obtain m where m: "Galois_mutipile a b = Some m" "Galois_division m b = Some (if log_table ! a XOR log_table ! b = 15 then b else a)"
      using mult_div ab by blast
    have "a \<noteq> b" if "log_table ! a XOR log_table ! b = 15" using that by auto
    then show ?thesis using m by auto
  qed
  then show ?thesis using alog_power log_alog(1) alog_log(1) division_is_multiplication by blast
qed

text \<open>Two times nine is one, and one divided by nine is nine: the logarithms 1 and 14 are complementary.\<close>

theorem galois_tables_and_division_witness:
  "Option.bind (Galois_mutipile 2 9) (\<lambda>m. Galois_division m 9) \<noteq> Some 2 \<and> Option.bind (Galois_mutipile 3 9) (\<lambda>m. Galois_division m 9) = Some 3"
  using galois_tables_and_division [of 0 2 9] galois_tables_and_division [of 0 3 9] by (simp add: log_eq)

section \<open>Reconstruction\<close>

lemma mult_zero: "a < 16 \<Longrightarrow> a \<noteq> 0 \<Longrightarrow> Galois_mutipile a 0 = Some a"
  using alog_log by (simp add: Galois_mutipile_def) (simp add: log_eq [THEN arg_cong, of "\<lambda>t. t ! 0"])

lemma mult_defined: "Galois_mutipile a b \<noteq> None \<longleftrightarrow> a < 16 \<and> b < 16"
  by (simp add: Galois_mutipile_def)

text \<open>
  The reconstruction in \<open>main\<close>. As the coefficient of the lost word is set to 0, whose logarithm is that of 1,
  the word enters \<open>Q\<close> unchanged: whatever nonzero data and coefficients below 16 were drawn, the lost word
  and the parity come back. A draw of 16, which \<open>rand() % 16 + 1\<close> yields, is outside the tables.
\<close>

lemma main_recovery_correct:
  assumes "d0 < 16" "d1 < 16" "d2 < 16" "d3 < 16" "d3 \<noteq> 0" "length junk = NUM"
  shows "main_recovery [d0, d1, d2, d3] [k0, k1, k2, k3] junk =
    (if k0 < 16 \<and> k1 < 16 \<and> k2 < 16 then Some (d0 XOR d1 XOR d2 XOR d3, d0 XOR d1 XOR d2 XOR d3, d3) else None)"
proof -
  obtain j0 j1 j2 j3 where junk: "junk = [j0, j1, j2, j3]"
    using assms(6) by (auto simp: NUM_def length_Suc_conv numeral_eq_Suc)
  have ix: "[0..<NUM] = [0, 1, 2, 3]" by (simp add: NUM_def upt_rec)
  have div0: "Galois_division d3 0 = Some d3" using mult_zero assms(4,5) by (simp add: division_is_multiplication)
  have cancel: "(x XOR (y XOR (z XOR (x XOR (y XOR (z XOR w)))))) = w" for x y z w :: nat
    by (metis xor.assoc xor.left_commute xor_self_eq xor.right_neutral)
  show ?thesis
  proof (cases "k0 < 16 \<and> k1 < 16 \<and> k2 < 16")
    case False
    then consider "\<not> k0 < 16" | "k0 < 16" "\<not> k1 < 16" | "k0 < 16" "k1 < 16" "\<not> k2 < 16" by blast
    then show ?thesis
      by cases (simp_all add: main_recovery_def ix junk T_NUM_def Galois_mutipile_def assms(1-4) numeral_2_eq_2 numeral_3_eq_3)
  next
    case True
    then obtain q0 q1 q2 where q: "Galois_mutipile d0 k0 = Some q0" "Galois_mutipile d1 k1 = Some q1" "Galois_mutipile d2 k2 = Some q2"
      using mult_defined assms(1-3) by (metis not_None_eq)
    then show ?thesis using True mult_zero [OF assms(4,5)] div0 cancel
      by (simp add: main_recovery_def ix junk T_NUM_def numeral_2_eq_2 numeral_3_eq_3 xor.assoc)
  qed
qed

end
