(* ===== verification/Xor_Block.thy ===== *)
theory Xor_Block
  imports Jraid5_Types
begin

text \<open>
  The parity routines of \<^verbatim>\<open>src/src/xor.c\<close> and \<^verbatim>\<open>src/src/xor.h\<close>: \<open>xor_block\<close>, which calls a routine of the
  active template, the measurement \<open>do_xor_speed\<close>, and \<open>calibrate_xor_block\<close>, which picks the fastest.

  The routines of a template are the architecture's and are fields of its record: they return the new
  contents of their first buffer. \<open>jiffies\<close> is a stream of readings; the architecture's list of
  templates (\<open>XOR_TRY_TEMPLATES\<close>), its choice (\<open>XOR_SELECT_TEMPLATE\<close>) and \<open>HZ\<close> are arguments.
\<close>

unbundle bit_operations_syntax

section \<open>The code\<close>

type_synonym buf = "u8 list"

record xor_block_template =
  xt_name :: string
  xt_speed :: cint
  do_2 :: "nat \<Rightarrow> buf \<Rightarrow> buf \<Rightarrow> buf"
  do_3 :: "nat \<Rightarrow> buf \<Rightarrow> buf \<Rightarrow> buf \<Rightarrow> buf"
  do_4 :: "nat \<Rightarrow> buf \<Rightarrow> buf \<Rightarrow> buf \<Rightarrow> buf \<Rightarrow> buf"
  do_5 :: "nat \<Rightarrow> buf \<Rightarrow> buf \<Rightarrow> buf \<Rightarrow> buf \<Rightarrow> buf \<Rightarrow> buf"

definition MAX_XOR_BLOCKS :: nat where "MAX_XOR_BLOCKS = 5"

text \<open>
  The heads of the buffers are a list; a head that is not there is an access out of the array. The size is the
  one of the first buffer. The result is the first buffer's new contents.
\<close>

definition xor_block :: "xor_block_template \<Rightarrow> nat \<Rightarrow> buf list \<Rightarrow> buf outcome" where
  "xor_block tmpl count bh =
     (if length bh < 2 then Bug
      else let bytes = length (bh ! 0) in
        if count = 2 then Ret (do_2 tmpl bytes (bh ! 0) (bh ! 1))
        else if length bh < 3 then Bug
        else if count = 3 then Ret (do_3 tmpl bytes (bh ! 0) (bh ! 1) (bh ! 2))
        else if length bh < 4 then Bug
        else if count = 4 then Ret (do_4 tmpl bytes (bh ! 0) (bh ! 1) (bh ! 2) (bh ! 3))
        else if length bh < 5 then Bug
        else Ret (do_5 tmpl bytes (bh ! 0) (bh ! 1) (bh ! 2) (bh ! 3) (bh ! 4)))"

definition BENCH_SIZE :: nat where "BENCH_SIZE = PAGE_SIZE - 6 * 32"

text \<open>
  One round of the measurement: \<open>now\<close> is the reading number \<open>k\<close>; the loop goes on as long as the next reading
  is the same. The result is the number of passes and the number of the next reading.
\<close>

partial_function (option) count_passes :: "(nat \<Rightarrow> u64) \<Rightarrow> u64 \<Rightarrow> nat \<Rightarrow> cint \<Rightarrow> (cint \<times> nat) option" where
  "count_passes jiffies now k count =
     (if jiffies k = now then count_passes jiffies now (k + 1) (count + 1) else Some (count, k + 1))"

primrec speed_rounds :: "nat \<Rightarrow> (nat \<Rightarrow> u64) \<Rightarrow> nat \<Rightarrow> cint \<Rightarrow> (cint \<times> nat) option" where
  "speed_rounds 0 jiffies k mx = Some (mx, k)"
| "speed_rounds (Suc n) jiffies k mx =
     (case count_passes jiffies (jiffies k) (k + 1) 0 of
        None \<Rightarrow> None
      | Some (count, k1) \<Rightarrow> speed_rounds n jiffies k1 (if sint count > sint mx then count else mx))"

definition do_xor_speed :: "nat \<Rightarrow> (nat \<Rightarrow> u64) \<Rightarrow> xor_block_template \<Rightarrow> nat \<times> xor_block_template list \<Rightarrow>
    (nat \<times> xor_block_template list) option" where
  "do_xor_speed HZ jiffies tmpl st =
     (let (k, ts0) = st in
      case speed_rounds 5 jiffies k 0 of
        None \<Rightarrow> None
      | Some (mx, k1) \<Rightarrow> Some (k1, tmpl\<lparr>xt_speed := mx * of_nat (HZ * BENCH_SIZE div 1024)\<rparr> # ts0))"

primrec try_templates :: "nat \<Rightarrow> (nat \<Rightarrow> u64) \<Rightarrow> xor_block_template list \<Rightarrow> nat \<times> xor_block_template list \<Rightarrow>
    (nat \<times> xor_block_template list) option" where
  "try_templates HZ jiffies [] st = Some st"
| "try_templates HZ jiffies (t # ts) st =
     (case do_xor_speed HZ jiffies t st of None \<Rightarrow> None | Some st1 \<Rightarrow> try_templates HZ jiffies ts st1)"

text \<open>The walk over the list of templates, from its head.\<close>

definition pick_fastest :: "xor_block_template list \<Rightarrow> xor_block_template option" where
  "pick_fastest ts0 = (case ts0 of [] \<Rightarrow> None
     | f # _ \<Rightarrow> Some (foldl (\<lambda>fastest f. if sint (xt_speed f) > sint (xt_speed fastest) then f else fastest) f ts0))"

text \<open>The result, with the active template; a list of templates that is empty is a null pointer.\<close>

definition calibrate_xor_block :: "bool \<Rightarrow> nat \<Rightarrow> (nat \<Rightarrow> u64) \<Rightarrow> (xor_block_template \<Rightarrow> xor_block_template) option \<Rightarrow>
    xor_block_template list \<Rightarrow> (errno + xor_block_template) outcome" where
  "calibrate_xor_block pages HZ jiffies select templates =
     (if \<not> pages then Ret (Inl ENOMEM)
      else case try_templates HZ jiffies templates (0, []) of
        None \<Rightarrow> Hang
      | Some (k, ts0) \<Rightarrow>
          (case pick_fastest ts0 of
             None \<Rightarrow> Bug
           | Some f \<Rightarrow> Ret (Inr (case select of None \<Rightarrow> f | Some sel \<Rightarrow> sel f))))"

section \<open>Parity\<close>

text \<open>What the routines of a template promise: the first buffer is combined with all others.\<close>

definition xor_bufs :: "buf \<Rightarrow> buf \<Rightarrow> buf" where
  "xor_bufs a b = map2 (XOR) a b"

definition template_ok :: "xor_block_template \<Rightarrow> bool" where
  "template_ok t \<longleftrightarrow>
     (\<forall>n a b. length a = n \<and> length b = n \<longrightarrow> do_2 t n a b = xor_bufs a b) \<and>
     (\<forall>n a b c. length a = n \<and> length b = n \<and> length c = n \<longrightarrow> do_3 t n a b c = xor_bufs (xor_bufs a b) c) \<and>
     (\<forall>n a b c d. length a = n \<and> length b = n \<and> length c = n \<and> length d = n \<longrightarrow>
        do_4 t n a b c d = xor_bufs (xor_bufs (xor_bufs a b) c) d) \<and>
     (\<forall>n a b c d e. length a = n \<and> length b = n \<and> length c = n \<and> length d = n \<and> length e = n \<longrightarrow>
        do_5 t n a b c d e = xor_bufs (xor_bufs (xor_bufs (xor_bufs a b) c) d) e)"

definition combined :: "nat \<Rightarrow> nat" where
  "combined count = (if 2 \<le> count \<and> count \<le> 4 then count else 5)"

text \<open>
  \<open>xor_block\<close> on 2 to 5 buffers of one size leaves in the first the exclusive or of all of them. The
  number of buffers is not checked: for any other number, 0 and 1 included, it combines exactly five, and
  when there are fewer it reads past the end of the array.
\<close>

lemma xor_block_combines:
  assumes "template_ok t" "\<forall>b \<in> set bh. length b = n"
  shows "xor_block t count bh =
    (if combined count \<le> length bh then Ret (foldl xor_bufs (bh ! 0) (drop 1 (take (combined count) bh))) else Bug)"
proof (cases "combined count \<le> length bh")
  case False
  then show ?thesis by (auto simp: xor_block_def combined_def Let_def split: if_splits)
next
  case True
  then have len: "length (bh ! i) = n" if "i < combined count" for i using assms(2) that by simp
  have c: "combined count = 2 \<or> combined count = 3 \<or> combined count = 4 \<or> combined count = 5"
    by (auto simp: combined_def)
  have tk: "drop 1 (take (combined count) bh) = map (\<lambda>i. bh ! i) [1..<combined count]"
    using True by (intro nth_equalityI) simp_all
  have upt: "[1..<2] = [1 :: nat]" "[1..<3] = [1, 2 :: nat]" "[1..<4] = [1, 2, 3 :: nat]" "[1..<5] = [1, 2, 3, 4 :: nat]"
    by (simp_all add: upt_rec)
  have ok2: "do_2 t n a b = xor_bufs a b" if "length a = n" "length b = n" for a b
    by (rule assms(1) [unfolded template_ok_def, THEN conjunct1, rule_format]) (use that in simp)
  have ok3: "do_3 t n a b c = xor_bufs (xor_bufs a b) c" if "length a = n" "length b = n" "length c = n" for a b c
    by (rule assms(1) [unfolded template_ok_def, THEN conjunct2, THEN conjunct1, rule_format]) (use that in simp)
  have ok4: "do_4 t n a b c d = xor_bufs (xor_bufs (xor_bufs a b) c) d" if "length a = n" "length b = n" "length c = n" "length d = n" for a b c d
    by (rule assms(1) [unfolded template_ok_def, THEN conjunct2, THEN conjunct2, THEN conjunct1, rule_format]) (use that in simp)
  have ok5: "do_5 t n a b c d e = xor_bufs (xor_bufs (xor_bufs (xor_bufs a b) c) d) e"
    if "length a = n" "length b = n" "length c = n" "length d = n" "length e = n" for a b c d e
    by (rule assms(1) [unfolded template_ok_def, THEN conjunct2, THEN conjunct2, THEN conjunct2, rule_format]) (use that in simp)
  show ?thesis using True c len upt unfolding tk
    by (elim disjE) (auto simp: xor_block_def combined_def ok2 ok3 ok4 ok5 Let_def split: if_splits)
qed

definition plain_template :: xor_block_template where
  "plain_template = \<lparr>xt_name = ''plain'', xt_speed = 0, do_2 = (\<lambda>n. xor_bufs), do_3 = (\<lambda>n a b. xor_bufs (xor_bufs a b)),
     do_4 = (\<lambda>n a b c. xor_bufs (xor_bufs (xor_bufs a b) c)),
     do_5 = (\<lambda>n a b c d. xor_bufs (xor_bufs (xor_bufs (xor_bufs a b) c) d))\<rparr>"

lemma plain_template_ok: "template_ok plain_template"
  by (simp add: template_ok_def plain_template_def)

section \<open>Calibration\<close>

definition clock_moves :: "(nat \<Rightarrow> u64) \<Rightarrow> bool" where
  "clock_moves jiffies \<longleftrightarrow> (\<forall>k now. \<exists>j \<ge> k. jiffies j \<noteq> now)"

lemma count_passes_ends:
  assumes "j \<ge> k" "jiffies j \<noteq> now"
  shows "\<exists>r. count_passes jiffies now k count = Some r"
  using assms
proof (induction "j - k" arbitrary: k count)
  case 0
  then have "j = k" by simp
  then show ?case using 0 by (simp add: count_passes.simps)
next
  case (Suc x)
  show ?case
  proof (cases "jiffies k = now")
    case True
    then have "\<exists>r. count_passes jiffies now (k + 1) (count + 1) = Some r"
      using Suc.hyps(2) Suc.prems by (intro Suc.hyps(1)) simp_all
    then show ?thesis using True by (subst count_passes.simps) simp
  next
    case False
    then show ?thesis by (subst count_passes.simps) simp
  qed
qed

lemma speed_rounds_end: "clock_moves jiffies \<Longrightarrow> \<exists>r. speed_rounds n jiffies k mx = Some r"
proof (induction n arbitrary: k mx)
  case (Suc n)
  obtain j where "k + 1 \<le> j" "jiffies j \<noteq> jiffies k" using Suc.prems unfolding clock_moves_def by blast
  then obtain r where "count_passes jiffies (jiffies k) (k + 1) 0 = Some r"
    using count_passes_ends [of "k + 1" j jiffies "jiffies k" 0] by blast
  then show ?case using Suc by (cases r) auto
qed simp

definition measured :: "xor_block_template \<Rightarrow> xor_block_template \<Rightarrow> bool" where
  "measured t t' \<longleftrightarrow> (\<exists>v. t' = t\<lparr>xt_speed := v\<rparr>)"

lemma try_templates_ok:
  assumes "clock_moves jiffies"
  shows "\<exists>k1 ts1. try_templates HZ jiffies ts (k, ts0) = Some (k1, ts1 @ ts0) \<and> list_all2 measured (rev ts) ts1"
proof (induction ts arbitrary: k ts0)
  case (Cons t ts)
  obtain r where "speed_rounds 5 jiffies k 0 = Some r" using speed_rounds_end [OF assms] by blast
  then obtain k2 v where d: "do_xor_speed HZ jiffies t (k, ts0) = Some (k2, t\<lparr>xt_speed := v\<rparr> # ts0)"
    by (cases r) (auto simp: do_xor_speed_def)
  obtain k1 ts1 where "try_templates HZ jiffies ts (k2, t\<lparr>xt_speed := v\<rparr> # ts0) = Some (k1, ts1 @ t\<lparr>xt_speed := v\<rparr> # ts0)"
    "list_all2 measured (rev ts) ts1" using Cons.IH by blast
  then show ?case using d
    by (intro exI [of _ k1] exI [of _ "ts1 @ [t\<lparr>xt_speed := v\<rparr>]"]) (auto simp: measured_def [of t] intro!: list_all2_appendI)
qed simp

lemma foldl_fastest:
  defines "g \<equiv> \<lambda>fastest f. if sint (xt_speed f) > sint (xt_speed fastest) then f else fastest"
  shows "foldl g f ts \<in> insert f (set ts) \<and> (\<forall>h \<in> insert f (set ts). sint (xt_speed h) \<le> sint (xt_speed (foldl g f ts)))"
proof (induction ts rule: rev_induct)
  case Nil
  show ?case by simp
next
  case (snoc x xs)
  then show ?case by (auto simp: g_def) 
qed

text \<open>
  When the clock keeps moving, the calibration ends, has measured every template of the architecture, and
  makes the one with the highest measured speed active (before the architecture has its say).
\<close>

lemma calibration_picks_fastest:
  assumes "clock_moves jiffies" "templates \<noteq> []"
  shows "\<exists>ts1 f. list_all2 measured (rev templates) ts1 \<and> f \<in> set ts1 \<and> (\<forall>h \<in> set ts1. sint (xt_speed h) \<le> sint (xt_speed f)) \<and>
    calibrate_xor_block True HZ jiffies select templates = Ret (Inr (case select of None \<Rightarrow> f | Some sel \<Rightarrow> sel f))"
proof -
  obtain k1 ts1 where t: "try_templates HZ jiffies templates (0, []) = Some (k1, ts1)" "list_all2 measured (rev templates) ts1"
    using try_templates_ok [OF assms(1), of HZ templates 0 "[]"] by auto
  then have "ts1 \<noteq> []" using assms(2) by auto
  then obtain f0 fs where ts1: "ts1 = f0 # fs" by (cases ts1) auto
  define f where "f = foldl (\<lambda>fastest f. if sint (xt_speed f) > sint (xt_speed fastest) then f else fastest) f0 ts1"
  have "pick_fastest ts1 = Some f" by (simp add: pick_fastest_def ts1 f_def)
  moreover have "f \<in> set ts1 \<and> (\<forall>h \<in> set ts1. sint (xt_speed h) \<le> sint (xt_speed f))"
    using foldl_fastest [of f0 ts1] unfolding f_def [symmetric] by (auto simp: ts1)
  ultimately show ?thesis using t by (auto simp: calibrate_xor_block_def)
qed

lemma counting_clock: "clock_moves (\<lambda>k. of_nat k)"
proof -
  have "\<exists>j \<ge> k. of_nat j \<noteq> (now :: u64)" for k now
  proof (cases "of_nat k = now")
    case True
    then have "of_nat (k + 1) \<noteq> now" by simp
    then show ?thesis using le_add1 by blast
  qed auto
  then show ?thesis by (simp add: clock_moves_def)
qed

end
