(* ===== verification/Jradm.thy ===== *)
theory Jradm
  imports Main "HOL-Library.Char_ord"
begin

text \<open>
  The command line tool, \<^verbatim>\<open>src/tool/jradm\<close>: the options, the loop of \<open>main\<close> over what \<open>getopt_long\<close> returns, and
  the help it prints. The commands behind it, \<open>JCreate\<close> and \<open>JManage_run\<close>, are stubs that return 0 and
  \<open>main\<close> calls neither.

  \<open>getopt_long\<close> is the C library's: its results are a list of numbers, the character of a short option, 63
  (a question mark) for an option it does not know, and for a long option the value in its row of
  \<open>long_options\<close>.
\<close>

section \<open>The code\<close>

datatype special_options = AssumeClean | BitmapChunk | WriteBehind | ReAdd | NoDegraded | Sparc22 | BackupFile | HomeHost
  | AutoHomeHost | Symlinks | AutoDetect | Waitclean | DetailPlatform | KillSubarray | UpdateSubarray | IncrementalPath
  | NoSharing | HelpOptions | Brief

text \<open>The values: from 300 on by one, until \<open>HelpOptions\<close> starts again at 63.\<close>

primrec option_value :: "special_options \<Rightarrow> int" where
  "option_value AssumeClean = 300"
| "option_value BitmapChunk = 301"
| "option_value WriteBehind = 302"
| "option_value ReAdd = 303"
| "option_value NoDegraded = 304"
| "option_value Sparc22 = 305"
| "option_value BackupFile = 306"
| "option_value HomeHost = 307"
| "option_value AutoHomeHost = 308"
| "option_value Symlinks = 309"
| "option_value AutoDetect = 310"
| "option_value Waitclean = 311"
| "option_value DetailPlatform = 312"
| "option_value KillSubarray = 313"
| "option_value UpdateSubarray = 314"
| "option_value IncrementalPath = 315"
| "option_value NoSharing = 316"
| "option_value HelpOptions = 63"
| "option_value Brief = 64"

definition long_options :: "(string \<times> int) list" where
  "long_options = [(''create'', 0), (''help-options'', option_value HelpOptions)]"

datatype mode = CREATE | MANAGE

primrec mode_value :: "mode \<Rightarrow> nat" where
  "mode_value CREATE = 0"
| "mode_value MANAGE = 1"

datatype help_text = Help | Help_create | OptionHelp

definition mode_help :: "help_text list" where
  "mode_help = [Help, Help_create]"

definition chr :: "char \<Rightarrow> int" where
  "chr c = int (of_char c)"

text \<open>\<open>open_jmddev\<close> on the result of \<open>open\<close>, and the stubs.\<close>

definition open_jmddev :: "int \<Rightarrow> int" where
  "open_jmddev jmdfd = (if jmdfd < 0 then - 1 else jmdfd)"

definition JCreate :: int where "JCreate = 0"
definition JManage_run :: int where "JManage_run = 0"

text \<open>The loop. \<open>Inl ()\<close>: the version was printed and \<open>main\<close> returned.\<close>

fun option_loop :: "int list \<Rightarrow> nat \<times> nat \<Rightarrow> unit + nat \<times> nat" where
  "option_loop [] (print_help, md) = Inr (print_help, md)"
| "option_loop (opt # opts) (print_help, md) =
     (if opt = option_value HelpOptions then option_loop opts (2, md)
      else if opt = chr CHR ''h'' then option_loop opts (1, md)
      else if opt = chr CHR ''C'' then option_loop opts (print_help, mode_value CREATE)
      else if opt = chr CHR ''V'' then Inl ()
      else option_loop opts (print_help, md))"

datatype printed = Version | Text help_text | Nothing

definition jradm_main :: "int list \<Rightarrow> printed" where
  "jradm_main opts =
     (case option_loop opts (0, 0) of
        Inl _ \<Rightarrow> Version
      | Inr (print_help, md) \<Rightarrow>
          if print_help = 0 then Nothing
          else if print_help = 2 then Text OptionHelp else Text (mode_help ! md))"

section \<open>What is printed\<close>

lemma chr_values: "chr CHR ''h'' = 104" "chr CHR ''C'' = 67" "chr CHR ''V'' = 86" "chr CHR ''?'' = 63"
  by (simp_all add: chr_def)

text \<open>The options that count.\<close>

definition is_help :: "int \<Rightarrow> bool" where
  "is_help opt \<longleftrightarrow> opt = 63 \<or> opt = 104"

lemma option_loop_ok:
  "option_loop opts (h, md) =
     (if 86 \<in> set opts then Inl ()
      else Inr (if filter is_help opts = [] then h else if last (filter is_help opts) = 63 then 2 else 1,
                if 67 \<in> set opts then 0 else md))"
  by (induction opts arbitrary: h md) (auto simp: chr_values is_help_def)

text \<open>
  What \<open>jradm\<close> prints for every command line. A version option wins over all others. Else the last of the
  help options counts, and because \<open>HelpOptions\<close> has the number of the question mark, an option that
  \<open>getopt_long\<close> does not know counts as one: the tool then prints the help on options. The help on \<open>--create\<close> is
  never printed, as the mode is always 0.
\<close>

lemma jradm_main_output:
  "jradm_main opts =
     (if chr CHR ''V'' \<in> set opts then Version
      else if filter (\<lambda>x. x \<in> {chr CHR ''?'', chr CHR ''h''}) opts = [] then Nothing
      else if last (filter (\<lambda>x. x \<in> {chr CHR ''?'', chr CHR ''h''}) opts) = chr CHR ''?'' then Text OptionHelp
      else Text Help) \<and> jradm_main opts \<noteq> Text Help_create"
proof -
  have f: "(\<lambda>x. x \<in> {chr CHR ''?'', chr CHR ''h''}) = is_help" by (simp add: fun_eq_iff chr_values is_help_def)
  show ?thesis unfolding f by (simp add: jradm_main_def option_loop_ok chr_values mode_help_def)
qed

end
