(* ===== verification/Jrcpp.thy ===== *)
theory Jrcpp
  imports Kthread_Stop
begin

text \<open>
  The power-off protection scheme, \<^verbatim>\<open>src/attach/jrcpp\<close>: the module GC (\<^verbatim>\<open>GC_func.c\<close>), whose thread asks the module
  PDP to fill in a table of functions, and PDP (\<^verbatim>\<open>PDP_func.c\<close>), which has that function, listens for the
  power-down message of \<^verbatim>\<open>Simulate_Poweroff.c\<close> and has a thread that waits for it.

  The functions in the table are known by their names; those of GC and CM are stubs (\<open>gc_stub_result\<close>, \<open>cm_stub_result\<close>), and the
  modules CM, SI, RK and ST (\<^verbatim>\<open>CM_func.c\<close>, \<^verbatim>\<open>SI_func.c\<close>, \<^verbatim>\<open>RK_func.c\<close>, \<^verbatim>\<open>ST_func.c\<close>) do nothing when they are loaded. The answers of the
  allocators and of \<open>kthread_run\<close> are arguments. The threads of GC and PDP are steps of their own, to
  which the messages and the stopping of the modules come in between. A call through a pointer into a module that is not loaded is
  \<open>Bug\<close>, as is freeing memory twice.
\<close>

section \<open>The module GC\<close>

datatype kptr = Null | Live | Freed

record gc_module =
  GC_thread_tsk :: bool
  cfg_file :: kptr
  stripe :: kptr
  st_cm_rinfo :: kptr

definition gc_start :: gc_module where
  "gc_start = \<lparr>GC_thread_tsk = False, cfg_file = Null, stripe = Null, st_cm_rinfo = Null\<rparr>"

definition GC_main_init :: "bool \<Rightarrow> bool \<Rightarrow> bool \<Rightarrow> bool \<Rightarrow> gc_module \<Rightarrow> errno option \<times> gc_module" where
  "GC_main_init thread cfg str st g =
     (if \<not> thread then (Some ENOMEM, g)
      else let g1 = g\<lparr>GC_thread_tsk := True\<rparr> in
        if \<not> cfg then (Some ENOMEM, g1\<lparr>cfg_file := Null, GC_thread_tsk := False\<rparr>)
        else let g2 = g1\<lparr>cfg_file := Live\<rparr> in
          if \<not> str then (Some ENOMEM, g2\<lparr>stripe := Null, cfg_file := Freed, GC_thread_tsk := False\<rparr>)
          else let g3 = g2\<lparr>stripe := Live\<rparr> in
            if \<not> st then (Some ENOMEM, g3\<lparr>st_cm_rinfo := Null, stripe := Freed, cfg_file := Freed, GC_thread_tsk := False\<rparr>)
            else (None, g3\<lparr>st_cm_rinfo := Live\<rparr>))"

definition kfree :: "kptr \<Rightarrow> kptr outcome" where
  "kfree p = (case p of Null \<Rightarrow> Ret Null | Live \<Rightarrow> Ret Freed | Freed \<Rightarrow> Bug)"

definition GC_main_exit :: "gc_module \<Rightarrow> gc_module outcome" where
  "GC_main_exit g =
     (let g1 = g\<lparr>GC_thread_tsk := False\<rparr> in
      bind_outcome (kfree (st_cm_rinfo g1)) (\<lambda>p. bind_outcome (kfree (stripe g1)) (\<lambda>q. bind_outcome (kfree (cfg_file g1)) (\<lambda>r.
        Ret (g1\<lparr>st_cm_rinfo := p, stripe := q, cfg_file := r\<rparr>)))))"

section \<open>The module PDP\<close>

record func_to_pdp =
  pfnGCPauseWork :: "string option"
  pfnGCGetCfg :: "string option"
  pfnGCRecoveryCfg :: "string option"
  pfnCMPauseWork :: "string option"
  pfnCMGetSlice :: "string option"
  pfnCMGetQueSpinlock :: "string option"
  pfnCMGetQueue :: "string option"
  pfnCMRecoveryOneStripe :: "string option"
  pfnCMRecoveryOneStCMRinfo :: "string option"

definition func_zero :: func_to_pdp where
  "func_zero = \<lparr>pfnGCPauseWork = None, pfnGCGetCfg = None, pfnGCRecoveryCfg = None, pfnCMPauseWork = None, pfnCMGetSlice = None,
     pfnCMGetQueSpinlock = None, pfnCMGetQueue = None, pfnCMRecoveryOneStripe = None, pfnCMRecoveryOneStCMRinfo = None\<rparr>"

definition pfnSetFunc :: "func_to_pdp \<Rightarrow> func_to_pdp" where
  "pfnSetFunc f = f\<lparr>pfnGCPauseWork := Some ''_pfnGCPauseWork'', pfnGCGetCfg := Some ''_pfnGCGetCfg'',
     pfnGCRecoveryCfg := Some ''_pfnGCRecoveryCfg'', pfnCMPauseWork := Some ''_pfnCMPauseWork'', pfnCMGetSlice := Some ''_pfnCMGetSlice'',
     pfnCMGetQueSpinlock := Some ''_pfnCMGetQueSpinlock'', pfnCMGetQueue := Some ''_pfnCMGetQueue'',
     pfnCMRecoveryOneStripe := Some ''_pfnCMRecoveryOneStripe'', pfnCMRecoveryOneStCMRinfo := Some ''_pfnCMRecoveryOneStCMRinfo''\<rparr>"

text \<open>
  \<open>pfunc_to_pdp\<close> and \<open>pfunc_from_pdp\<close> belong to GC; \<open>from_pdp\<close> says that the second points into PDP.
  \<open>listening\<close> says that PDP's block is on the chain of notifiers.
\<close>

record pdp_state =
  pdp_loaded :: bool
  power_down_tsk :: bool
  listening :: bool
  to_pdp :: "func_to_pdp option"
  from_pdp :: bool
  power_down :: bool

definition pdp_start :: pdp_state where
  "pdp_start = \<lparr>pdp_loaded = False, power_down_tsk = False, listening = False, to_pdp = None, from_pdp = False, power_down = False\<rparr>"

text \<open>A module whose initialisation fails is not loaded.\<close>

definition PDP_main_init :: "bool \<Rightarrow> bool \<Rightarrow> pdp_state \<Rightarrow> errno option \<times> pdp_state" where
  "PDP_main_init thread mem p =
     (if \<not> thread then (Some ENOMEM, p\<lparr>pdp_loaded := False\<rparr>)
      else let p1 = p\<lparr>power_down_tsk := True, listening := True\<rparr> in
        if \<not> mem then (Some ENOMEM, p1\<lparr>to_pdp := None, power_down_tsk := False, pdp_loaded := False\<rparr>)
        else (None, p1\<lparr>to_pdp := Some func_zero, from_pdp := True, pdp_loaded := True\<rparr>))"

definition PDP_main_exit :: "pdp_state \<Rightarrow> pdp_state" where
  "PDP_main_exit p = p\<lparr>listening := False, power_down_tsk := False, to_pdp := None, pdp_loaded := False\<rparr>"

definition POWERDOWN_NOTIFIER :: nat where "POWERDOWN_NOTIFIER = 0xCAC"

definition shutdown_event :: "nat \<Rightarrow> pdp_state \<Rightarrow> pdp_state" where
  "shutdown_event event p = (if POWERDOWN_NOTIFIER = event then p\<lparr>power_down := True\<rparr> else p)"

definition power_down_message :: "nat \<Rightarrow> pdp_state \<Rightarrow> pdp_state outcome" where
  "power_down_message val p =
     (if \<not> listening p then Ret p else if \<not> pdp_loaded p then Bug else Ret (shutdown_event val p))"

text \<open>\<open>Simulate_Poweroff_init\<close> sends the message.\<close>

definition Simulate_Poweroff_init :: "pdp_state \<Rightarrow> pdp_state outcome" where
  "Simulate_Poweroff_init p = power_down_message 0xCAC p"

text \<open>
  One round of \<open>GC_do_thread\<close>. That PDP is not there makes it only give up the processor; it then calls
  through the pointer all the same. Nothing in the source sets \<open>flag\<close>.
\<close>

definition gc_round :: "int \<Rightarrow> pdp_state \<Rightarrow> pdp_state outcome" where
  "gc_round flag p =
     (if flag \<noteq> 1 then Ret p
      else if \<not> from_pdp p \<or> \<not> pdp_loaded p then Bug
      else case to_pdp p of None \<Rightarrow> Bug | Some f \<Rightarrow> Ret (p\<lparr>to_pdp := Some (pfnSetFunc f)\<rparr>))"

section \<open>The stubs\<close>

text \<open>What the functions of GC and CM answer: a status, a null pointer, or a lock nobody initialised.\<close>

datatype stub_value = Status int | Null_pointer | Raw_lock

definition gc_stub_result :: "string \<Rightarrow> stub_value option" where
  "gc_stub_result f =
     (if f \<in> {''_pfnGCPauseWork'', ''_pfnGCRecoveryCfg''} then Some (Status 0)
      else if f = ''_pfnGCGetCfg'' then Some Null_pointer else None)"

definition cm_stub_result :: "string \<Rightarrow> stub_value option" where
  "cm_stub_result f =
     (if f \<in> {''_pfnCMPauseWork'', ''_pfnCMRecoveryOneStripe'', ''_pfnCMRecoveryOneStCMRinfo''} then Some (Status 0)
      else if f \<in> {''_pfnCMGetSlice'', ''_pfnCMGetQueue''} then Some Null_pointer
      else if f = ''_pfnCMGetQueSpinlock'' then Some Raw_lock else None)"

definition pfnCheckStatus :: int where "pfnCheckStatus = 0"

datatype empty_module = CM | RK | SI | ST

definition empty_main_init :: "empty_module \<Rightarrow> string \<times> int" where
  "empty_main_init m = (case m of CM \<Rightarrow> '' In CM ... '' | RK \<Rightarrow> '' In RK ... '' | SI \<Rightarrow> '' In SI ... '' | ST \<Rightarrow> '' In ST ... '', 0)"

section \<open>The thread of PDP\<close>

datatype pd_pc = Pd_Begin | Pd_Test | Pd_Wait | Pd_Woken | Pd_Returned

record pd_task =
  pd_pc :: pd_pc
  pd_queue :: bool
  pd_flag :: bool
  pd_signal :: bool
  pd_stop :: bool
  pd_prints :: nat
  pd_owed :: bool

text \<open>
  \<open>pd_flag\<close> is the variable \<open>power_down\<close>, \<open>pd_queue\<close> says that the wait queue is initialised; \<open>pd_owed\<close>, which
  the code does not have, says that a message came after the last line the thread printed.
\<close>

definition power_down_thread :: "pd_task \<Rightarrow> pd_task option" where
  "power_down_thread t =
     (case pd_pc t of
        Pd_Begin \<Rightarrow> Some (t\<lparr>pd_queue := True, pd_pc := Pd_Test\<rparr>)
      | Pd_Test \<Rightarrow> Some (t\<lparr>pd_pc := if pd_stop t then Pd_Returned else Pd_Wait\<rparr>)
      | Pd_Wait \<Rightarrow> if pd_flag t \<or> pd_signal t then Some (t\<lparr>pd_pc := Pd_Woken\<rparr>) else None
      | Pd_Woken \<Rightarrow> Some (if pd_stop t then t\<lparr>pd_flag := False, pd_pc := Pd_Test\<rparr>
          else t\<lparr>pd_flag := False, pd_prints := pd_prints t + 1, pd_owed := False, pd_pc := Pd_Test\<rparr>)
      | Pd_Returned \<Rightarrow> None)"

text \<open>A message wakes a queue that the thread may not have initialised yet.\<close>

definition pd_message :: "pd_task \<Rightarrow> pd_task outcome" where
  "pd_message t = (if \<not> pd_queue t then Bug else Ret (t\<lparr>pd_flag := True, pd_owed := True\<rparr>))"

inductive pd_step :: "pd_task \<Rightarrow> pd_task \<Rightarrow> bool" where
  own: "power_down_thread t = Some u \<Longrightarrow> pd_step t u"
| message: "pd_message t = Ret u \<Longrightarrow> pd_step t u"
| send_sig: "pd_step t (t\<lparr>pd_signal := True\<rparr>)"
| kthread_stop: "pd_signal t \<Longrightarrow> pd_step t (t\<lparr>pd_stop := True\<rparr>)"

inductive_cases pd_stepE: "pd_step t u"

definition pd_start :: pd_task where
  "pd_start = \<lparr>pd_pc = Pd_Begin, pd_queue = False, pd_flag = False, pd_signal = False, pd_stop = False, pd_prints = 0, pd_owed = False\<rparr>"

inductive pd_reach :: "pd_task \<Rightarrow> bool" where
  start: "pd_reach pd_start"
| step: "pd_reach t \<Longrightarrow> pd_step t u \<Longrightarrow> pd_reach u"

abbreviation pd_returned :: "pd_task \<Rightarrow> bool" where "pd_returned t \<equiv> pd_pc t = Pd_Returned"

definition pd_leaving :: "pd_task \<Rightarrow> bool" where
  "pd_leaving t \<longleftrightarrow> pd_stop t \<and> pd_signal t"

definition pd_left :: "pd_task \<Rightarrow> nat" where
  "pd_left t = (case pd_pc t of Pd_Wait \<Rightarrow> 3 | Pd_Begin \<Rightarrow> 2 | Pd_Woken \<Rightarrow> 2 | Pd_Test \<Rightarrow> 1 | Pd_Returned \<Rightarrow> 0)"

interpretation pd: stoppable_thread power_down_thread pd_leaving pd_returned pd_left
proof
  fix t assume "pd_leaving t" "\<not> pd_returned t"
  then show "\<exists>u. power_down_thread t = Some u \<and> pd_leaving u \<and> pd_left u < pd_left t"
    by (cases "pd_pc t") (simp_all add: pd_leaving_def pd_left_def power_down_thread_def)
qed

definition pd_inv :: "pd_task \<Rightarrow> bool" where
  "pd_inv t \<longleftrightarrow> (pd_owed t \<longrightarrow> pd_flag t \<or> pd_stop t) \<and> (pd_stop t \<longrightarrow> pd_signal t) \<and>
     (pd_pc t = Pd_Begin \<longrightarrow> \<not> pd_queue t) \<and> (pd_pc t \<noteq> Pd_Begin \<longrightarrow> pd_queue t) \<and> (pd_returned t \<longrightarrow> pd_stop t)"

lemma pd_inv_step: "pd_step t u \<Longrightarrow> pd_inv t \<Longrightarrow> pd_inv u"
  by (erule pd_stepE)
     (auto simp: pd_inv_def power_down_thread_def pd_message_def split: pd_pc.splits if_splits)

lemma pd_reach_inv: "pd_reach t \<Longrightarrow> pd_inv t"
proof (induction rule: pd_reach.induct)
  case start
  show ?case by (simp add: pd_start_def pd_inv_def)
qed (rule pd_inv_step)

text \<open>
  In every interleaving a message is answered: unless the module is being unloaded, the thread prints after
  at most four steps of its own. Unloading never waits for ever, unlike that of \<^verbatim>\<open>jmd_mem.c\<close>, because the
  thread never flushes the signal. But until the thread has begun a message traps, and
  a signal that does not come from the unloading makes the thread print for ever.
\<close>

lemma pd_message_answered:
  assumes "pd_reach t" "pd_owed t" "\<not> pd_stop t"
  shows "\<exists>n \<le> 4. \<exists>u. own_steps power_down_thread n t = Some u \<and> pd_prints u = pd_prints t + 1 \<and> \<not> pd_owed u"
proof -
  note i = pd_reach_inv [OF assms(1), unfolded pd_inv_def]
  show ?thesis
  proof (cases "pd_pc t")
    case Pd_Begin
    then show ?thesis using i assms(2,3)
      by (intro exI [of _ 4]) (simp add: numeral_eq_Suc power_down_thread_def)
  next
    case Pd_Test
    then show ?thesis using i assms(2,3)
      by (intro exI [of _ 3]) (simp add: numeral_eq_Suc power_down_thread_def)
  next
    case Pd_Wait
    then show ?thesis using i assms(2,3)
      by (intro exI [of _ 2]) (simp add: numeral_eq_Suc power_down_thread_def)
  next
    case Pd_Woken
    then show ?thesis using i assms(2,3)
      by (intro exI [of _ 1]) (simp add: power_down_thread_def)
  next
    case Pd_Returned
    then show ?thesis using i assms(3) by simp
  qed
qed

lemma pd_exit_returns:
  assumes "pd_reach t" "pd_stop t"
  shows "stop_returns power_down_thread pd_returned t"
  using pd.returns [of t] pd_reach_inv [OF assms(1)] assms(2) by (simp add: pd_leaving_def pd_inv_def)

lemma pd_message_early: "pd_reach t \<Longrightarrow> pd_message t = Bug \<longleftrightarrow> pd_pc t = Pd_Begin"
  using pd_reach_inv [of t] by (auto simp: pd_message_def pd_inv_def)

lemma pd_signal_spins:
  assumes "pd_pc t = Pd_Test" "pd_signal t" "\<not> pd_stop t"
  shows "\<exists>u. own_steps power_down_thread (3 * n) t = Some u \<and> pd_prints u = pd_prints t + n"
  using assms
proof (induction n arbitrary: t)
  case (Suc n)
  let ?u = "t\<lparr>pd_flag := False, pd_prints := pd_prints t + 1, pd_owed := False, pd_pc := Pd_Test\<rparr>"
  have "own_steps power_down_thread (3 * Suc n) t = own_steps power_down_thread (3 * n) ?u"
    using Suc.prems by (simp add: numeral_3_eq_3 power_down_thread_def)
  then show ?case using Suc.IH [of ?u] Suc.prems by simp
qed simp

section \<open>The thread of GC\<close>

text \<open>It never sleeps, it gives up the processor; a round that traps is its last step.\<close>

datatype gc_pc = Gc_Test | Gc_Body | Gc_Returned

record gc_task =
  gc_pc :: gc_pc
  gc_stop :: bool
  gc_pdp :: pdp_state

definition GC_do_thread :: "int \<Rightarrow> gc_task \<Rightarrow> gc_task option" where
  "GC_do_thread flag t =
     (case gc_pc t of
        Gc_Test \<Rightarrow> Some (t\<lparr>gc_pc := if gc_stop t then Gc_Returned else Gc_Body\<rparr>)
      | Gc_Body \<Rightarrow> (case gc_round flag (gc_pdp t) of Ret p \<Rightarrow> Some (t\<lparr>gc_pdp := p, gc_pc := Gc_Test\<rparr>) | _ \<Rightarrow> None)
      | Gc_Returned \<Rightarrow> None)"

abbreviation gc_returned :: "gc_task \<Rightarrow> bool" where "gc_returned t \<equiv> gc_pc t = Gc_Returned"

definition gc_leaving :: "int \<Rightarrow> gc_task \<Rightarrow> bool" where
  "gc_leaving flag t \<longleftrightarrow> gc_stop t \<and> (gc_pc t = Gc_Body \<longrightarrow> gc_round flag (gc_pdp t) \<noteq> Bug)"

definition gc_left :: "gc_task \<Rightarrow> nat" where
  "gc_left t = (case gc_pc t of Gc_Body \<Rightarrow> 2 | Gc_Test \<Rightarrow> 1 | Gc_Returned \<Rightarrow> 0)"

lemma gc_round_cases: "gc_round flag p = Bug \<or> (\<exists>p'. gc_round flag p = Ret p')"
  by (auto simp: gc_round_def split: option.splits)

interpretation gc: stoppable_thread "GC_do_thread flag" "gc_leaving flag" gc_returned gc_left for flag
proof
  fix t assume "gc_leaving flag t" "\<not> gc_returned t"
  then show "\<exists>u. GC_do_thread flag t = Some u \<and> gc_leaving flag u \<and> gc_left u < gc_left t"
    using gc_round_cases [of flag "gc_pdp t"]
    by (cases "gc_pc t") (auto simp: gc_leaving_def gc_left_def GC_do_thread_def)
qed

text \<open>As nothing sets \<open>flag\<close>, stopping GC always comes back; with the flag set and PDP unloaded it does not.\<close>

lemma gc_exit_returns: "gc_stop t \<Longrightarrow> flag \<noteq> 1 \<Longrightarrow> stop_returns (GC_do_thread flag) gc_returned t"
  by (rule gc.returns) (simp add: gc_leaving_def gc_round_def)

lemma gc_exit_hangs:
  assumes "gc_pc t = Gc_Body" "gc_pdp t = PDP_main_exit p"
  shows "\<not> stop_returns (GC_do_thread 1) gc_returned t"
  using assms by (simp add: stop_returns_asleep GC_do_thread_def gc_round_def PDP_main_exit_def)

section \<open>Properties\<close>

text \<open>
  \<open>GC_main_init\<close> is all or nothing: it succeeds iff all it needs can be made, a failure leaves neither
  thread nor memory behind, and after a success \<open>GC_main_exit\<close> stops the thread and frees each piece once.
\<close>

lemma gc_init_exit:
  "(let (e, g) = GC_main_init thread cfg str st gc_start in
     (e = None \<longleftrightarrow> thread \<and> cfg \<and> str \<and> st) \<and>
     (if e = None then GC_thread_tsk g \<and>
        GC_main_exit g = Ret \<lparr>GC_thread_tsk = False, cfg_file = Freed, stripe = Freed, st_cm_rinfo = Freed\<rparr>
      else \<not> GC_thread_tsk g \<and> Live \<notin> {cfg_file g, stripe g, st_cm_rinfo g}))"
  by (simp add: GC_main_init_def gc_start_def GC_main_exit_def kfree_def Let_def)

text \<open>All that GC's round puts into the table is a stub.\<close>

lemma table_of_stubs:
  "\<forall>g \<in> {pfnGCPauseWork, pfnGCGetCfg, pfnGCRecoveryCfg}. \<exists>n. g (pfnSetFunc f) = Some n \<and> gc_stub_result n \<noteq> None"
  "\<forall>g \<in> {pfnCMPauseWork, pfnCMGetSlice, pfnCMGetQueSpinlock, pfnCMGetQueue, pfnCMRecoveryOneStripe, pfnCMRecoveryOneStCMRinfo}.
     \<exists>n. g (pfnSetFunc f) = Some n \<and> cm_stub_result n \<noteq> None"
  by (simp_all add: pfnSetFunc_def gc_stub_result_def cm_stub_result_def)



end
