(* ===== verification/Nonstripe_IO.thy ===== *)
theory Nonstripe_IO
  imports Stripe_Bio
begin

text \<open>
  The request path that bypasses the stripe cache, \<^verbatim>\<open>src/src/jraid5.c\<close>: \<open>readwrite_prepare\<close>,
  \<open>prepare_endio\<close>, \<open>io_end_bio\<close>, \<open>submit_readwrite\<close>, \<open>non_stripe_write\<close>, \<open>non_stripe_read\<close> and
  \<open>_jraid5_make_request\<close>.

  A segment of a bio is the page it lies in, with a length and an offset. The page allocator and
  the bio allocator are arguments: what the \<open>n\<close>-th new page holds, if there is one, and whether the
  \<open>n\<close>-th bio can be had. A request that was submitted carries the contents its page had then (the code
  frees the page right after). Copying outside a page is \<open>Bug\<close>.
\<close>

unbundle bit_operations_syntax

section \<open>The code\<close>

definition PAGE_SECTORS :: nat where "PAGE_SECTORS = 8"

record nio_env =
  ne_page :: "nat \<Rightarrow> u8 list option"
  ne_bio :: "nat \<Rightarrow> bool"

record nio_req =
  nr_write :: bool
  nr_member :: nat
  nr_sector :: sector_t
  nr_page :: "u8 list"

record nio =
  nio_pages :: nat
  nio_bios :: nat
  nio_unsent :: nat
  nio_sent :: "nio_req list"

record segment =
  sg_page :: "u8 list"
  sg_len :: u32
  sg_off :: u32

text \<open>The sector of the page, the 10 GiB limit, and a bio that is dropped behind it.\<close>

definition submit_readwrite :: "nio_env \<Rightarrow> bool \<Rightarrow> nat \<Rightarrow> u8 list \<Rightarrow> sector_t \<Rightarrow> nio \<Rightarrow> errno option \<times> nio" where
  "submit_readwrite ne w i pg sct io =
     (let io1 = io\<lparr>nio_bios := nio_bios io + 1\<rparr>; s = sct div of_nat PAGE_SECTORS * of_nat PAGE_SECTORS in
      if \<not> ne_bio ne (nio_bios io) then (Some ENOMEM, io1)
      else if s \<ge> 20971520 then (None, io1\<lparr>nio_unsent := nio_unsent io1 + 1\<rparr>)
      else (None, io1\<lparr>nio_sent := nio_sent io1 @
              [\<lparr>nr_write = w, nr_member = i, nr_sector = s, nr_page = pg\<rparr>]\<rparr>))"

text \<open>Offset in the page, the part that lies in the first page, and the number of pages.\<close>

definition io_offset :: "sector_t \<Rightarrow> u32" where
  "io_offset sct = ucast (push_bit 9 (sct AND of_nat (PAGE_SECTORS - 1)))"

definition io_copy :: "u32 \<Rightarrow> u32 \<Rightarrow> u32" where
  "io_copy len offset = min len (of_nat PAGE_SIZE - offset)"

definition io_nr :: "u32 \<Rightarrow> u32 \<Rightarrow> nat" where
  "io_nr len offset = (if len > of_nat PAGE_SIZE - offset then 2 else 1)"

definition io_sectors :: "u32 \<Rightarrow> sector_t" where
  "io_sectors copy = scast (ucast (drop_bit 9 copy) :: u8)"

primrec write_parts :: "nio_env \<Rightarrow> nat \<Rightarrow> u8 list \<Rightarrow> u32 \<Rightarrow> nat list \<Rightarrow> u32 \<Rightarrow> u32 \<Rightarrow> nat \<Rightarrow> sector_t \<Rightarrow> nio \<Rightarrow>
    (errno option \<times> nio) outcome" where
  "write_parts ne i pg len [] copy offset src sct io = Ret (None, io)"
| "write_parts ne i pg len (k # ks) copy offset src sct io =
     (let io1 = io\<lparr>nio_pages := nio_pages io + 1\<rparr>; src1 = src + unat (of_nat k * (len - copy)) in
      case ne_page ne (nio_pages io) of
        None \<Rightarrow> Ret (Some ENOMEM, io1)
      | Some new \<Rightarrow>
          if unat offset + unat copy > length new \<or> src1 + unat copy > length pg then Bug
          else
            let new1 = memcpy new (int (unat offset)) pg (int src1) (int (unat copy));
                (_, io2) = submit_readwrite ne True i new1 sct io1
            in write_parts ne i pg len ks (len - copy) 0 src1 (sct + io_sectors copy) io2)"

definition non_stripe_write :: "nio_env \<Rightarrow> nat \<Rightarrow> u8 list \<Rightarrow> u32 \<Rightarrow> u32 \<Rightarrow> sector_t \<Rightarrow> nio \<Rightarrow>
    (errno option \<times> nio) outcome" where
  "non_stripe_write ne i pg len off sct io =
     (let offset = io_offset sct
      in write_parts ne i pg len [0..<io_nr len offset] (io_copy len offset) offset (unat off) sct io)"

text \<open>The copy of a read follows its submission at once, before the data can be there.\<close>

primrec read_parts :: "nio_env \<Rightarrow> nat \<Rightarrow> u32 \<Rightarrow> nat list \<Rightarrow> u32 \<Rightarrow> u32 \<Rightarrow> nat \<Rightarrow> sector_t \<Rightarrow> u8 list \<Rightarrow> nio \<Rightarrow>
    (errno option \<times> u8 list \<times> nio) outcome" where
  "read_parts ne i len [] copy offset dst sct pg io = Ret (None, pg, io)"
| "read_parts ne i len (k # ks) copy offset dst sct pg io =
     (let io1 = io\<lparr>nio_pages := nio_pages io + 1\<rparr>; dst1 = dst + unat (of_nat k * (len - copy)) in
      case ne_page ne (nio_pages io) of
        None \<Rightarrow> Ret (Some ENOMEM, pg, io1)
      | Some new \<Rightarrow>
          let (_, io2) = submit_readwrite ne False i new sct io1 in
          if unat offset + unat copy > length new \<or> dst1 + unat copy > length pg then Bug
          else
            let pg1 = memcpy pg (int dst1) new (int (unat offset)) (int (unat copy))
            in read_parts ne i len ks (len - copy) 0 dst1 (sct + io_sectors copy) pg1 io2)"

definition non_stripe_read :: "nio_env \<Rightarrow> nat \<Rightarrow> u8 list \<Rightarrow> u32 \<Rightarrow> u32 \<Rightarrow> sector_t \<Rightarrow> nio \<Rightarrow>
    (errno option \<times> u8 list \<times> nio) outcome" where
  "non_stripe_read ne i pg len off sct io =
     (let offset = io_offset sct
      in read_parts ne i len [0..<io_nr len offset] (io_copy len offset) offset (unat off) sct pg io)"

text \<open>
  \<open>_jraid5_make_request\<close>: all segments go to the first member. The direction \<open>rw\<close> is a variable the
  code never sets, and an argument here. The bio is ended with status 0 whatever happened.
\<close>

primrec nonstripe_segs :: "nio_env \<Rightarrow> bool \<Rightarrow> nat \<Rightarrow> segment list \<Rightarrow> sector_t \<Rightarrow> nio \<Rightarrow>
    (segment list \<times> nio) outcome" where
  "nonstripe_segs ne w i [] sct io = Ret ([], io)"
| "nonstripe_segs ne w i (sg # sgs) sct io =
     bind_outcome (if w then bind_outcome (non_stripe_write ne i (sg_page sg) (sg_len sg) (sg_off sg) sct io)
                          (\<lambda>(e, io1). Ret (e, sg_page sg, io1))
                   else non_stripe_read ne i (sg_page sg) (sg_len sg) (sg_off sg) sct io) (\<lambda>(e, pg, io1).
       if e \<noteq> None then Ret (sg\<lparr>sg_page := pg\<rparr> # sgs, io1)
       else bind_outcome (nonstripe_segs ne w i sgs (sct + ucast (drop_bit 9 (sg_len sg))) io1)
              (\<lambda>(sgs1, io2). Ret (sg\<lparr>sg_page := pg\<rparr> # sgs1, io2)))"

definition jraid5_make_request_nonstripe :: "nio_env \<Rightarrow> bool \<Rightarrow> nat list \<Rightarrow> segment list \<Rightarrow> sector_t \<Rightarrow> nio \<Rightarrow>
    (int \<times> segment list \<times> nio) outcome" where
  "jraid5_make_request_nonstripe ne w members sgs sct io =
     (case members of
        [] \<Rightarrow> Ret (0, sgs, io)
      | i # _ \<Rightarrow> bind_outcome (nonstripe_segs ne w i sgs sct io) (\<lambda>(sgs1, io1). Ret (0, sgs1, io1)))"

text \<open>The references \<open>readwrite_prepare\<close> takes on the bio, and their release by \<open>prepare_endio\<close>.\<close>

primrec prepare_parts :: "u32 \<Rightarrow> nat \<Rightarrow> u32 \<Rightarrow> sector_t \<Rightarrow> int \<Rightarrow> sector_t \<times> int" where
  "prepare_parts len 0 copy sct cnt = (sct, cnt)"
| "prepare_parts len (Suc n) copy sct cnt =
     prepare_parts len n (len - copy) (sct + ucast (drop_bit 9 copy)) (cnt + 1)"

primrec prepare_segs :: "segment list \<Rightarrow> sector_t \<Rightarrow> int \<Rightarrow> int" where
  "prepare_segs [] sct cnt = cnt"
| "prepare_segs (sg # sgs) sct cnt =
     (let offset = io_offset sct;
          (sector1, cnt1) = prepare_parts (sg_len sg) (io_nr (sg_len sg) offset) (io_copy (sg_len sg) offset) sct cnt
      in prepare_segs sgs (sector1 + ucast (drop_bit 9 (sg_len sg))) cnt1)"

definition readwrite_prepare :: "segment list \<Rightarrow> sector_t \<Rightarrow> int \<Rightarrow> int" where
  "readwrite_prepare sgs sct cnt = prepare_segs sgs sct cnt + 1"

definition prepare_endio :: "int \<Rightarrow> bool \<times> int" where
  "prepare_endio cnt = (cnt - 1 = 1, cnt - 1)"

text \<open>\<open>io_end_bio\<close>: whether the bio's reference is dropped.\<close>

definition io_end_bio :: "bool \<Rightarrow> int \<Rightarrow> bool" where
  "io_end_bio uptodate err = (uptodate \<or> err \<noteq> 0)"

section \<open>One segment\<close>

lemma io_offset_nat: "unat (io_offset sct) = unat sct mod 8 * 512"
proof -
  have m: "of_nat (PAGE_SECTORS - 1) = (mask 3 :: u64)" by (simp add: PAGE_SECTORS_def mask_eq_exp_minus_1)
  have l: "unat sct mod 8 * 512 < 4096" using mod_less_divisor [of 8 "unat sct"] by simp
  have "unat (push_bit 9 (take_bit 3 sct)) = unat sct mod 8 * 512"
    unfolding unsigned_push_bit_eq unsigned_take_bit_eq
    unfolding push_bit_eq_mult using l by (subst take_bit_nat_eq_self) (simp_all add: take_bit_eq_mod)
  then show ?thesis using l unfolding io_offset_def m take_bit_eq_mask [symmetric]
    by (subst unat_ucast_small) simp_all
qed

lemma io_sizes:
  assumes "unat len \<le> PAGE_SIZE" and q_def: "q = unat sct mod 8 * 512"
  shows "io_nr len (io_offset sct) = (if unat len + q > PAGE_SIZE then 2 else 1)"
    "unat (io_copy len (io_offset sct)) = min (unat len) (PAGE_SIZE - q)"
    "unat (len - io_copy len (io_offset sct)) = unat len - min (unat len) (PAGE_SIZE - q)"
proof -
  have qs: "unat (io_offset sct) = q" "q < PAGE_SIZE" unfolding q_def
    using mod_less_divisor [of 8 "unat sct"] by (simp_all add: io_offset_nat PAGE_SIZE_def)
  have "io_offset sct \<le> of_nat PAGE_SIZE" using qs by (simp add: word_le_nat_alt PAGE_SIZE_def)
  then have d: "unat (of_nat PAGE_SIZE - io_offset sct) = PAGE_SIZE - q"
    using qs(1) by (simp add: unat_sub_if' word_le_nat_alt PAGE_SIZE_def)
  then show "io_nr len (io_offset sct) = (if unat len + q > PAGE_SIZE then 2 else 1)"
    using qs(2) by (auto simp: io_nr_def word_less_nat_alt)
  show c: "unat (io_copy len (io_offset sct)) = min (unat len) (PAGE_SIZE - q)"
    unfolding io_copy_def using d by (auto simp: min_def word_le_nat_alt)
  then show "unat (len - io_copy len (io_offset sct)) = unat len - min (unat len) (PAGE_SIZE - q)"
    by (simp add: unat_sub_if')
qed

text \<open>A member's bytes after a list of requests was carried out.\<close>

definition apply_req :: "nio_req \<Rightarrow> (nat \<Rightarrow> u8) \<Rightarrow> nat \<Rightarrow> u8" where
  "apply_req r disk n = (let b = unat (nr_sector r) * 512 in
     if b \<le> n \<and> n < b + PAGE_SIZE then nr_page r ! (n - b) else disk n)"

lemma page_start: "unat (sct div 8 * 8 :: sector_t) = unat sct div 8 * 8"
  using u64_less [of sct] by (subst unat_mult_no_wrap) (simp_all add: unat_div)

lemma submit_ok:
  assumes "ne_bio ne (nio_bios io)" "unat sct < 20971520"
  shows "submit_readwrite ne w i pg sct io = (None, io\<lparr>nio_bios := nio_bios io + 1, nio_sent := nio_sent io @
     [\<lparr>nr_write = w, nr_member = i, nr_sector = sct div 8 * 8, nr_page = pg\<rparr>]\<rparr>)"
proof -
  have "unat (sct div 8 * 8) \<le> unat sct"
    using page_start [of sct] by simp
  then have "\<not> 20971520 \<le> sct div 8 * 8" using assms(2) by (simp add: word_le_nat_alt)
  then show ?thesis using assms(1) by (simp add: submit_readwrite_def PAGE_SECTORS_def Let_def)
qed

lemma memcpy_nth:
  assumes "doff + n \<le> length dst" "soff + n \<le> length src" "k < length dst"
  shows "memcpy dst (int doff) src (int soff) (int n) ! k = (if doff \<le> k \<and> k < doff + n then src ! (soff + (k - doff)) else dst ! k)"
proof -
  have l: "length (take n (drop soff src)) = n" "length (take doff dst) = doff" using assms by simp_all
  show ?thesis unfolding memcpy_def nat_int nth_append l using assms by auto
qed

lemma next_page: "x + (8 - x mod 8) = (x div 8 + 1) * (8 :: nat)"
  by presburger

lemma sector_bytes: "(x :: nat) * 512 = x div 8 * 4096 + x mod 8 * 512"
proof -
  have "x = d * 8 + m \<Longrightarrow> x * 512 = d * 4096 + m * 512" for d m :: nat by simp
  then show ?thesis using div_mult_mod_eq [of x 8] by metis
qed

lemma in_page: "n div 4096 = B \<longleftrightarrow> B * 4096 \<le> n \<and> n < B * 4096 + (4096 :: nat)"
proof -
  have "B \<le> n div 4096 \<longleftrightarrow> B * 4096 \<le> n" by (rule less_eq_div_iff_mult_less_eq) simp
  moreover have "n div 4096 < B + 1 \<longleftrightarrow> n < (B + 1) * 4096" by (rule div_less_iff_less_mult) simp
  ultimately show ?thesis by auto
qed

lemma io_sectors_nat:
  assumes "unat copy \<le> PAGE_SIZE"
  shows "unat (io_sectors copy) = unat copy div 512"
proof -
  have u: "unat (drop_bit 9 copy) = unat copy div 512" by (simp add: drop_bit_eq_div unat_div)
  define k where "k = unat copy div 512"
  have k: "drop_bit 9 copy = of_nat k" "k \<le> 8"
    using u div_le_mono [OF assms, of 512] by (auto simp: k_def PAGE_SIZE_def intro: of_nat_unat_eq)
  then have "k = 0 \<or> k = 1 \<or> k = 2 \<or> k = 3 \<or> k = 4 \<or> k = 5 \<or> k = 6 \<or> k = 7 \<or> k = 8" by linarith
  then show ?thesis using k(1) unfolding io_sectors_def k_def [symmetric] by (elim disjE) simp_all
qed

text \<open>The second request of a segment that crosses a page boundary.\<close>

lemma next_request:
  assumes le: "unat len \<le> PAGE_SIZE" and q: "q = unat sct mod 8 * 512" and two: "PAGE_SIZE < unat len + q"
    and lim: "unat sct + 8 < 20971520" and nxt: "nxt = sct + io_sectors (io_copy len (io_offset sct))"
  shows "unat nxt = (unat sct div 8 + 1) * 8" "nxt div 8 * 8 = (sct div 8 + 1) * 8" "unat nxt < 20971520"
proof -
  have "min (unat len) (PAGE_SIZE - q) = (8 - unat sct mod 8) * 512"
    using two unfolding q diff_mult_distrib by (simp add: PAGE_SIZE_def)
  moreover have "(8 - unat sct mod 8) * 512 \<le> PAGE_SIZE" by (simp add: PAGE_SIZE_def)
  ultimately have "unat (io_sectors (io_copy len (io_offset sct))) = 8 - unat sct mod 8"
    using io_sectors_nat [of "io_copy len (io_offset sct)"] io_sizes(2) [OF le q] by simp
  moreover have "unat sct + (8 - unat sct mod 8) = (unat sct div 8 + 1) * 8"
    by (rule next_page)
  moreover have "(unat sct div 8 + 1) * 8 < 2 ^ LENGTH(64)" using lim by simp
  ultimately show nx: "unat nxt = (unat sct div 8 + 1) * 8" unfolding nxt by (metis unat_add_no_wrap)
  have "unat ((sct div 8 + 1) * 8 :: sector_t) = (unat sct div 8 + 1) * 8"
    using lim by (subst unat_mult_no_wrap unat_add_no_wrap, simp_all add: unat_div)+
  then show "nxt div 8 * 8 = (sct div 8 + 1) * 8" using nx by (simp add: word_unat_eq_iff page_start)
  show "unat nxt < 20971520" using nx lim div_times_less_eq_dividend [of "unat sct" 8] by simp
qed

lemma page_pos:
  assumes "(m :: nat) < 8192"
  shows "(m + B * 4096) div 4096 - B = (if m < 4096 then 0 else 1)"
    "(m + B * 4096) mod 4096 = (if m < 4096 then m else m - 4096)"
proof -
  have d: "(m + B * 4096) div 4096 = m div 4096 + B" "(m + B * 4096) mod 4096 = m mod 4096" by simp_all
  have "m div 4096 = (if m < 4096 then 0 else 1)"
    using assms div_less [of m 4096] in_page [of m 1] by auto
  moreover have "m mod 4096 = (if m < 4096 then m else m - 4096)"
    using assms mod_less [of m 4096] mod_less [of "m - 4096" 4096] le_mod_geq [of 4096 m] by auto
  ultimately show "(m + B * 4096) div 4096 - B = (if m < 4096 then 0 else 1)"
    "(m + B * 4096) mod 4096 = (if m < 4096 then m else m - 4096)" unfolding d by simp_all
qed

lemma memcpy_len: "doff + n \<le> length dst \<Longrightarrow> soff + n \<le> length src \<Longrightarrow>
  length (memcpy dst (int doff) src (int soff) (int n)) = length dst"
  by (simp add: memcpy_def)

text \<open>The bytes of a segment, of the fresh pages around it, and the ones no request touches.\<close>

lemma non_stripe_write_requests:
  assumes len: "length pg = PAGE_SIZE" "unat off + unat len \<le> PAGE_SIZE" "unat sct + 8 < 20971520"
    and mem: "\<And>n. ne_page ne n = Some (fresh n)" "\<And>n. length (fresh n) = PAGE_SIZE" "\<And>n. ne_bio ne n"
    and q: "q = unat sct mod 8 * 512" and c: "c = min (unat len) (PAGE_SIZE - q)"
  shows "\<exists>io'. non_stripe_write ne i pg len off sct io = Ret (None, io') \<and> nio_sent io' = nio_sent io @
    [\<lparr>nr_write = True, nr_member = i, nr_sector = sct div 8 * 8,
      nr_page = memcpy (fresh (nio_pages io)) (int q) pg (int (unat off)) (int c)\<rparr>] @
    (if unat len + q \<le> PAGE_SIZE then [] else
    [\<lparr>nr_write = True, nr_member = i, nr_sector = (sct div 8 + 1) * 8,
      nr_page = memcpy (fresh (nio_pages io + 1)) (int 0) pg (int (unat off + c)) (int (unat len - c))\<rparr>])"
proof -
  have le: "unat len \<le> PAGE_SIZE" using len(2) by simp
  note sizes = io_sizes [OF le q]
  have qs: "unat (io_offset sct) = q" "q < PAGE_SIZE" unfolding q
    using mod_less_divisor [of 8 "unat sct"] by (simp_all add: io_offset_nat PAGE_SIZE_def)
  have c_le: "q + c \<le> PAGE_SIZE" "c \<le> unat len" using c qs(2) by auto
  let ?io1 = "io\<lparr>nio_pages := Suc (nio_pages io)\<rparr>"
  have s1: "submit_readwrite ne True i p sct ?io1 = (None, ?io1\<lparr>nio_bios := nio_bios io + 1, nio_sent := nio_sent io @
     [\<lparr>nr_write = True, nr_member = i, nr_sector = sct div 8 * 8, nr_page = p\<rparr>]\<rparr>)" for p
    using submit_ok [of ne ?io1 sct True i p] mem(3) len(3) by simp
  show ?thesis
  proof (cases "unat len + q \<le> PAGE_SIZE")
    case True
    then show ?thesis using sizes mem c_le len qs
      by (simp add: non_stripe_write_def Let_def s1 c [symmetric])
  next
    case False
    define nxt where "nxt = sct + io_sectors (io_copy len (io_offset sct))"
    note nx = next_request [OF le q _ len(3) nxt_def] and two = False [unfolded not_le]
    let ?io3 = "io\<lparr>nio_bios := Suc (nio_bios io), nio_sent := nio_sent io @
      [\<lparr>nr_write = True, nr_member = i, nr_sector = sct div 8 * 8,
        nr_page = memcpy (fresh (nio_pages io)) (int q) pg (int (unat off)) (int c)\<rparr>], nio_pages := Suc (Suc (nio_pages io))\<rparr>"
    have s2: "submit_readwrite ne True i p nxt ?io3 = (None, ?io3\<lparr>nio_bios := nio_bios ?io3 + 1, nio_sent := nio_sent ?io3 @
       [\<lparr>nr_write = True, nr_member = i, nr_sector = nxt div 8 * 8, nr_page = p\<rparr>]\<rparr>)" for p
      by (rule submit_ok [OF mem(3) nx(3) [OF two]])
    note s2' = s2 [simplified]
    have nr: "[0..<io_nr len (io_offset sct)] = [0, 1]" using sizes(1) False by (simp add: numeral_2_eq_2)
    have fst_part: "\<not> (q + c > PAGE_SIZE \<or> unat off + c > length pg)" using c_le len(1,2) by auto
    have snd_part: "\<not> (unat len - c > PAGE_SIZE \<or> unat off + c + (unat len - c) > length pg)" using c_le len(1,2) le by auto
    have sent: "nio_sent (snd (submit_readwrite ne True i p nxt ?io3)) = nio_sent ?io3 @
       [\<lparr>nr_write = True, nr_member = i, nr_sector = (sct div 8 + 1) * 8, nr_page = p\<rparr>]" for p
      unfolding s2 nx(2) [OF two] by simp
    have run: "non_stripe_write ne i pg len off sct io = Ret (None, snd (submit_readwrite ne True i
        (memcpy (fresh (Suc (nio_pages io))) (int 0) pg (int (unat off + c)) (int (unat len - c))) nxt ?io3))"
      unfolding non_stripe_write_def Let_def nr using sizes(2,3) [folded c] fst_part snd_part
      by (simp add: Let_def s1 qs(1) mem nxt_def [symmetric] s2')
    show ?thesis unfolding if_not_P [OF False] by (intro exI conjI, rule run, unfold sent, simp)
  qed
qed

section \<open>The bytes on the member\<close>

lemma apply_page:
  assumes "unat (nr_sector r) * 512 = b * 4096"
  shows "apply_req r disk n = (if n div 4096 = b then nr_page r ! (n mod 4096) else disk n)"
proof (cases "n div 4096 = b")
  case True
  then have "b * 4096 \<le> n \<and> n < b * 4096 + 4096" unfolding in_page .
  moreover have "n - b * 4096 = n mod 4096" using True by (simp add: minus_div_mult_eq_mod [symmetric])
  ultimately show ?thesis using True by (simp add: apply_req_def assms PAGE_SIZE_def)
qed (auto simp: apply_req_def assms PAGE_SIZE_def in_page)

text \<open>A segment of \<open>len\<close> bytes from byte \<open>q\<close> of page \<open>b\<close> on, over that page and the next.\<close>

lemma segment_bytes:
  fixes n :: nat
  assumes len: "len \<le> 4096" and q: "q < 4096" and c: "c = min len (4096 - q)" and start: "S = b * 4096 + q"
    and p1: "\<And>k. k < 4096 \<Longrightarrow> p1 k = (if q \<le> k \<and> k < q + c then src (k - q) else fr 0 k)"
    and p2: "\<And>k. k < 4096 \<Longrightarrow> p2 k = (if k < len - c then src (c + k) else fr 1 k)"
    and nr: "nr = (if 4096 < len + q then 2 else 1)"
  shows "(if n div 4096 = b + 1 \<and> 4096 < len + q then p2 (n mod 4096) else if n div 4096 = b then p1 (n mod 4096) else d) =
    (if S \<le> n \<and> n < S + len then src (n - S)
     else if b \<le> n div 4096 \<and> n div 4096 < b + nr then fr (n div 4096 - b) (n mod 4096) else d)"
proof -
  define k where "k = n mod 4096"
  have n: "n = n div 4096 * 4096 + k" and k: "k < 4096" by (simp_all add: k_def)
  consider "n div 4096 = b" | "n div 4096 = b + 1" | "n div 4096 \<noteq> b" "n div 4096 \<noteq> b + 1" by blast
  then show ?thesis
  proof cases
    case 1
    then have n1: "n = b * 4096 + k" using n by simp
    have "S \<le> n \<and> n < S + len \<longleftrightarrow> q \<le> k \<and> k < q + c" unfolding n1 start c using k by auto
    moreover have "n - S = k - q" unfolding n1 start by simp
    ultimately show ?thesis using 1 p1 [OF k] nr by (simp add: k_def [symmetric])
  next
    case 2
    then have n2: "n = (b + 1) * 4096 + k" using n by simp
    have "S \<le> n \<and> n < S + len \<longleftrightarrow> k < len - c" unfolding n2 start c using q k len by auto
    moreover have "k < len - c \<Longrightarrow> 4096 < len + q \<and> n - S = c + k" unfolding n2 start c using q len by auto
    ultimately show ?thesis using 2 p2 [OF k] nr by (auto simp: k_def [symmetric])
  next
    case 3
    then have "\<not> (b * 4096 \<le> n \<and> n < b * 4096 + 4096)" "\<not> ((b + 1) * 4096 \<le> n \<and> n < (b + 1) * 4096 + 4096)"
      unfolding in_page by auto
    then have "\<not> (S \<le> n \<and> n < S + len)" unfolding start using len q by auto
    moreover have "\<not> (b \<le> n div 4096 \<and> n div 4096 < b + nr)" using 3 nr by auto
    ultimately show ?thesis using 3 by (simp only: if_False simp_thms)
  qed
qed


definition nio_example :: nio_env where
  "nio_example = \<lparr>ne_page = (\<lambda>n. Some (replicate PAGE_SIZE 0)), ne_bio = (\<lambda>n. True)\<rparr>"


lemma non_stripe_read_run:
  assumes len: "length pg = PAGE_SIZE" "unat off + unat len \<le> PAGE_SIZE" "unat sct + 8 < 20971520"
    and mem: "\<And>n. ne_page ne n = Some (fresh n)" "\<And>n. length (fresh n) = PAGE_SIZE" "\<And>n. ne_bio ne n"
    and q: "q = unat sct mod 8 * 512" and c: "c = min (unat len) (PAGE_SIZE - q)"
    and pg1: "pg1 = memcpy pg (int (unat off)) (fresh (nio_pages io)) (int q) (int c)"
  shows "\<exists>io'. non_stripe_read ne i pg len off sct io = Ret (None,
      (if unat len + q \<le> PAGE_SIZE then pg1
       else memcpy pg1 (int (unat off + c)) (fresh (nio_pages io + 1)) (int 0) (int (unat len - c))), io') \<and>
    nio_sent io' = nio_sent io @
    [\<lparr>nr_write = False, nr_member = i, nr_sector = sct div 8 * 8, nr_page = fresh (nio_pages io)\<rparr>] @
    (if unat len + q \<le> PAGE_SIZE then [] else
    [\<lparr>nr_write = False, nr_member = i, nr_sector = (sct div 8 + 1) * 8, nr_page = fresh (nio_pages io + 1)\<rparr>])"
proof -
  have le: "unat len \<le> PAGE_SIZE" using len(2) by simp
  note sizes = io_sizes [OF le q]
  have qs: "unat (io_offset sct) = q" "q < PAGE_SIZE" unfolding q
    using mod_less_divisor [of 8 "unat sct"] by (simp_all add: io_offset_nat PAGE_SIZE_def)
  have c_le: "q + c \<le> PAGE_SIZE" "c \<le> unat len" using c qs(2) by auto
  let ?io1 = "io\<lparr>nio_pages := Suc (nio_pages io)\<rparr>"
  have s1: "submit_readwrite ne False i p sct ?io1 = (None, ?io1\<lparr>nio_bios := nio_bios io + 1, nio_sent := nio_sent io @
     [\<lparr>nr_write = False, nr_member = i, nr_sector = sct div 8 * 8, nr_page = p\<rparr>]\<rparr>)" for p
    using submit_ok [of ne ?io1 sct False i p] mem(3) len(3) by simp
  show ?thesis
  proof (cases "unat len + q \<le> PAGE_SIZE")
    case True
    then show ?thesis using sizes mem c_le len qs
      by (simp add: non_stripe_read_def Let_def s1 c [symmetric] pg1)
  next
    case False
    define nxt where "nxt = sct + io_sectors (io_copy len (io_offset sct))"
    note nx = next_request [OF le q _ len(3) nxt_def] and two = False [unfolded not_le]
    let ?io3 = "io\<lparr>nio_bios := Suc (nio_bios io), nio_sent := nio_sent io @
      [\<lparr>nr_write = False, nr_member = i, nr_sector = sct div 8 * 8, nr_page = fresh (nio_pages io)\<rparr>],
      nio_pages := Suc (Suc (nio_pages io))\<rparr>"
    have s2: "submit_readwrite ne False i p nxt ?io3 = (None, ?io3\<lparr>nio_bios := nio_bios ?io3 + 1, nio_sent := nio_sent ?io3 @
       [\<lparr>nr_write = False, nr_member = i, nr_sector = nxt div 8 * 8, nr_page = p\<rparr>]\<rparr>)" for p
      by (rule submit_ok [OF mem(3) nx(3) [OF two]])
    note s2' = s2 [simplified]
    have nr: "[0..<io_nr len (io_offset sct)] = [0, 1]" using sizes(1) False by (simp add: numeral_2_eq_2)
    have fst_part: "\<not> (q + c > PAGE_SIZE \<or> unat off + c > length pg)" using c_le len(1,2) by auto
    have l1: "length pg1 = length pg" unfolding pg1 using fst_part mem(2) by (intro memcpy_len) auto
    have snd_part: "\<not> (unat len - c > PAGE_SIZE \<or> unat off + c + (unat len - c) > length pg1)"
      using c_le len(1,2) le l1 by auto
    have sent: "nio_sent (snd (submit_readwrite ne False i p nxt ?io3)) = nio_sent ?io3 @
       [\<lparr>nr_write = False, nr_member = i, nr_sector = (sct div 8 + 1) * 8, nr_page = p\<rparr>]" for p
      unfolding s2 nx(2) [OF two] by simp
    have run: "non_stripe_read ne i pg len off sct io = Ret (None,
        memcpy pg1 (int (unat off + c)) (fresh (nio_pages io + 1)) (int 0) (int (unat len - c)),
        snd (submit_readwrite ne False i (fresh (Suc (nio_pages io))) nxt ?io3))"
      unfolding non_stripe_read_def Let_def nr using sizes(2,3) [folded c] fst_part snd_part
      by (simp add: Let_def s1 qs(1) mem nxt_def [symmetric] s2' pg1 [simplified, symmetric])
    show ?thesis unfolding if_not_P [OF False] by (intro exI conjI, rule run, unfold sent, simp)
  qed
qed



end
