(* ===== verification/Radix_Demo.thy ===== *)
theory Radix_Demo
  imports Nonstripe_IO
begin

text \<open>
  The block device demo, \<^verbatim>\<open>src/attach/tpblkdev/radix_demo.c\<close>: blocks of one page in a radix tree of the
  kernel, with two tags and counters.

  The kernel's radix tree is an argument: a record of its operations, with \<open>radix_ok\<close> stating what
  its documentation promises in terms of the items and tags of a tree. A block is known by the
  number of its allocation; the answers of the allocators are arguments too. The block's fields that
  nothing uses are left out. The arithmetic of a segment is the one of \<open>Nonstripe_IO\<close>, which the
  source repeats word by word.
\<close>

unbundle bit_operations_syntax

section \<open>The code\<close>

record 't radix_ops =
  rt_lookup :: "'t \<Rightarrow> u64 \<Rightarrow> nat option"
  rt_insert :: "'t \<Rightarrow> u64 \<Rightarrow> nat \<Rightarrow> bool \<times> 't"
  rt_tag_set :: "'t \<Rightarrow> u64 \<Rightarrow> nat \<Rightarrow> 't"
  rt_delete :: "'t \<Rightarrow> u64 \<Rightarrow> nat option \<times> 't"
  rt_gang_lookup :: "'t \<Rightarrow> u64 \<Rightarrow> nat \<Rightarrow> nat list"
  rt_tagged :: "'t \<Rightarrow> nat \<Rightarrow> u64 \<Rightarrow> nat list"

definition RADIX_TREE_TAG_DIRTY :: nat where "RADIX_TREE_TAG_DIRTY = 0"
definition RADIX_TREE_TAG_TSYNC :: nat where "RADIX_TREE_TAG_TSYNC = 1"
definition BLKS_VEC_SIZE :: nat where "BLKS_VEC_SIZE = 16"
definition SIMP_BLKDEV_BYTES :: u64 where "SIMP_BLKDEV_BYTES = 1 * 1024 * 1024 * 1024"

text \<open>\<open>struct _ioblk\<close> and \<open>struct dummy_device\<close>; \<open>slab\<close> holds the blocks that are allocated.\<close>

record ioblk =
  ib_page :: "u8 list"
  ib_index :: u64

record 't dummy_device =
  dev_pages :: 't
  dirty_blks :: int
  tsync_blks :: int
  write_blks :: int
  read_blks :: int
  dd_size :: u64
  slab :: "nat \<Rightarrow> ioblk option"
  slab_calls :: nat

record rd_env =
  rd_blk :: "nat \<Rightarrow> bool"
  rd_page :: "nat \<Rightarrow> u8 list option"
  rd_preload :: "nat \<Rightarrow> bool"

definition blk_index :: "sector_t \<Rightarrow> u64" where
  "blk_index sct = drop_bit 3 sct"

definition dev_lookup_blk :: "'t radix_ops \<Rightarrow> 't dummy_device \<Rightarrow> sector_t \<Rightarrow> nat option" where
  "dev_lookup_blk ops d sct = rt_lookup ops (dev_pages d) (blk_index sct)"

text \<open>The block of a sector, made if there is none. A failed \<open>radix_tree_preload\<close> leaks the new block.\<close>

definition dev_insert_page :: "'t radix_ops \<Rightarrow> rd_env \<Rightarrow> 't dummy_device \<Rightarrow> sector_t \<Rightarrow> nat option \<times> 't dummy_device" where
  "dev_insert_page ops re d sct =
     (case dev_lookup_blk ops d sct of
        Some b \<Rightarrow> (Some b, d)
      | None \<Rightarrow>
          let b = slab_calls d; d1 = d\<lparr>slab_calls := b + 1\<rparr> in
          if \<not> rd_blk re b then (None, d1)
          else case rd_page re b of
            None \<Rightarrow> (None, d1)
          | Some pg \<Rightarrow>
              let idx = blk_index sct; d2 = d1\<lparr>slab := (slab d1)(b \<mapsto> \<lparr>ib_page = pg, ib_index = idx\<rparr>)\<rparr>
              in if \<not> rd_preload re b then (None, d2)
                 else let (_, t) = rt_insert ops (dev_pages d2) idx b in (Some b, d2\<lparr>dev_pages := t\<rparr>))"

definition tag_blk :: "'t radix_ops \<Rightarrow> nat \<Rightarrow> nat \<Rightarrow> 't dummy_device \<Rightarrow> 't dummy_device" where
  "tag_blk ops g b d =
     d\<lparr>dev_pages := rt_tag_set ops (dev_pages d) (case slab d b of None \<Rightarrow> 0 | Some blk \<Rightarrow> ib_index blk) g\<rparr>"

definition set_blk_dirty :: "'t radix_ops \<Rightarrow> nat \<Rightarrow> 't dummy_device \<Rightarrow> 't dummy_device" where
  "set_blk_dirty ops b d = tag_blk ops RADIX_TREE_TAG_DIRTY b (d\<lparr>dirty_blks := dirty_blks d + 1\<rparr>)"

definition set_blk_tsync :: "'t radix_ops \<Rightarrow> nat \<Rightarrow> 't dummy_device \<Rightarrow> 't dummy_device" where
  "set_blk_tsync ops b d = tag_blk ops RADIX_TREE_TAG_TSYNC b (d\<lparr>tsync_blks := tsync_blks d + 1\<rparr>)"

text \<open>
  The loops of \<open>blk_dev_write\<close> and \<open>blk_dev_read\<close>. Both copy within the page of the bio; the page of
  the block is never touched.
\<close>

primrec bd_write_parts :: "'t radix_ops \<Rightarrow> rd_env \<Rightarrow> u32 \<Rightarrow> nat list \<Rightarrow> u32 \<Rightarrow> u32 \<Rightarrow> nat \<Rightarrow> sector_t \<Rightarrow> u8 list \<Rightarrow>
    't dummy_device \<Rightarrow> (errno option \<times> u8 list \<times> 't dummy_device) outcome" where
  "bd_write_parts ops re len [] copy offset src sct pg d = Ret (None, pg, d)"
| "bd_write_parts ops re len (k # ks) copy offset src sct pg d =
     (case dev_insert_page ops re d sct of
        (None, d1) \<Rightarrow> Ret (Some ENOMEM, pg, d1)
      | (Some b, d1) \<Rightarrow>
          let src1 = src + unat (of_nat k * (len - copy)) in
          if unat offset + unat copy > length pg \<or> src1 + unat copy > length pg then Bug
          else
            let pg1 = memcpy pg (int (unat offset)) pg (int src1) (int (unat copy));
                d2 = set_blk_tsync ops b (set_blk_dirty ops b d1)
            in bd_write_parts ops re len ks (len - copy) 0 src1 (sct + io_sectors copy) pg1
                 (d2\<lparr>write_blks := write_blks d2 + 1\<rparr>))"

definition blk_dev_write :: "'t radix_ops \<Rightarrow> rd_env \<Rightarrow> u8 list \<Rightarrow> u32 \<Rightarrow> u32 \<Rightarrow> sector_t \<Rightarrow> 't dummy_device \<Rightarrow>
    (errno option \<times> u8 list \<times> 't dummy_device) outcome" where
  "blk_dev_write ops re pg len off sct d =
     (let offset = io_offset sct
      in bd_write_parts ops re len [0..<io_nr len offset] (io_copy len offset) offset (unat off) sct pg d)"

primrec bd_read_parts :: "'t radix_ops \<Rightarrow> rd_env \<Rightarrow> u32 \<Rightarrow> nat list \<Rightarrow> u32 \<Rightarrow> u32 \<Rightarrow> nat \<Rightarrow> sector_t \<Rightarrow> u8 list \<Rightarrow>
    't dummy_device \<Rightarrow> (errno option \<times> u8 list \<times> 't dummy_device) outcome" where
  "bd_read_parts ops re len [] copy offset dst sct pg d = Ret (None, pg, d)"
| "bd_read_parts ops re len (k # ks) copy offset dst sct pg d =
     (case dev_insert_page ops re d sct of
        (None, d1) \<Rightarrow> Ret (Some ENOMEM, pg, d1)
      | (Some b, d1) \<Rightarrow>
          let dst1 = dst + unat (of_nat k * (len - copy)) in
          if unat offset + unat copy > length pg \<or> dst1 + unat copy > length pg then Bug
          else
            let pg1 = memcpy pg (int dst1) pg (int (unat offset)) (int (unat copy))
            in bd_read_parts ops re len ks (len - copy) 0 dst1 (sct + io_sectors copy) pg1
                 (d1\<lparr>read_blks := read_blks d1 + 1\<rparr>))"

definition blk_dev_read :: "'t radix_ops \<Rightarrow> rd_env \<Rightarrow> u8 list \<Rightarrow> u32 \<Rightarrow> u32 \<Rightarrow> sector_t \<Rightarrow> 't dummy_device \<Rightarrow>
    (errno option \<times> u8 list \<times> 't dummy_device) outcome" where
  "blk_dev_read ops re pg len off sct d =
     (let offset = io_offset sct
      in bd_read_parts ops re len [0..<io_nr len offset] (io_copy len offset) offset (unat off) sct pg d)"

text \<open>\<open>simp_make_request\<close>: the segments in order, up to the first error; the bio is ended in any case.\<close>

primrec simp_segs :: "'t radix_ops \<Rightarrow> rd_env \<Rightarrow> bool \<Rightarrow> segment list \<Rightarrow> sector_t \<Rightarrow> 't dummy_device \<Rightarrow>
    (segment list \<times> 't dummy_device) outcome" where
  "simp_segs ops re w [] sct d = Ret ([], d)"
| "simp_segs ops re w (sg # sgs) sct d =
     bind_outcome ((if w then blk_dev_write else blk_dev_read) ops re (sg_page sg) (sg_len sg) (sg_off sg) sct d)
       (\<lambda>(e, pg, d1).
          if e \<noteq> None then Ret (sg\<lparr>sg_page := pg\<rparr> # sgs, d1)
          else bind_outcome (simp_segs ops re w sgs (sct + ucast (drop_bit 9 (sg_len sg))) d1)
                 (\<lambda>(sgs1, d2). Ret (sg\<lparr>sg_page := pg\<rparr> # sgs1, d2)))"

definition simp_make_request :: "'t radix_ops \<Rightarrow> rd_env \<Rightarrow> bool \<Rightarrow> segment list \<Rightarrow> sector_t \<Rightarrow> 't dummy_device \<Rightarrow>
    (segment list \<times> 't dummy_device) outcome" where
  "simp_make_request ops re w sgs sct d = simp_segs ops re w sgs sct d"

text \<open>The blocks with a tag from an index on, at most \<open>nr\<close> of them, and where to go on.\<close>

definition find_get_blks_tag :: "'t radix_ops \<Rightarrow> 't dummy_device \<Rightarrow> u64 \<Rightarrow> nat \<Rightarrow> nat \<Rightarrow> nat list \<times> u64" where
  "find_get_blks_tag ops d index g nr =
     (let bs = take nr (rt_tagged ops (dev_pages d) g index) in
      (bs, if bs = [] then index
           else (case slab d (last bs) of None \<Rightarrow> 0 | Some blk \<Rightarrow> ib_index blk) + 1))"

text \<open>The number \<open>find_tag_blks\<close> prints; it is read before the bound is compared.\<close>

partial_function (option) find_loop :: "'t radix_ops \<Rightarrow> 't dummy_device \<Rightarrow> nat \<Rightarrow> u64 \<Rightarrow> u64 \<Rightarrow> nat \<Rightarrow> nat option" where
  "find_loop ops d g fin index cnt =
     (if \<not> index \<le> fin then Some cnt
      else let (bs, index1) = find_get_blks_tag ops d index g BLKS_VEC_SIZE
           in if bs = [] then Some cnt else find_loop ops d g fin index1 (cnt + length bs))"

definition find_tag_blks :: "'t radix_ops \<Rightarrow> 't dummy_device \<Rightarrow> nat \<Rightarrow> nat option" where
  "find_tag_blks ops d g = find_loop ops d g (drop_bit 3 (dd_size d)) 0 0"

primrec free_batch :: "'t radix_ops \<Rightarrow> nat list \<Rightarrow> u64 \<Rightarrow> 't dummy_device \<Rightarrow> (u64 \<times> 't dummy_device) outcome" where
  "free_batch ops [] pos d = Ret (pos, d)"
| "free_batch ops (b # bs) pos d =
     (case slab d b of
        None \<Rightarrow> Bug
      | Some blk \<Rightarrow>
          if ib_index blk < pos then Bug
          else let (_, t) = rt_delete ops (dev_pages d) (ib_index blk)
               in free_batch ops bs (ib_index blk) (d\<lparr>dev_pages := t, slab := (slab d)(b := None)\<rparr>))"

partial_function (option) free_loop :: "'t radix_ops \<Rightarrow> u64 \<Rightarrow> nat \<Rightarrow> 't dummy_device \<Rightarrow>
    (nat \<times> 't dummy_device) outcome option" where
  "free_loop ops pos cnt d =
     (let bs = rt_gang_lookup ops (dev_pages d) pos BLKS_VEC_SIZE in
      if bs = [] then Some (Ret (cnt, d))
      else case free_batch ops bs pos d of
        Ret (pos1, d1) \<Rightarrow> free_loop ops (pos1 + 1) (cnt + length bs) d1
      | Bug \<Rightarrow> Some Bug
      | Hang \<Rightarrow> None)"

definition free_all_blks :: "'t radix_ops \<Rightarrow> 't dummy_device \<Rightarrow> (nat \<times> 't dummy_device) outcome option" where
  "free_all_blks ops d = free_loop ops 0 0 d"

text \<open>
  Loading and unloading. The resources are the queue, the disk, the cache of blocks and the
  device; the answers of the four allocations are arguments. The result of a failure is the error
  code, or \<open>None\<close> where the code returns a variable it never set.
\<close>

record module_res =
  mr_queue :: bool
  mr_disk :: bool
  mr_cache :: bool
  mr_dev :: bool

definition radix_block_init :: "bool \<Rightarrow> bool \<Rightarrow> bool \<Rightarrow> bool \<Rightarrow> (unit + errno option) \<times> module_res" where
  "radix_block_init queue disk cache dev_ok =
     (if \<not> queue then (Inr (Some ENOMEM), \<lparr>mr_queue = False, mr_disk = False, mr_cache = False, mr_dev = False\<rparr>)
      else if \<not> disk then (Inr (Some ENOMEM), \<lparr>mr_queue = False, mr_disk = False, mr_cache = False, mr_dev = False\<rparr>)
      else if \<not> cache then (Inr (Some ENOMEM), \<lparr>mr_queue = False, mr_disk = False, mr_cache = False, mr_dev = False\<rparr>)
      else if \<not> dev_ok then (Inr None, \<lparr>mr_queue = False, mr_disk = False, mr_cache = True, mr_dev = False\<rparr>)
      else (Inl (), \<lparr>mr_queue = True, mr_disk = True, mr_cache = True, mr_dev = True\<rparr>))"

definition new_device :: "'t \<Rightarrow> 't dummy_device" where
  "new_device t = \<lparr>dev_pages = t, dirty_blks = 0, tsync_blks = 0, write_blks = 0, read_blks = 0,
     dd_size = drop_bit 9 SIMP_BLKDEV_BYTES, slab = (\<lambda>_. None), slab_calls = 0\<rparr>"

text \<open>\<open>radix_block_exit\<close>: both tags are counted, then all blocks are freed.\<close>

definition radix_block_exit :: "'t radix_ops \<Rightarrow> 't dummy_device \<Rightarrow> (nat \<times> nat \<times> 't dummy_device) outcome option" where
  "radix_block_exit ops d =
     (case (find_tag_blks ops d RADIX_TREE_TAG_DIRTY, find_tag_blks ops d RADIX_TREE_TAG_TSYNC) of
        (Some n, Some m) \<Rightarrow> map_option (\<lambda>r. bind_outcome r (\<lambda>(_, d1). Ret (n, m, d1))) (free_all_blks ops d)
      | _ \<Rightarrow> None)"

text \<open>
  \<open>submit_readwrite\<close>, whose calls are commented out, and its completion. A new bio is all zero and
  nothing sets its sector, so the request goes to sector 0; a completion with an error keeps the bio.
\<close>

record rd_bio =
  rb_write :: bool
  rb_sector :: sector_t
  rb_page :: "u8 list"

definition rd_submit_readwrite :: "bool \<Rightarrow> bool \<Rightarrow> u8 list \<Rightarrow> sector_t \<Rightarrow> rd_bio list \<Rightarrow> errno option \<times> rd_bio list" where
  "rd_submit_readwrite got rw pg sct sub =
     (if \<not> got then (Some ENOMEM, sub) else (None, sub @ [\<lparr>rb_write = rw, rb_sector = 0, rb_page = pg\<rparr>]))"

definition rd_end_bio :: "bool \<Rightarrow> nat \<Rightarrow> nat" where
  "rd_end_bio err bios = (if err then bios else bios - 1)"

lemma rd_submit_ignores_sector: "rd_submit_readwrite got rw pg sct = rd_submit_readwrite got rw pg sct'"
  by (simp add: rd_submit_readwrite_def fun_eq_iff)

text \<open>The commands \<open>TEST_01\<close> and \<open>TEST_02\<close>; the device's major number is the kernel's.\<close>

definition io_cmd :: "u32 \<Rightarrow> u32 \<Rightarrow> u32" where
  "io_cmd major nr = push_bit 8 major OR nr"

definition simp_ioctl_valid :: "u32 \<Rightarrow> u32 \<Rightarrow> bool" where
  "simp_ioctl_valid major cmd \<longleftrightarrow> cmd = io_cmd major 0x20 \<or> cmd = io_cmd major 0x21"

definition simp_ioctl :: "u32 \<Rightarrow> u32 \<Rightarrow> errno option" where
  "simp_ioctl major cmd = (if \<not> simp_ioctl_valid major cmd then Some ENOTTY else None)"

section \<open>What a radix tree promises\<close>

text \<open>
  \<open>items\<close> is what a tree holds, \<open>tagged\<close> the indexes that have a tag. Insertion is promised to
  succeed at a free index (the code preloads memory), a tag may be set at a used index, and the
  look-ups go through the indexes in increasing order.
\<close>

definition radix_ok :: "'t radix_ops \<Rightarrow> ('t \<Rightarrow> bool) \<Rightarrow> ('t \<Rightarrow> u64 \<Rightarrow> nat option) \<Rightarrow> ('t \<Rightarrow> nat \<Rightarrow> u64 set) \<Rightarrow> bool" where
  "radix_ok ops valid items tagged \<longleftrightarrow>
     (\<forall>t. valid t \<longrightarrow> finite (dom (items t)) \<and> (\<forall>g. tagged t g \<subseteq> dom (items t)) \<and>
        (\<forall>i. rt_lookup ops t i = items t i) \<and>
        (\<forall>p n. rt_gang_lookup ops t p n = take n (map (\<lambda>i. the (items t i)) (sorted_list_of_set {i \<in> dom (items t). p \<le> i}))) \<and>
        (\<forall>g p. rt_tagged ops t g p = map (\<lambda>i. the (items t i)) (sorted_list_of_set {i \<in> tagged t g. p \<le> i})) \<and>
        (\<forall>i b. items t i = None \<longrightarrow> (\<exists>t'. rt_insert ops t i b = (True, t') \<and> valid t' \<and>
           items t' = (items t)(i \<mapsto> b) \<and> tagged t' = tagged t)) \<and>
        (\<forall>i g. items t i \<noteq> None \<longrightarrow> valid (rt_tag_set ops t i g) \<and> items (rt_tag_set ops t i g) = items t \<and>
           tagged (rt_tag_set ops t i g) = (tagged t)(g := insert i (tagged t g))) \<and>
        (\<forall>i. \<exists>t'. rt_delete ops t i = (items t i, t') \<and> valid t' \<and> items t' = (items t)(i := None) \<and>
           tagged t' = (\<lambda>g. tagged t g - {i})))"

lemma radix_okD:
  assumes "radix_ok ops valid items tagged" "valid t"
  shows "finite (dom (items t))" "tagged t g \<subseteq> dom (items t)" "rt_lookup ops t i = items t i"
    "rt_gang_lookup ops t p n = take n (map (\<lambda>i. the (items t i)) (sorted_list_of_set {i \<in> dom (items t). p \<le> i}))"
    "rt_tagged ops t g p = map (\<lambda>i. the (items t i)) (sorted_list_of_set {i \<in> tagged t g. p \<le> i})"
  using assms unfolding radix_ok_def by blast+

lemma radix_insert:
  assumes "radix_ok ops valid items tagged" "valid t" "items t i = None"
  obtains t' where "rt_insert ops t i b = (True, t')" "valid t'" "items t' = (items t)(i \<mapsto> b)" "tagged t' = tagged t"
  using assms unfolding radix_ok_def by blast

lemma radix_tag:
  assumes "radix_ok ops valid items tagged" "valid t" "items t i \<noteq> None"
  shows "valid (rt_tag_set ops t i g)" "items (rt_tag_set ops t i g) = items t"
    "tagged (rt_tag_set ops t i g) = (tagged t)(g := insert i (tagged t g))"
  using assms unfolding radix_ok_def by blast+

lemma radix_delete:
  assumes "radix_ok ops valid items tagged" "valid t"
  obtains t' where "rt_delete ops t i = (items t i, t')" "valid t'" "items t' = (items t)(i := None)"
    "tagged t' = (\<lambda>g. tagged t g - {i})"
  using assms unfolding radix_ok_def by blast

section \<open>The device stays consistent\<close>

text \<open>Every item of the tree is an allocated block that knows its index, below the largest sector.\<close>

definition dev_ok :: "('t \<Rightarrow> bool) \<Rightarrow> ('t \<Rightarrow> u64 \<Rightarrow> nat option) \<Rightarrow> 't dummy_device \<Rightarrow> bool" where
  "dev_ok valid items d \<longleftrightarrow> valid (dev_pages d) \<and>
     (\<forall>i b. items (dev_pages d) i = Some b \<longrightarrow> unat i < 2 ^ 61 \<and> (\<exists>pg. slab d b = Some \<lparr>ib_page = pg, ib_index = i\<rparr>)) \<and>
     (\<forall>b \<ge> slab_calls d. slab d b = None)"

text \<open>
  What a request may do to the blocks: the blocks there are stay as they are, and the page of a
  new block holds what the page allocator put there.
\<close>

definition only_fresh :: "rd_env \<Rightarrow> 't dummy_device \<Rightarrow> 't dummy_device \<Rightarrow> bool" where
  "only_fresh re d d' \<longleftrightarrow> slab_calls d \<le> slab_calls d' \<and> (\<forall>b < slab_calls d. slab d' b = slab d b) \<and>
     (\<forall>b blk. slab_calls d \<le> b \<longrightarrow> slab d' b = Some blk \<longrightarrow> rd_page re b = Some (ib_page blk))"

lemma only_fresh_refl: "dev_ok valid items d \<Longrightarrow> only_fresh re d d"
  by (simp add: only_fresh_def dev_ok_def)

lemma only_fresh_trans:
  assumes "only_fresh re d d'" "only_fresh re d' d''" shows "only_fresh re d d''"
  unfolding only_fresh_def
proof (intro conjI allI impI)
  show "slab_calls d \<le> slab_calls d''" using assms by (auto simp: only_fresh_def intro: le_trans)
  show "slab d'' b = slab d b" if "b < slab_calls d" for b
    using that assms by (simp add: only_fresh_def)
  fix b blk assume b: "slab_calls d \<le> b" "slab d'' b = Some blk"
  show "rd_page re b = Some (ib_page blk)"
  proof (cases "b < slab_calls d'")
    case True
    then have "slab d' b = Some blk" using assms(2) b(2) by (simp add: only_fresh_def)
    then show ?thesis using assms(1) b(1) by (simp add: only_fresh_def)
  qed (use assms(2) b(2) in \<open>simp add: only_fresh_def\<close>)
qed

lemma blk_index_small: "unat (blk_index sct) < 2 ^ 61"
  using u64_less [of sct] by (simp add: blk_index_def drop_bit_eq_div unat_div less_mult_imp_div_less)

lemma dev_insert_page_ok:
  assumes ok: "radix_ok ops valid items tagged" and dev: "dev_ok valid items d"
    and ins: "dev_insert_page ops re d sct = (r, d')"
  shows "dev_ok valid items d' \<and> only_fresh re d d' \<and> tagged (dev_pages d') = tagged (dev_pages d) \<and>
    (\<forall>b. r = Some b \<longrightarrow> items (dev_pages d') = (items (dev_pages d))(blk_index sct \<mapsto> b)) \<and>
    (r = None \<longrightarrow> items (dev_pages d') = items (dev_pages d))"
proof -
  have v: "valid (dev_pages d)" using dev by (simp add: dev_ok_def)
  have look: "dev_lookup_blk ops d sct = items (dev_pages d) (blk_index sct)"
    by (simp add: dev_lookup_blk_def radix_okD(3) [OF ok v])
  show ?thesis
  proof (cases "items (dev_pages d) (blk_index sct)")
    case (Some b)
    then show ?thesis using ins dev look by (auto simp: dev_insert_page_def only_fresh_refl fun_upd_idem_iff)
  next
    case None
    obtain t' where t': "rt_insert ops (dev_pages d) (blk_index sct) (slab_calls d) = (True, t')" "valid t'"
      "items t' = (items (dev_pages d))(blk_index sct \<mapsto> slab_calls d)" "tagged t' = tagged (dev_pages d)"
      by (rule radix_insert [OF ok v None])
    have fresh: "items (dev_pages d) i \<noteq> Some (slab_calls d)" for i using dev by (fastforce simp: dev_ok_def)
    show ?thesis using ins dev look None t' fresh blk_index_small [of sct]
      by (auto simp: dev_insert_page_def Let_def dev_ok_def only_fresh_def split: if_splits option.splits)
  qed
qed

lemma tag_blk_ok:
  assumes ok: "radix_ok ops valid items tagged" and dev: "dev_ok valid items d"
    and b: "items (dev_pages d) i = Some b"
  shows "dev_ok valid items (tag_blk ops g b d) \<and> items (dev_pages (tag_blk ops g b d)) = items (dev_pages d) \<and>
    tagged (dev_pages (tag_blk ops g b d)) = (tagged (dev_pages d))(g := insert i (tagged (dev_pages d) g)) \<and>
    slab (tag_blk ops g b d) = slab d \<and> slab_calls (tag_blk ops g b d) = slab_calls d"
proof -
  have v: "valid (dev_pages d)" using dev by (simp add: dev_ok_def)
  obtain pg where "slab d b = Some \<lparr>ib_page = pg, ib_index = i\<rparr>" using dev b unfolding dev_ok_def by blast
  moreover have "items (dev_pages d) i \<noteq> None" using b by simp
  ultimately show ?thesis using radix_tag [OF ok v] dev by (simp add: tag_blk_def dev_ok_def)
qed

text \<open>The counters are no part of the invariant.\<close>

lemma counters_ok [simp]:
  "dev_ok valid items (d\<lparr>dirty_blks := n\<rparr>) = dev_ok valid items d" "dev_ok valid items (d\<lparr>tsync_blks := n\<rparr>) = dev_ok valid items d"
  "dev_ok valid items (d\<lparr>write_blks := n\<rparr>) = dev_ok valid items d" "dev_ok valid items (d\<lparr>read_blks := n\<rparr>) = dev_ok valid items d"
  "only_fresh re d0 (d\<lparr>write_blks := n\<rparr>) = only_fresh re d0 d" "only_fresh re d0 (d\<lparr>read_blks := n\<rparr>) = only_fresh re d0 d"
  by (simp_all add: dev_ok_def only_fresh_def)

definition grown :: "('t \<Rightarrow> bool) \<Rightarrow> ('t \<Rightarrow> u64 \<Rightarrow> nat option) \<Rightarrow> rd_env \<Rightarrow> 't dummy_device \<Rightarrow> 't dummy_device \<Rightarrow> bool" where
  "grown valid items re d d' \<longleftrightarrow> dev_ok valid items d' \<and> only_fresh re d d' \<and>
     items (dev_pages d) \<subseteq>\<^sub>m items (dev_pages d')"

lemma grown_refl: "dev_ok valid items d \<Longrightarrow> grown valid items re d d"
  by (simp add: grown_def only_fresh_refl)

lemma grown_trans: "grown valid items re d d' \<Longrightarrow> grown valid items re d' d'' \<Longrightarrow> grown valid items re d d''"
  unfolding grown_def using only_fresh_trans map_le_trans by blast

lemma grown_ok: "grown valid items re d d' \<Longrightarrow> dev_ok valid items d'"
  by (simp add: grown_def)

lemma insert_grown:
  assumes ok: "radix_ok ops valid items tagged" and dev: "dev_ok valid items d"
    and ins: "dev_insert_page ops re d sct = (r, d')"
  shows "grown valid items re d d'"
proof -
  note i = dev_insert_page_ok [OF assms]
  have v: "valid (dev_pages d)" using dev by (simp add: dev_ok_def)
  have "items (dev_pages d) \<subseteq>\<^sub>m items (dev_pages d')"
  proof (cases "items (dev_pages d) (blk_index sct)")
    case None
    then show ?thesis using i by (cases r) (auto simp: map_le_def split: if_splits)
  next
    case (Some b)
    then have "d' = d" using ins by (simp add: dev_insert_page_def dev_lookup_blk_def radix_okD(3) [OF ok v])
    then show ?thesis by simp
  qed
  then show ?thesis using i by (simp add: grown_def)
qed

text \<open>A write that found or made its block \<open>b\<close>: both tags set, all counters up.\<close>

lemma mark_grown:
  assumes ok: "radix_ok ops valid items tagged" and dev: "dev_ok valid items d" and b: "items (dev_pages d) i = Some b"
  defines "d' \<equiv> set_blk_tsync ops b (set_blk_dirty ops b d)"
  shows "grown valid items re d d' \<and> dirty_blks d' = dirty_blks d + 1 \<and> tsync_blks d' = tsync_blks d + 1 \<and>
    tagged (dev_pages d') = (\<lambda>g. if g = RADIX_TREE_TAG_DIRTY \<or> g = RADIX_TREE_TAG_TSYNC
      then insert i (tagged (dev_pages d) g) else tagged (dev_pages d) g)"
proof -
  let ?d1 = "d\<lparr>dirty_blks := dirty_blks d + 1\<rparr>" and ?d2 = "set_blk_dirty ops b d"
  have t1: "dev_ok valid items ?d2" "items (dev_pages ?d2) = items (dev_pages d)" "slab ?d2 = slab d"
    "slab_calls ?d2 = slab_calls d"
    "tagged (dev_pages ?d2) = (tagged (dev_pages d))(RADIX_TREE_TAG_DIRTY := insert i (tagged (dev_pages d) RADIX_TREE_TAG_DIRTY))"
    using tag_blk_ok [OF ok, of ?d1 i b RADIX_TREE_TAG_DIRTY] dev b by (simp_all add: set_blk_dirty_def)
  let ?d3 = "?d2\<lparr>tsync_blks := tsync_blks ?d2 + 1\<rparr>"
  have t2: "dev_ok valid items d'" "items (dev_pages d') = items (dev_pages d)" "slab d' = slab d" "slab_calls d' = slab_calls d"
    "tagged (dev_pages d') = (tagged (dev_pages ?d2))(RADIX_TREE_TAG_TSYNC := insert i (tagged (dev_pages ?d2) RADIX_TREE_TAG_TSYNC))"
    using tag_blk_ok [OF ok, of ?d3 i b RADIX_TREE_TAG_TSYNC] t1 b by (simp_all add: d'_def set_blk_tsync_def)
  have "dirty_blks d' = dirty_blks d + 1" "tsync_blks d' = tsync_blks d + 1"
    by (simp_all add: d'_def set_blk_tsync_def set_blk_dirty_def tag_blk_def)
  moreover have "only_fresh re d d'" using t2(3,4) dev by (simp add: only_fresh_def dev_ok_def)
  moreover have "grown valid items re d d'" using t2(1,2) \<open>only_fresh re d d'\<close> by (simp add: grown_def)
  ultimately show ?thesis using t1(5) t2(5)
    by (auto simp: RADIX_TREE_TAG_DIRTY_def RADIX_TREE_TAG_TSYNC_def fun_eq_iff)
qed

lemma bd_write_parts_grown:
  assumes ok: "radix_ok ops valid items tagged"
  shows "dev_ok valid items d \<Longrightarrow> bd_write_parts ops re len ks copy offset src sct pg d = Ret (e, pg', d') \<Longrightarrow>
    grown valid items re d d'"
proof (induction ks arbitrary: copy offset src sct pg d)
  case Nil
  then show ?case by (simp add: grown_refl)
next
  case (Cons k ks)
  obtain r d1 where ins: "dev_insert_page ops re d sct = (r, d1)" by fastforce
  note g1 = insert_grown [OF ok Cons.prems(1) ins]
  show ?case
  proof (cases r)
    case None
    then show ?thesis using Cons.prems(2) ins g1 by simp
  next
    case (Some b)
    have "items (dev_pages d1) (blk_index sct) = Some b"
      using dev_insert_page_ok [OF ok Cons.prems(1) ins] Some by simp
    note g2 = conjunct1 [OF mark_grown [OF ok grown_ok [OF g1] this]]
    let ?d2 = "set_blk_tsync ops b (set_blk_dirty ops b d1)"
    let ?d3 = "?d2\<lparr>write_blks := write_blks ?d2 + 1\<rparr>"
    have g3: "grown valid items re d ?d3" using grown_trans [OF g1 g2] by (simp add: grown_def)
    have "grown valid items re ?d3 d'"
      using Cons.prems(2) ins Some by (intro Cons.IH grown_ok [OF g3]) (auto simp: Let_def split: if_splits)
    then show ?thesis by (rule grown_trans [OF g3])
  qed
qed

lemma bd_read_parts_grown:
  assumes ok: "radix_ok ops valid items tagged"
  shows "dev_ok valid items d \<Longrightarrow> bd_read_parts ops re len ks copy offset dst sct pg d = Ret (e, pg', d') \<Longrightarrow>
    grown valid items re d d'"
proof (induction ks arbitrary: copy offset dst sct pg d)
  case Nil
  then show ?case by (simp add: grown_refl)
next
  case (Cons k ks)
  obtain r d1 where ins: "dev_insert_page ops re d sct = (r, d1)" by fastforce
  note g1 = insert_grown [OF ok Cons.prems(1) ins]
  show ?case
  proof (cases r)
    case None
    then show ?thesis using Cons.prems(2) ins g1 by simp
  next
    case (Some b)
    let ?d2 = "d1\<lparr>read_blks := read_blks d1 + 1\<rparr>"
    have g2: "grown valid items re d ?d2" using g1 by (simp add: grown_def)
    have "grown valid items re ?d2 d'"
      using Cons.prems(2) ins Some by (intro Cons.IH grown_ok [OF g2]) (auto simp: Let_def split: if_splits)
    then show ?thesis by (rule grown_trans [OF g2])
  qed
qed

lemma simp_segs_grown:
  assumes ok: "radix_ok ops valid items tagged"
  shows "dev_ok valid items d \<Longrightarrow> simp_segs ops re w sgs sct d = Ret (sgs', d') \<Longrightarrow> grown valid items re d d'"
proof (induction sgs arbitrary: sct d sgs')
  case Nil
  then show ?case by (simp add: grown_refl)
next
  case (Cons sg sgs)
  obtain e pg d1 where one: "(if w then blk_dev_write else blk_dev_read) ops re (sg_page sg) (sg_len sg) (sg_off sg) sct d =
      Ret (e, pg, d1)" using Cons.prems(2) by (auto simp: bind_outcome_Ret_iff)
  then have g: "grown valid items re d d1"
    using bd_write_parts_grown [OF ok Cons.prems(1)] bd_read_parts_grown [OF ok Cons.prems(1)]
    by (auto simp: blk_dev_write_def blk_dev_read_def Let_def split: if_splits)
  show ?case
  proof (cases e)
    case (Some x)
    then show ?thesis using Cons.prems(2) one g by auto
  next
    case None
    then obtain sgs1 where "simp_segs ops re w sgs (sct + ucast (drop_bit 9 (sg_len sg))) d1 = Ret (sgs1, d')"
      using Cons.prems(2) one by (auto simp: bind_outcome_Ret_iff)
    then show ?thesis using Cons.IH [OF grown_ok [OF g]] grown_trans [OF g] by blast
  qed
qed

text \<open>
  C33 The device keeps its blocks well-formed through every request: each item of the tree is an
  allocated block that knows its index, and no block is lost. But a request never stores a byte:
  the blocks that were there stay as they were, and every block made holds what the page allocator
  left in its page, whatever the bio carried.
\<close>

theorem simp_make_request_stores_nothing:
  assumes "radix_ok ops valid items tagged" "dev_ok valid items d"
    and "simp_make_request ops re w sgs sct d = Ret (sgs', d')"
  shows "dev_ok valid items d' \<and> items (dev_pages d) \<subseteq>\<^sub>m items (dev_pages d') \<and>
    (\<forall>b. slab d b \<noteq> None \<longrightarrow> slab d' b = slab d b) \<and>
    (\<forall>b blk. slab d b = None \<longrightarrow> slab d' b = Some blk \<longrightarrow> rd_page re b = Some (ib_page blk))"
proof -
  have g: "grown valid items re d d'"
    using simp_segs_grown [OF assms(1,2)] assms(3) by (simp add: simp_make_request_def)
  have "\<forall>b \<ge> slab_calls d. slab d b = None" using assms(2) by (simp add: dev_ok_def)
  then have "slab d' b = slab d b" if "slab d b \<noteq> None" for b
    using g that by (metis grown_def not_le only_fresh_def)
  moreover have "rd_page re b = Some (ib_page blk)" if "slab d b = None" "slab d' b = Some blk" for b blk
    using g that by (cases "b < slab_calls d") (auto simp: grown_def only_fresh_def)
  ultimately show ?thesis using g by (auto simp: grown_def)
qed

text \<open>
  Marking a block sets both tags of its index and counts up both counters every time, also when
  the block is dirty already (the comment over \<open>set_blk_dirty\<close> promises a test): after that the number
  of dirty indexes is unchanged while the counter of dirty blocks has grown.
\<close>

lemma marking_counts_again:
  assumes "radix_ok ops valid items tagged" "dev_ok valid items d" "items (dev_pages d) i = Some b"
    and "d' = set_blk_tsync ops b (set_blk_dirty ops b d)"
  shows "dirty_blks d' = dirty_blks d + 1 \<and> tsync_blks d' = tsync_blks d + 1 \<and>
    tagged (dev_pages d') RADIX_TREE_TAG_DIRTY = insert i (tagged (dev_pages d) RADIX_TREE_TAG_DIRTY) \<and>
    tagged (dev_pages d') RADIX_TREE_TAG_TSYNC = insert i (tagged (dev_pages d) RADIX_TREE_TAG_TSYNC) \<and>
    items (dev_pages d') = items (dev_pages d)"
proof -
  have "items (dev_pages d') = items (dev_pages d)"
    using tag_blk_ok [OF assms(1), of "d\<lparr>dirty_blks := dirty_blks d + 1\<rparr>" i b RADIX_TREE_TAG_DIRTY] assms(2,3)
      tag_blk_ok [OF assms(1), of "(set_blk_dirty ops b d)\<lparr>tsync_blks := tsync_blks (set_blk_dirty ops b d) + 1\<rparr>" i b
        RADIX_TREE_TAG_TSYNC]
    by (simp add: assms(4) set_blk_dirty_def set_blk_tsync_def)
  then show ?thesis using mark_grown [OF assms(1-3)] assms(4) by simp
qed

section \<open>The scans\<close>

lemma sorted_cut:
  fixes L :: "'a :: linorder list"
  assumes "sorted_wrt (<) L" "take n L \<noteq> []"
  shows "{i \<in> set L. last (take n L) < i} = set (drop n L)"
proof -
  define A B where "A = take n L" and "B = drop n L"
  have L: "L = A @ B" and s: "sorted_wrt (<) (A @ B)" and ne: "A \<noteq> []" using assms by (simp_all add: A_def B_def)
  obtain A' m where A: "A = A' @ [m]" using ne by (metis rev_exhaust)
  show ?thesis unfolding A_def [symmetric] B_def [symmetric] unfolding L using s by (auto simp: A sorted_wrt_append dest: less_asym)
qed

lemma succ_le_iff: "unat (m :: u64) < 2 ^ 61 \<Longrightarrow> m + 1 \<le> i \<longleftrightarrow> m < i"
proof -
  assume "unat m < 2 ^ 61"
  then have "unat (m + 1) = unat m + 1" by (subst unat_add_no_wrap) simp_all
  then show ?thesis by (simp add: word_le_nat_alt word_less_nat_alt Suc_le_eq)
qed

text \<open>A batch of the index set from \<open>p\<close> on, and what is left behind it.\<close>

lemma batch:
  assumes "finite T" "\<forall>i \<in> T. unat i < 2 ^ 61" "T \<noteq> {}" "0 < n" "L = sorted_list_of_set (T :: u64 set)"
  shows "take n L \<noteq> []" "last (take n L) \<in> T" "{i \<in> T. last (take n L) + 1 \<le> i} = set (drop n L)"
    "sorted_wrt (<) L" "set L = T" "length (take n L) + card (set (drop n L)) = card T" "card (set (drop n L)) < card T"
proof -
  show L: "set L = T" and s: "sorted_wrt (<) L" using assms(1,5) by simp_all
  then have "L \<noteq> []" using assms(3) by auto
  then show ne: "take n L \<noteq> []" using assms(4) by simp
  then show m: "last (take n L) \<in> T" using L by (metis in_set_takeD last_in_set)
  show "{i \<in> T. last (take n L) + 1 \<le> i} = set (drop n L)"
    using sorted_cut [OF s ne] succ_le_iff assms(2) m L by simp
  have d: "distinct L" using assms(5) by simp
  have "card T = length L" using d L distinct_card by metis
  moreover have "card (set (drop n L)) = length L - n" using d by (simp add: distinct_card)
  ultimately show "length (take n L) + card (set (drop n L)) = card T" "card (set (drop n L)) < card T"
    using \<open>L \<noteq> []\<close> assms(4) by (simp_all add: min_def)
qed

lemma find_loop_counts:
  assumes ok: "radix_ok ops valid items tagged" and dev: "dev_ok valid items d"
    and fin: "\<forall>i \<in> tagged (dev_pages d) g. i \<le> fin"
  shows "find_loop ops d g fin index cnt = Some (cnt + card {i \<in> tagged (dev_pages d) g. index \<le> i})"
proof (induction "card {i \<in> tagged (dev_pages d) g. index \<le> i}" arbitrary: index cnt rule: less_induct)
  case less
  let ?T = "{i \<in> tagged (dev_pages d) g. index \<le> i}"
  have v: "valid (dev_pages d)" using dev by (simp add: dev_ok_def)
  have sub: "?T \<subseteq> dom (items (dev_pages d))" using radix_okD(2) [OF ok v] by blast
  then have T: "finite ?T" "\<forall>i \<in> ?T. unat i < 2 ^ 61"
    using radix_okD(1) [OF ok v] dev by (auto simp: dev_ok_def intro: finite_subset)
  define L where "L = sorted_list_of_set ?T"
  have get: "find_get_blks_tag ops d index g BLKS_VEC_SIZE = (map (\<lambda>i. the (items (dev_pages d) i)) (take 16 L),
      if take 16 L = [] then index else last (take 16 L) + 1)"
  proof (cases "take 16 L = []")
    case True
    then show ?thesis by (simp add: find_get_blks_tag_def radix_okD(5) [OF ok v] take_map L_def [symmetric] BLKS_VEC_SIZE_def)
  next
    case False
    let ?i = "last (take 16 L)"
    have "?i \<in> dom (items (dev_pages d))" 
    proof -
      have "set L = ?T" using T(1) by (simp add: L_def)
      then show ?thesis using in_set_takeD [OF last_in_set [OF False]] sub by blast
    qed
    then obtain b pg where "items (dev_pages d) ?i = Some b" "slab d b = Some \<lparr>ib_page = pg, ib_index = ?i\<rparr>"
      using dev by (fastforce simp: dev_ok_def)
    then show ?thesis using False
      by (simp add: find_get_blks_tag_def radix_okD(5) [OF ok v] take_map L_def [symmetric] BLKS_VEC_SIZE_def last_map)
  qed
  show ?case
  proof (cases "?T = {}")
    case True
    then have "L = []" by (simp add: L_def)
    then show ?thesis using get True by (simp add: find_loop.simps)
  next
    case False
    note b = batch [OF T False _ L_def, of 16, OF zero_less_numeral]
    have "index \<le> fin" using False fin by (auto intro: order_trans)
    then have step: "find_loop ops d g fin index cnt = find_loop ops d g fin (last (take 16 L) + 1) (cnt + length (take 16 L))"
      using get b(1) by (subst find_loop.simps) simp
    have "{i \<in> tagged (dev_pages d) g. last (take 16 L) + 1 \<le> i} = {i \<in> ?T. last (take 16 L) + 1 \<le> i}"
    proof -
      have m: "index \<le> last (take 16 L)" "unat (last (take 16 L)) < 2 ^ 61" using b(2) T(2) by auto
      then show ?thesis unfolding succ_le_iff [OF m(2)] by (auto dest: order.strict_trans1)
    qed
    then have rest: "{i \<in> tagged (dev_pages d) g. last (take 16 L) + 1 \<le> i} = set (drop 16 L)" using b(3) by (rule trans)
    have "find_loop ops d g fin (last (take 16 L) + 1) (cnt + length (take 16 L)) =
        Some (cnt + length (take 16 L) + card (set (drop 16 L)))"
      using less [of "last (take 16 L) + 1" "cnt + length (take 16 L)"] unfolding rest using b(7) by blast
    then show ?thesis unfolding step b(6) [symmetric] by (simp only: add.assoc)
  qed
qed

section \<open>Freeing the blocks\<close>

text \<open>What freeing the indexes \<open>X\<close> leaves.\<close>

definition freed :: "('t \<Rightarrow> u64 \<Rightarrow> nat option) \<Rightarrow> u64 set \<Rightarrow> 't dummy_device \<Rightarrow> 't dummy_device \<Rightarrow> bool" where
  "freed items X d d' \<longleftrightarrow> items (dev_pages d') = items (dev_pages d) |` (- X) \<and>
     slab d' = (\<lambda>b. if \<exists>i \<in> X. items (dev_pages d) i = Some b then None else slab d b)"

lemma freed_empty: "freed items {} d d"
  by (simp add: freed_def fun_eq_iff restrict_map_def)

lemma freed_trans:
  assumes "freed items X d d'" "freed items Y d' d''" "X \<inter> Y = {}"
  shows "freed items (X \<union> Y) d d''"
proof -
  have "items (dev_pages d') i = items (dev_pages d) i" if "i \<in> Y" for i
    using assms(1,3) that by (auto simp: freed_def restrict_map_def)
  then show ?thesis using assms(1,2) by (auto simp: freed_def fun_eq_iff restrict_map_def)
qed

lemma free_one:
  assumes ok: "radix_ok ops valid items tagged" and dev: "dev_ok valid items d"
    and i: "items (dev_pages d) i = Some b" and del: "rt_delete ops (dev_pages d) i = (r, t)"
  shows "dev_ok valid items (d\<lparr>dev_pages := t, slab := (slab d)(b := None)\<rparr>) \<and>
    freed items {i} d (d\<lparr>dev_pages := t, slab := (slab d)(b := None)\<rparr>)"
proof -
  have v: "valid (dev_pages d)" using dev by (simp add: dev_ok_def)
  have t: "valid t" "items t = (items (dev_pages d))(i := None)"
    using radix_delete [OF ok v, of i] del by (metis prod.inject)+
  have blk: "j = i" if j: "items (dev_pages d) j = Some b" for j
  proof -
    obtain pg pg' where "slab d b = Some \<lparr>ib_page = pg, ib_index = i\<rparr>" "slab d b = Some \<lparr>ib_page = pg', ib_index = j\<rparr>"
      using dev i j unfolding dev_ok_def by blast
    then show ?thesis by simp
  qed
  have "dev_ok valid items (d\<lparr>dev_pages := t, slab := (slab d)(b := None)\<rparr>)"
    using dev t blk by (auto simp: dev_ok_def)
  moreover have "freed items {i} d (d\<lparr>dev_pages := t, slab := (slab d)(b := None)\<rparr>)"
    using t i by (auto simp: freed_def fun_eq_iff restrict_map_def)
  ultimately show ?thesis by blast
qed

lemma free_batch_ok:
  assumes ok: "radix_ok ops valid items tagged"
  shows "dev_ok valid items d \<Longrightarrow> sorted_wrt (<) L \<Longrightarrow> set L \<subseteq> dom (items (dev_pages d)) \<Longrightarrow> \<forall>i \<in> set L. pos \<le> i \<Longrightarrow>
    \<exists>d'. free_batch ops (map (\<lambda>i. the (items (dev_pages d) i)) L) pos d = Ret (last (pos # L), d') \<and>
      dev_ok valid items d' \<and> freed items (set L) d d'"
proof (induction L arbitrary: d pos)
  case Nil
  then show ?case by (simp add: freed_empty)
next
  case (Cons i L)
  obtain b where i: "items (dev_pages d) i = Some b" using Cons.prems(3) by auto
  then obtain pg where blk: "slab d b = Some \<lparr>ib_page = pg, ib_index = i\<rparr>" using Cons.prems(1) unfolding dev_ok_def by blast
  obtain r t where del: "rt_delete ops (dev_pages d) i = (r, t)" by fastforce
  let ?d1 = "d\<lparr>dev_pages := t, slab := (slab d)(b := None)\<rparr>"
  note one = free_one [OF ok Cons.prems(1) i del]
  have keep: "items (dev_pages ?d1) j = items (dev_pages d) j" if "j \<in> set L" for j
    using one Cons.prems(2) that by (auto simp: freed_def restrict_map_def)
  then have m: "map (\<lambda>j. the (items (dev_pages d) j)) L = map (\<lambda>j. the (items (dev_pages ?d1) j)) L" by (intro map_cong) auto
  have "set L \<subseteq> dom (items (dev_pages ?d1))"
  proof
    fix j assume j: "j \<in> set L"
    then have "j \<in> dom (items (dev_pages d))" using Cons.prems(3) by auto
    then show "j \<in> dom (items (dev_pages ?d1))" using keep [OF j] by (simp add: dom_def)
  qed
  moreover have "\<forall>j \<in> set L. i \<le> j" using Cons.prems(2) by (auto intro: less_imp_le)
  ultimately obtain d' where d': "free_batch ops (map (\<lambda>j. the (items (dev_pages ?d1) j)) L) i ?d1 = Ret (last (i # L), d')"
    "dev_ok valid items d'" "freed items (set L) ?d1 d'"
    using Cons.IH [of ?d1 i] one Cons.prems(2) by auto
  have "{i} \<inter> set L = {}" using Cons.prems(2) by auto
  with one d'(3) have fr: "freed items (set (i # L)) d d'" using freed_trans [of items "{i}" d ?d1 "set L" d'] by simp
  have np: "\<not> i < pos" using Cons.prems(4) by (simp add: not_less)
  have "free_batch ops (map (\<lambda>i. the (items (dev_pages d) i)) (i # L)) pos d = Ret (last (pos # i # L), d')"
    using d'(1) np by (simp add: i blk del m)
  then show ?case using d'(2) fr by blast
qed

lemma free_loop_ok:
  assumes ok: "radix_ok ops valid items tagged" and dev: "dev_ok valid items d"
    and pos: "\<forall>i \<in> dom (items (dev_pages d)). pos \<le> i"
  shows "\<exists>d'. free_loop ops pos cnt d = Some (Ret (cnt + card (dom (items (dev_pages d))), d')) \<and>
    dev_ok valid items d' \<and> freed items (dom (items (dev_pages d))) d d'"
  using dev pos
proof (induction "card (dom (items (dev_pages d)))" arbitrary: pos cnt d rule: less_induct)
  case less
  let ?D = "dom (items (dev_pages d))"
  have v: "valid (dev_pages d)" using less.prems(1) by (simp add: dev_ok_def)
  have D: "finite ?D" "\<forall>i \<in> ?D. unat i < 2 ^ 61" "{i \<in> ?D. pos \<le> i} = ?D"
    using radix_okD(1) [OF ok v] less.prems by (auto simp: dev_ok_def)
  define L where "L = sorted_list_of_set ?D"
  have gang: "rt_gang_lookup ops (dev_pages d) pos BLKS_VEC_SIZE = map (\<lambda>i. the (items (dev_pages d) i)) (take 16 L)"
    unfolding radix_okD(4) [OF ok v] D(3) by (simp add: BLKS_VEC_SIZE_def take_map L_def)
  show ?case
  proof (cases "?D = {}")
    case True
    then have "L = []" by (simp add: L_def)
    then show ?thesis using gang True less.prems(1) by (simp add: free_loop.simps Let_def freed_empty)
  next
    case False
    note b = batch [OF D(1,2) False _ L_def, of 16, OF zero_less_numeral]
    have s: "sorted_wrt (<) (take 16 L)" using b(4) by (metis append_take_drop_id sorted_wrt_append)
    have sub: "set (take 16 L) \<subseteq> ?D" using b(5) set_take_subset by metis
    have "\<forall>i \<in> set (take 16 L). pos \<le> i" using sub less.prems(2) by blast
    from free_batch_ok [OF ok less.prems(1) s sub this] b(1) obtain d1 where d1:
      "free_batch ops (map (\<lambda>i. the (items (dev_pages d) i)) (take 16 L)) pos d = Ret (last (take 16 L), d1)"
      "dev_ok valid items d1" "freed items (set (take 16 L)) d d1" by auto
    have "set L = set (take 16 L) \<union> set (drop 16 L)" by (metis append_take_drop_id set_append)
    moreover have "set (take 16 L) \<inter> set (drop 16 L) = {}"
      using set_take_disj_set_drop_if_distinct [of L 16 16] by (simp add: L_def)
    ultimately have dom1: "dom (items (dev_pages d1)) = set (drop 16 L)" and un: "?D = set (take 16 L) \<union> set (drop 16 L)"
      and dis: "set (take 16 L) \<inter> set (drop 16 L) = {}"
      using d1(3) b(5) by (auto simp: freed_def)
    have "\<forall>i \<in> dom (items (dev_pages d1)). last (take 16 L) + 1 \<le> i" unfolding dom1 using b(3) by blast
    moreover have "card (dom (items (dev_pages d1))) < card ?D" unfolding dom1 using b(7) .
    ultimately obtain d' where d': "free_loop ops (last (take 16 L) + 1) (cnt + length (take 16 L)) d1 =
        Some (Ret (cnt + length (take 16 L) + card (set (drop 16 L)), d'))"
      "dev_ok valid items d'" "freed items (set (drop 16 L)) d1 d'"
      using less.hyps [OF _ d1(2)] unfolding dom1 by blast
    have "free_loop ops pos cnt d = free_loop ops (last (take 16 L) + 1) (cnt + length (take 16 L)) d1"
      using gang b(1) d1(1) by (subst free_loop.simps) (simp add: Let_def)
    then have "free_loop ops pos cnt d = Some (Ret (cnt + card ?D, d'))"
      unfolding d'(1) b(6) [symmetric] by (simp only: add.assoc)
    moreover have "freed items ?D d d'" unfolding un by (rule freed_trans [OF d1(3) d'(3) dis])
    ultimately show ?thesis using d'(2) by blast
  qed
qed


lemma find_tag_blks_counts:
  assumes "radix_ok ops valid items tagged" "dev_ok valid items d" "\<forall>i \<in> tagged (dev_pages d) g. i \<le> drop_bit 3 (dd_size d)"
  shows "find_tag_blks ops d g = Some (card (tagged (dev_pages d) g))"
  using find_loop_counts [OF assms, of 0 0] by (simp add: find_tag_blks_def)

lemma free_all_blks_ok:
  assumes "radix_ok ops valid items tagged" "dev_ok valid items d"
  shows "\<exists>d'. free_all_blks ops d = Some (Ret (card (dom (items (dev_pages d))), d')) \<and>
    dev_ok valid items d' \<and> freed items (dom (items (dev_pages d))) d d'"
  using free_loop_ok [OF assms, of 0 0] by (simp add: free_all_blks_def)

text \<open>
  C34 Unloading the module ends: both scans, sixteen blocks at a time, count every tagged index once,
  and the loop of \<open>free_all_blks\<close> empties the tree and frees every block of it. What stays allocated
  are the blocks that never got into the tree.
\<close>

theorem radix_block_exit_frees:
  assumes "radix_ok ops valid items tagged" "dev_ok valid items d"
    and "\<forall>g. \<forall>i \<in> tagged (dev_pages d) g. i \<le> drop_bit 3 (dd_size d)"
  shows "\<exists>d'. radix_block_exit ops d = Some (Ret (card (tagged (dev_pages d) RADIX_TREE_TAG_DIRTY),
      card (tagged (dev_pages d) RADIX_TREE_TAG_TSYNC), d')) \<and> items (dev_pages d') = Map.empty \<and>
    (\<forall>b. slab d' b = (if b \<in> ran (items (dev_pages d)) then None else slab d b))"
proof -
  obtain d' where d': "free_all_blks ops d = Some (Ret (card (dom (items (dev_pages d))), d'))"
    "freed items (dom (items (dev_pages d))) d d'" using free_all_blks_ok [OF assms(1,2)] by blast
  have "items (dev_pages d') = Map.empty" using d'(2) by (auto simp: freed_def fun_eq_iff restrict_map_def)
  moreover have "slab d' b = (if b \<in> ran (items (dev_pages d)) then None else slab d b)" for b
    using d'(2) by (auto simp: freed_def ran_def)
  moreover have "radix_block_exit ops d = Some (Ret (card (tagged (dev_pages d) RADIX_TREE_TAG_DIRTY),
      card (tagged (dev_pages d) RADIX_TREE_TAG_TSYNC), d'))"
    using assms(3) d'(1) by (simp add: radix_block_exit_def find_tag_blks_counts [OF assms(1,2)])
  ultimately show ?thesis by blast
qed

section \<open>A radix tree\<close>

text \<open>The promises can be kept: a tree as a list of items and a list of tags.\<close>

type_synonym list_tree = "(u64 \<times> nat) list \<times> (nat \<times> u64) list"

definition list_items :: "list_tree \<Rightarrow> u64 \<Rightarrow> nat option" where
  "list_items t = map_of (fst t)"

definition list_tagged :: "list_tree \<Rightarrow> nat \<Rightarrow> u64 set" where
  "list_tagged t g = set (map snd (filter (\<lambda>p. fst p = g) (snd t)))"

definition list_valid :: "list_tree \<Rightarrow> bool" where
  "list_valid t \<longleftrightarrow> (\<forall>p \<in> set (snd t). list_items t (snd p) \<noteq> None)"

definition list_ops :: "list_tree radix_ops" where
  "list_ops = \<lparr>rt_lookup = list_items,
     rt_insert = (\<lambda>t i b. if list_items t i = None then (True, (i, b) # fst t, snd t) else (False, t)),
     rt_tag_set = (\<lambda>t i g. (fst t, (g, i) # snd t)),
     rt_delete = (\<lambda>t i. (list_items t i, filter (\<lambda>p. fst p \<noteq> i) (fst t), filter (\<lambda>p. snd p \<noteq> i) (snd t))),
     rt_gang_lookup = (\<lambda>t p n. take n (map (\<lambda>i. the (list_items t i)) (sort (remdups (filter (\<lambda>i. p \<le> i) (map fst (fst t))))))),
     rt_tagged = (\<lambda>t g p. map (\<lambda>i. the (list_items t i))
       (sort (remdups (filter (\<lambda>i. p \<le> i) (map snd (filter (\<lambda>q. fst q = g) (snd t)))))))\<rparr>"

lemma map_of_filter_key: "map_of (filter (\<lambda>p. fst p \<noteq> i) xs) = (map_of xs)(i := None)"
  by (induction xs) (auto simp: fun_eq_iff)

lemma list_ops_ok: "radix_ok list_ops list_valid list_items list_tagged"
proof -
  have keys: "{i \<in> dom (list_items t). p \<le> i} = set (filter (\<lambda>i. p \<le> i) (map fst (fst t)))" for t p
    by (auto simp: list_items_def dom_map_of_conv_image_fst)
  have tags: "{i \<in> list_tagged t g. p \<le> i} = set (filter (\<lambda>i. p \<le> i) (map snd (filter (\<lambda>q. fst q = g) (snd t))))" for t g p
    by (auto simp: list_tagged_def)
  have gang: "rt_gang_lookup list_ops t p n = take n (map (\<lambda>i. the (list_items t i)) (sorted_list_of_set {i \<in> dom (list_items t). p \<le> i}))"
    for t p n unfolding keys sorted_list_of_set_sort_remdups by (simp add: list_ops_def)
  have tagged: "rt_tagged list_ops t g p = map (\<lambda>i. the (list_items t i)) (sorted_list_of_set {i \<in> list_tagged t g. p \<le> i})"
    for t g p unfolding tags sorted_list_of_set_sort_remdups by (simp add: list_ops_def)
  have del: "rt_delete list_ops t i = (list_items t i, filter (\<lambda>p. fst p \<noteq> i) (fst t), filter (\<lambda>p. snd p \<noteq> i) (snd t)) \<and>
      list_items (filter (\<lambda>p. fst p \<noteq> i) (fst t), filter (\<lambda>p. snd p \<noteq> i) (snd t)) = (list_items t)(i := None) \<and>
      list_tagged (filter (\<lambda>p. fst p \<noteq> i) (fst t), filter (\<lambda>p. snd p \<noteq> i) (snd t)) = (\<lambda>g. list_tagged t g - {i})" for t i
    by (auto simp: list_ops_def list_items_def map_of_filter_key list_tagged_def fun_eq_iff)
  show ?thesis unfolding radix_ok_def gang tagged
  proof (intro allI impI conjI refl)
    fix t assume v: "list_valid t"
    show "finite (dom (list_items t))" by (simp add: list_items_def finite_dom_map_of)
    show "list_tagged t g \<subseteq> dom (list_items t)" for g using v by (auto simp: list_tagged_def list_valid_def)
    show "rt_lookup list_ops t i = list_items t i" for i by (simp add: list_ops_def)
    show "\<exists>t'. rt_insert list_ops t i b = (True, t') \<and> list_valid t' \<and> list_items t' = (list_items t)(i \<mapsto> b) \<and>
        list_tagged t' = list_tagged t" if "list_items t i = None" for i b
      using v that by (auto simp: list_ops_def list_valid_def list_items_def list_tagged_def fun_eq_iff)
    show "list_valid (rt_tag_set list_ops t i g)" if "list_items t i \<noteq> None" for i g
      using v that by (auto simp: list_ops_def list_valid_def list_items_def)
    show "list_items (rt_tag_set list_ops t i g) = list_items t" for i g by (simp add: list_ops_def list_items_def)
    show "list_tagged (rt_tag_set list_ops t i g) = (list_tagged t)(g := insert i (list_tagged t g))" for i g
      by (auto simp: list_ops_def list_tagged_def fun_eq_iff)
    show "\<exists>t'. rt_delete list_ops t i = (list_items t i, t') \<and> list_valid t' \<and> list_items t' = (list_items t)(i := None) \<and>
        list_tagged t' = (\<lambda>g. list_tagged t g - {i})" for i
      using v del [of t i] by (intro exI [of _ "snd (rt_delete list_ops t i)"]) (auto simp: list_valid_def)
  qed
qed

text \<open>A device with one dirty block, and an environment that gives pages of eight bytes.\<close>

definition demo_dev :: "list_tree dummy_device" where
  "demo_dev = (new_device ([(5, 0)], [(0, 5)]))\<lparr>slab := [0 \<mapsto> \<lparr>ib_page = replicate 8 7, ib_index = 5\<rparr>], slab_calls := 1\<rparr>"

definition demo_env :: rd_env where
  "demo_env = \<lparr>rd_blk = (\<lambda>_. True), rd_page = (\<lambda>_. Some (replicate 8 0)), rd_preload = (\<lambda>_. True)\<rparr>"

lemma demo_dev_ok: "dev_ok list_valid list_items demo_dev"
  by (auto simp: dev_ok_def demo_dev_def new_device_def list_valid_def list_items_def split: if_splits)

theorem radix_block_exit_frees_witness:
  "\<exists>d'. radix_block_exit list_ops demo_dev = Some (Ret (1, 0, d')) \<and> list_items (dev_pages d') = Map.empty \<and> slab d' 0 = None"
proof -
  have "\<forall>g. \<forall>i \<in> list_tagged (dev_pages demo_dev) g. i \<le> drop_bit 3 (dd_size demo_dev)"
    by (auto simp: list_tagged_def demo_dev_def new_device_def SIMP_BLKDEV_BYTES_def drop_bit_eq_div word_le_nat_alt unat_div)
  from radix_block_exit_frees [OF list_ops_ok demo_dev_ok this] show ?thesis
    by (auto simp: list_tagged_def list_items_def demo_dev_def new_device_def RADIX_TREE_TAG_DIRTY_def RADIX_TREE_TAG_TSYNC_def)
qed

text \<open>A write of no bytes to a sector without a block: the new block has the allocator's page.\<close>

theorem simp_make_request_stores_nothing_witness:
  "\<exists>sgs' d'. simp_make_request list_ops demo_env True [\<lparr>sg_page = replicate 8 9, sg_len = 0, sg_off = 0\<rparr>] 8 demo_dev = Ret (sgs', d') \<and>
    slab d' 1 = Some \<lparr>ib_page = replicate 8 0, ib_index = 1\<rparr> \<and> slab d' 0 = slab demo_dev 0"
proof -
  let ?sgs = "[\<lparr>sg_page = replicate 8 9, sg_len = 0, sg_off = 0\<rparr>]"
  have n: "io_nr 0 0 = 1" "io_copy 0 0 = 0" "io_offset 8 = 0" "blk_index 8 = 1" "io_sectors 0 = 0"
    by (simp_all add: io_offset_def io_nr_def io_copy_def io_sectors_def blk_index_def PAGE_SECTORS_def)
  have w: "\<exists>d'. blk_dev_write list_ops demo_env (replicate 8 9) 0 0 8 demo_dev = Ret (None, replicate 8 9, d') \<and>
      slab d' = [0 \<mapsto> \<lparr>ib_page = replicate 8 7, ib_index = 5\<rparr>, 1 \<mapsto> \<lparr>ib_page = replicate 8 0, ib_index = 1\<rparr>]"
    by (simp add: blk_dev_write_def Let_def n dev_insert_page_def dev_lookup_blk_def list_ops_def memcpy_def
        list_items_def demo_dev_def demo_env_def new_device_def set_blk_dirty_def set_blk_tsync_def tag_blk_def)
  then obtain d' where d': "blk_dev_write list_ops demo_env (replicate 8 9) 0 0 8 demo_dev = Ret (None, replicate 8 9, d')"
    and b: "slab d' = [0 \<mapsto> \<lparr>ib_page = replicate 8 7, ib_index = 5\<rparr>, 1 \<mapsto> \<lparr>ib_page = replicate 8 0, ib_index = 1\<rparr>]" by blast
  have r: "simp_make_request list_ops demo_env True ?sgs 8 demo_dev = Ret (?sgs, d')"
    by (simp add: simp_make_request_def d')
  show ?thesis using r b simp_make_request_stores_nothing [OF list_ops_ok demo_dev_ok r] by (auto simp: demo_dev_def)
qed

end
