(* ===== verification/Rosock.thy ===== *)
theory Rosock
  imports Radix_Demo
begin

text \<open>
  The two socket experiments of \<^verbatim>\<open>src/attach/rosock\<close>, a kernel module that sends one message when it is loaded
  (\<^verbatim>\<open>libceph_client.c\<close>) and the program that receives it (\<^verbatim>\<open>osd_server.c\<close>), and the user of the demo's ioctls
  (\<^verbatim>\<open>attach/tpblkdev/ioctl_test.c\<close>).

  The answers of the socket calls and of the allocator are arguments. The client counts the sockets and
  buffers nobody has given back; the server's run is the list of what it prints and closes. What the
  server's buffer holds before the call, which the code never sets, is an argument. Printing a
  string without an end in its buffer is \<open>Bug\<close>.
\<close>

record sockaddr_in =
  sin_family :: nat
  sin_port :: nat
  sin_addr :: string

definition server_addr :: sockaddr_in where
  "server_addr = \<lparr>sin_family = 2, sin_port = 9876, sin_addr = ''10.10.11.101''\<rparr>"

section \<open>The client\<close>

record client_env =
  ce_create :: int
  ce_connect :: "sockaddr_in \<Rightarrow> int"
  ce_mem :: bool
  ce_send :: "u8 list \<Rightarrow> int"

record client =
  cl_sockets :: nat
  cl_buffers :: nat
  cl_sent :: "u8 list"
  cl_log :: "string list"

definition printk :: "string \<Rightarrow> client \<Rightarrow> client" where
  "printk t c = c\<lparr>cl_log := cl_log c @ [t]\<rparr>"

text \<open>The buffer has 1024 bytes, of which 512 are to be sent.\<close>

definition libceph_message :: "u8 list" where
  "libceph_message = take 512 (replicate 1024 0)"

definition libceph_init :: "client_env \<Rightarrow> client \<Rightarrow> int \<times> client" where
  "libceph_init e c0 =
     (let c1 = printk ''init blah blah ...'' c0; ret = ce_create e in
      if ret < 0 then (ret, printk ''client:socket create error!'' c1)
      else
        let c2 = printk ''client: socket create ok!'' (c1\<lparr>cl_sockets := cl_sockets c1 + 1\<rparr>);
            ret = ce_connect e server_addr in
        if ret \<noteq> 0 then (ret, printk ''client:connect error!'' (c2\<lparr>cl_sockets := cl_sockets c2 - 1\<rparr>))
        else
          let c3 = printk ''client:connect ok!'' c2 in
          if \<not> ce_mem e then (- 1, printk ''client: sendbuf kmalloc error!'' c3)
          else
            let c4 = c3\<lparr>cl_buffers := cl_buffers c3 + 1\<rparr>; ret = ce_send e libceph_message in
            if ret < 0 then (ret, printk ''client: kernel_sendmsg error!'' c4)
            else
              let c5 = c4\<lparr>cl_sent := cl_sent c4 @ take (nat ret) libceph_message\<rparr>;
                  c6 = (if ret \<noteq> 1024 then printk ''client: ret!=1024'' c5 else c5)
              in (0, printk ''client:send ok!'' c6))"

definition libceph_exit :: "client \<Rightarrow> client" where
  "libceph_exit c = printk ''exit blah blah ...'' c"

section \<open>The server\<close>

datatype server_act = Perror string | Line string | Received int | Text "u8 list" | Close int

record server_env =
  se_socket :: int
  se_bind :: "int \<Rightarrow> sockaddr_in \<Rightarrow> int"
  se_listen :: "int \<Rightarrow> int"
  se_accept :: "int \<Rightarrow> int"
  se_recv :: "int \<Rightarrow> int \<times> u8 list"

definition memset :: "u8 list \<Rightarrow> u32 \<Rightarrow> nat \<Rightarrow> u8 list" where
  "memset buf c n = replicate n (ucast c) @ drop n buf"

definition recv_into :: "u8 list \<Rightarrow> int \<times> u8 list \<Rightarrow> u8 list" where
  "recv_into buf r = (case r of (n, bytes) \<Rightarrow> take (nat n) bytes @ drop (nat n) buf)"

definition print_string :: "u8 list \<Rightarrow> u8 list outcome" where
  "print_string buf = (if 0 \<in> set buf then Ret (takeWhile (\<lambda>b. b \<noteq> 0) buf) else Bug)"

text \<open>The exit status and what was done. The arguments of \<open>memset\<close> are in the order the code has them.\<close>

definition osd_main :: "server_env \<Rightarrow> u8 list \<Rightarrow> (int \<times> server_act list) outcome" where
  "osd_main e stack =
     (let sockfd = se_socket e in
      if sockfd = - 1 then Ret (1, [Perror ''socket''])
      else
        let out = [Line ''create socket success''] in
        if se_bind e sockfd server_addr = - 1 then Ret (1, out @ [Perror ''bind error''])
        else if se_listen e sockfd = - 1 then Ret (1, out @ [Perror ''listen error''])
        else
          let new_fd = se_accept e sockfd in
          if new_fd = - 1 then Ret (1, out @ [Perror ''accept error''])
          else
            let buff = memset stack 1024 0; r = se_recv e new_fd; buff = recv_into buff r in
            bind_outcome (print_string buff) (\<lambda>t.
              Ret (0, out @ [Received (fst r), Text t, Close new_fd, Close sockfd])))"

section \<open>The ioctl test\<close>

datatype ioctl_call = Open string | Ioctl int u32 | Close_fd int

text \<open>The calls the test makes, whatever it is answered, and its exit status.\<close>

definition ioctl_test :: "int \<Rightarrow> ioctl_call list \<times> int" where
  "ioctl_test fd = ([Open ''/dev/simp_blkdev'', Ioctl fd (io_cmd 72 0x20), Ioctl fd (io_cmd 72 0x21), Close_fd fd], 0)"

section \<open>What they do\<close>

text \<open>
  Once the client is connected its socket is never given back, and neither is the buffer, whether the
  module is loaded in the end or not; unloading changes nothing.
\<close>

lemma libceph_leaks:
  "(let (ret, c') = libceph_init e c; conn = (0 \<le> ce_create e \<and> ce_connect e server_addr = 0) in
     cl_sockets c' = cl_sockets c + (if conn then 1 else 0) \<and>
     cl_buffers c' = cl_buffers c + (if conn \<and> ce_mem e then 1 else 0) \<and>
     (ret = 0 \<longleftrightarrow> conn \<and> ce_mem e \<and> 0 \<le> ce_send e libceph_message) \<and>
     cl_sockets (libceph_exit c') = cl_sockets c' \<and> cl_buffers (libceph_exit c') = cl_buffers c')"
  by (simp add: libceph_init_def Let_def printk_def libceph_exit_def)

text \<open>A socket sends at most what it is given, so that the complaint about the length always comes.\<close>

lemma libceph_always_complains:
  assumes "ce_send e libceph_message \<le> int (length libceph_message)" "libceph_init e c = (0, c')"
  shows "cl_log c' = cl_log c @ [''init blah blah ...'', ''client: socket create ok!'', ''client:connect ok!'',
     ''client: ret!=1024'', ''client:send ok!'']"
    "cl_sent c' = cl_sent c @ replicate (nat (ce_send e libceph_message)) 0"
proof -
  have "length libceph_message = 512" by (simp add: libceph_message_def)
  then have m: "ce_send e libceph_message \<noteq> 1024" "nat (ce_send e libceph_message) \<le> 512" using assms(1) by auto
  then show "cl_log c' = cl_log c @ [''init blah blah ...'', ''client: socket create ok!'', ''client:connect ok!'',
     ''client: ret!=1024'', ''client:send ok!'']"
    using assms(2) by (auto simp: libceph_init_def Let_def printk_def split: if_splits)
  show "cl_sent c' = cl_sent c @ replicate (nat (ce_send e libceph_message)) 0"
    using assms(2) m by (auto simp: libceph_init_def Let_def printk_def libceph_message_def split: if_splits)
qed

text \<open>
  The server clears nothing: with no bytes received, or fewer than the text needs, it prints what its stack held,
  up to a zero, or runs past the buffer. Of the client's message it prints nothing.
\<close>

lemma memset_swapped: "memset buf c 0 = buf"
  by (simp add: memset_def)

lemma osd_main_prints:
  assumes "se_socket e = fd" "fd \<noteq> - 1" "se_bind e fd server_addr \<noteq> - 1" "se_listen e fd \<noteq> - 1"
    "se_accept e fd = nfd" "nfd \<noteq> - 1" "se_recv e nfd = (n, bytes)"
  shows "osd_main e stack = (let buf = take (nat n) bytes @ drop (nat n) stack in
     if 0 \<in> set buf then Ret (0, [Line ''create socket success'', Received n,
         Text (takeWhile (\<lambda>b. b \<noteq> 0) buf), Close nfd, Close fd]) else Bug)"
  using assms by (simp add: osd_main_def Let_def memset_swapped recv_into_def print_string_def)

lemma server_prints_nothing_of_the_message:
  assumes "se_socket e = fd" "fd \<noteq> - 1" "se_bind e fd server_addr \<noteq> - 1" "se_listen e fd \<noteq> - 1"
    "se_accept e fd = nfd" "nfd \<noteq> - 1" "se_recv e nfd = (int n, take n libceph_message)" "n \<le> 512"
  shows "osd_main e stack =
    (if 0 < n then Ret (0, [Line ''create socket success'', Received (int n), Text [], Close nfd, Close fd])
     else if 0 \<in> set stack then Ret (0, [Line ''create socket success'', Received 0,
       Text (takeWhile (\<lambda>b. b \<noteq> 0) stack), Close nfd, Close fd]) else Bug)"
  using assms(8) osd_main_prints [OF assms(1-7), of stack]
  by (cases n) (auto simp: libceph_message_def Let_def min_def)

text \<open>The ioctls of the test are those the demo accepts when it has the major number 72.\<close>

lemma ioctl_test_accepted:
  "Ioctl f cmd \<in> set (fst (ioctl_test fd)) \<Longrightarrow> simp_ioctl 72 cmd = None"
  by (auto simp: ioctl_test_def simp_ioctl_def simp_ioctl_valid_def)

end
