(* ===== verification/Buffer_Heads.thy ===== *)
theory Buffer_Heads
  imports Stripe_Cache
begin

text \<open>
  What \<^verbatim>\<open>src/src/jraid5.c\<close> kept of the buffer heads of Linux 2.4: \<open>__grow_buffers\<close>, \<open>__shrink_buffers\<close> and
  \<open>__raid5_end_write_request\<close>. Nothing calls them.

  The answers of the two allocators for each slot, and of \<open>page_address\<close>, are arguments; the state has the
  buffer heads and pages in use, so that what is taken and given back can be compared. Addresses are
  numbers, 0 is the null pointer. A slot past the array, a buffer head that is not there and the release of an
  address that belongs to no page in use are \<open>Bug\<close>.
\<close>

unbundle bit_operations_syntax

section \<open>The code\<close>

record buffer_head =
  b_data :: nat
  b_page :: "nat option"

record bh_env =
  be_head :: "nat \<Rightarrow> nat option"
  be_page :: "nat \<Rightarrow> nat option"
  be_address :: "nat option \<Rightarrow> nat"

record bh_state =
  bh_cache :: "nat \<Rightarrow> nat option"
  bh_heads :: "nat \<Rightarrow> buffer_head option"
  bh_pages :: "nat set"

definition BH_SLOTS :: nat where "BH_SLOTS = 27"

primrec grow_heads :: "bh_env \<Rightarrow> nat list \<Rightarrow> bh_state \<Rightarrow> (bool \<times> bh_state) outcome" where
  "grow_heads e [] s = Ret (False, s)"
| "grow_heads e (i # is) s =
     (case be_head e i of
        None \<Rightarrow> Ret (True, s)
      | Some b \<Rightarrow>
          let s1 = (case be_page e i of None \<Rightarrow> s | Some p \<Rightarrow> s\<lparr>bh_pages := insert p (bh_pages s)\<rparr>);
              a = be_address e (be_page e i) in
          if a = 0 then Ret (True, s1\<lparr>bh_heads := (bh_heads s1)(b := None)\<rparr>)
          else if BH_SLOTS \<le> i then Bug
          else grow_heads e is (s1\<lparr>bh_heads := (bh_heads s1)(b \<mapsto> \<lparr>b_data = a, b_page = be_page e i\<rparr>),
                 bh_cache := (bh_cache s1)(i \<mapsto> b)\<rparr>))"

definition old_grow_buffers :: "bh_env \<Rightarrow> nat \<Rightarrow> bh_state \<Rightarrow> (bool \<times> bh_state) outcome" where
  "old_grow_buffers e num s = grow_heads e [0..<num] s"

definition free_page :: "bh_env \<Rightarrow> nat \<Rightarrow> bh_state \<Rightarrow> bh_state outcome" where
  "free_page e a s =
     (if \<exists>p \<in> bh_pages s. be_address e (Some p) = a
      then Ret (s\<lparr>bh_pages := {p \<in> bh_pages s. be_address e (Some p) \<noteq> a}\<rparr>) else Bug)"

primrec shrink_heads :: "bh_env \<Rightarrow> nat list \<Rightarrow> bh_state \<Rightarrow> bh_state outcome" where
  "shrink_heads e [] s = Ret s"
| "shrink_heads e (i # is) s =
     (if BH_SLOTS \<le> i then Bug
      else case bh_cache s i of
        None \<Rightarrow> Ret s
      | Some b \<Rightarrow>
          (case bh_heads s b of
             None \<Rightarrow> Bug
           | Some h \<Rightarrow> bind_outcome (free_page e (b_data h) (s\<lparr>bh_cache := (bh_cache s)(i := None)\<rparr>)) (\<lambda>s1.
               shrink_heads e is (s1\<lparr>bh_heads := (bh_heads s1)(b := None)\<rparr>))))"

definition old_shrink_buffers :: "bh_env \<Rightarrow> nat \<Rightarrow> bh_state \<Rightarrow> bh_state outcome" where
  "old_shrink_buffers e num s = shrink_heads e [0..<num] s"

text \<open>
  The completion of a write: whether \<open>jmd_error\<close> is called, and the array. \<open>heads\<close> are the buffer heads of
  the stripe's slots; the lock bit of the buffer head is cleared on every path that returns.
\<close>

definition find_head :: "nat list \<Rightarrow> nat \<Rightarrow> nat \<Rightarrow> nat" where
  "find_head heads b n = length (takeWhile (\<lambda>h. h \<noteq> b) (take n heads))"

definition old_end_write_request :: "nat list \<Rightarrow> nat \<Rightarrow> sid \<Rightarrow> bool \<Rightarrow> jraid5_conf \<Rightarrow> (bool \<times> jraid5_conf) outcome" where
  "old_end_write_request heads b st uptodate conf =
     (let disks = sint (raid_disks conf); i = find_head heads b (nat disks) in
      if int i = disks \<or> length heads \<le> i then Bug
      else bind_outcome (release_stripe_old st
               (upd_stripe st (\<lambda>sh. sh\<lparr>sh_state := set_bit STRIPE_HANDLE (sh_state sh)\<rparr>) conf)) (\<lambda>conf1.
             Ret (\<not> uptodate, conf1)))"

section \<open>What is taken is given back\<close>

text \<open>The kernel's promise: what is handed out is not in use, and addresses tell pages apart.\<close>

definition bh_env_ok :: "bh_env \<Rightarrow> bh_state \<Rightarrow> bool" where
  "bh_env_ok e s \<longleftrightarrow>
     (\<forall>i b. be_head e i = Some b \<longrightarrow> bh_heads s b = None \<and> (\<forall>j. be_head e j = Some b \<longrightarrow> j = i)) \<and>
     (\<forall>i p. be_page e i = Some p \<longrightarrow> p \<notin> bh_pages s \<and> (\<forall>j. be_page e j = Some p \<longrightarrow> j = i)) \<and>
     (\<forall>p q. be_address e (Some p) = be_address e (Some q) \<longrightarrow> p = q) \<and> (\<forall>p. be_address e (Some p) \<noteq> 0)"

text \<open>The state with the slots from \<open>k\<close> to \<open>m\<close> filled.\<close>

definition grown :: "bh_env \<Rightarrow> nat \<Rightarrow> nat \<Rightarrow> bh_state \<Rightarrow> bh_state" where
  "grown e k m s = \<lparr>bh_cache = (\<lambda>i. if k \<le> i \<and> i < m then be_head e i else bh_cache s i),
     bh_heads = (\<lambda>b. if \<exists>i. k \<le> i \<and> i < m \<and> be_head e i = Some b
       then (let i = THE i. be_head e i = Some b in Some \<lparr>b_data = be_address e (be_page e i), b_page = be_page e i\<rparr>)
       else bh_heads s b),
     bh_pages = bh_pages s \<union> {p. \<exists>i. k \<le> i \<and> i < m \<and> be_page e i = Some p}\<rparr>"

lemma grown_none: "m \<le> k \<Longrightarrow> grown e k m s = s"
  by (intro bh_state.equality ext) (auto simp: grown_def)

lemma the_slot:
  assumes "bh_env_ok e s" "be_head e i = Some b"
  shows "(THE j. be_head e j = Some b) = i"
proof (rule the_equality)
  fix j assume "be_head e j = Some b"
  then show "j = i" using assms unfolding bh_env_ok_def by blast
qed (rule assms(2))

lemma grown_next:
  assumes "bh_env_ok e s" "k \<le> m" "be_head e m = Some b" "be_page e m = Some p"
  shows "grown e k (Suc m) s = (grown e k m s)\<lparr>bh_pages := insert p (bh_pages (grown e k m s)),
    bh_heads := (bh_heads (grown e k m s))(b \<mapsto> \<lparr>b_data = be_address e (Some p), b_page = Some p\<rparr>),
    bh_cache := (bh_cache (grown e k m s))(m \<mapsto> b)\<rparr>"
proof -
  have u: "be_head e i = Some b \<Longrightarrow> i = m" for i using assms(1,3) unfolding bh_env_ok_def by blast
  have "bh_heads (grown e k (Suc m) s) c =
      ((bh_heads (grown e k m s))(b \<mapsto> \<lparr>b_data = be_address e (Some p), b_page = Some p\<rparr>)) c" for c
  proof (cases "c = b")
    case True
    then show ?thesis using assms the_slot [OF assms(1,3)] by (auto simp: grown_def Let_def)
  next
    case False
    have "(\<exists>i. k \<le> i \<and> i < Suc m \<and> be_head e i = Some c) \<longleftrightarrow> (\<exists>i. k \<le> i \<and> i < m \<and> be_head e i = Some c)"
      using False assms(3) by (auto simp: less_Suc_eq)
    then show ?thesis using False by (simp add: grown_def)
  qed
  then show ?thesis using assms(2-4)
    by (intro bh_state.equality ext) (auto simp: grown_def less_Suc_eq)
qed

lemma grow_heads_run:
  assumes ok: "bh_env_ok e s" and null: "be_address e None = 0" and "num \<le> BH_SLOTS" "k \<le> num"
  shows "\<exists>m. k \<le> m \<and> m \<le> num \<and> grow_heads e [k..<num] (grown e 0 k s) = Ret (m < num, grown e 0 m s) \<and>
    (\<forall>i. k \<le> i \<and> i < m \<longrightarrow> be_head e i \<noteq> None \<and> be_page e i \<noteq> None) \<and>
    (m < num \<longrightarrow> be_head e m = None \<or> be_page e m = None)"
  using assms(4)
proof (induction "num - k" arbitrary: k)
  case 0
  then show ?case by (intro exI [of _ num]) auto
next
  case (Suc d)
  then have k: "k < num" "k < BH_SLOTS" "[k..<num] = k # [Suc k..<num]" using assms(3) by (simp_all add: upt_conv_Cons)
  show ?case
  proof (cases "be_head e k")
    case None
    then show ?thesis using k by (intro exI [of _ k]) auto
  next
    case (Some b)
    show ?thesis
    proof (cases "be_page e k")
      case None
      have "bh_heads s b = None" "\<And>i. be_head e i = Some b \<Longrightarrow> i = k" using ok Some unfolding bh_env_ok_def by blast+
      then have "bh_heads (grown e 0 k s) b = None" by (auto simp: grown_def)
      then have "(bh_heads (grown e 0 k s))(b := None) = bh_heads (grown e 0 k s)" by (rule fun_upd_idem)
      then show ?thesis using None Some null k by (intro exI [of _ k]) (auto simp: Let_def)
    next
      case page: (Some p)
      have a: "be_address e (Some p) \<noteq> 0" using ok unfolding bh_env_ok_def by blast
      have "d = num - Suc k" "Suc k \<le> num" using Suc(2) k(1) by simp_all
      then obtain m where m: "Suc k \<le> m" "m \<le> num" "grow_heads e [Suc k..<num] (grown e 0 (Suc k) s) = Ret (m < num, grown e 0 m s)"
        "\<forall>i. Suc k \<le> i \<and> i < m \<longrightarrow> be_head e i \<noteq> None \<and> be_page e i \<noteq> None" "m < num \<longrightarrow> be_head e m = None \<or> be_page e m = None"
        using Suc(1) by blast
      have "grow_heads e [k..<num] (grown e 0 k s) = grow_heads e [Suc k..<num] (grown e 0 (Suc k) s)"
        using Some page a k grown_next [OF ok _ Some page, of 0] by (simp add: Let_def)
      moreover have "k \<le> i \<and> i < m \<longrightarrow> be_head e i \<noteq> None \<and> be_page e i \<noteq> None" for i
        using m(4) Some page by (cases "i = k") auto
      ultimately show ?thesis using m(1-3,5) by (intro exI [of _ m]) simp
    qed
  qed
qed

lemma grown_first:
  assumes "bh_env_ok e s" "k < m" "be_head e k = Some b" "be_page e k = Some p" "bh_cache s k = None"
  shows "bh_cache (grown e k m s) k = Some b" "bh_heads (grown e k m s) b = Some \<lparr>b_data = be_address e (Some p), b_page = Some p\<rparr>"
    "p \<in> bh_pages (grown e k m s)"
    "(bh_cache (grown e k m s))(k := None) = bh_cache (grown e (Suc k) m s)"
    "(bh_heads (grown e k m s))(b := None) = bh_heads (grown e (Suc k) m s)"
    "{q \<in> bh_pages (grown e k m s). be_address e (Some q) \<noteq> be_address e (Some p)} = bh_pages (grown e (Suc k) m s)"
proof -
  have u: "be_head e i = Some b \<Longrightarrow> i = k" "be_page e i = Some p \<Longrightarrow> i = k" "bh_heads s b = None" "p \<notin> bh_pages s"
    "be_address e (Some q) = be_address e (Some p) \<longleftrightarrow> q = p" for i q
    using assms(1,3,4) unfolding bh_env_ok_def by blast+
  show "bh_cache (grown e k m s) k = Some b" "bh_heads (grown e k m s) b = Some \<lparr>b_data = be_address e (Some p), b_page = Some p\<rparr>"
    "p \<in> bh_pages (grown e k m s)" "(bh_cache (grown e k m s))(k := None) = bh_cache (grown e (Suc k) m s)"
    using assms the_slot [OF assms(1,3)] by (auto simp: grown_def Let_def)
  show "(bh_heads (grown e k m s))(b := None) = bh_heads (grown e (Suc k) m s)"
  proof
    fix c
    have "(\<exists>i. k \<le> i \<and> i < m \<and> be_head e i = Some c) \<longleftrightarrow> (\<exists>i. Suc k \<le> i \<and> i < m \<and> be_head e i = Some c)" if "c \<noteq> b"
      using that assms(3) by (metis Suc_leD Suc_leI le_eq_less_or_eq option.inject)
    moreover have no: "\<not> (\<exists>i. Suc k \<le> i \<and> i < m \<and> be_head e i = Some b)" using u(1) by fastforce
    moreover have "bh_heads (grown e (Suc k) m s) b = None"
      by (simp only: grown_def bh_state.select_convs if_not_P [OF no] u(3))
    ultimately show "((bh_heads (grown e k m s))(b := None)) c = bh_heads (grown e (Suc k) m s) c"
      by (cases "c = b") (simp_all add: grown_def)
  qed
  show "{q \<in> bh_pages (grown e k m s). be_address e (Some q) \<noteq> be_address e (Some p)} = bh_pages (grown e (Suc k) m s)"
  proof -
    have i: "k \<le> i \<and> i < m \<and> R i \<longleftrightarrow> i = k \<and> R k \<or> Suc k \<le> i \<and> i < m \<and> R i" for i and R :: "nat \<Rightarrow> bool"
      using assms(2) by (cases "i = k") auto
    have "{q. \<exists>i. k \<le> i \<and> i < m \<and> be_page e i = Some q} = insert p {q. \<exists>i. Suc k \<le> i \<and> i < m \<and> be_page e i = Some q}"
      by (subst i) (auto simp: assms(4) simp del: ex_simps)
    then have "bh_pages (grown e k m s) = insert p (bh_pages (grown e (Suc k) m s))" by (simp add: grown_def)
    moreover have "p \<notin> bh_pages (grown e (Suc k) m s)" using u(2,4) by (fastforce simp: grown_def)
    ultimately show ?thesis unfolding u(5) by blast
  qed
qed

lemma shrink_heads_run:
  assumes ok: "bh_env_ok e s" and "num \<le> BH_SLOTS" "k \<le> m" "m \<le> num" "\<forall>i. bh_cache s i = None"
    and "\<forall>i. k \<le> i \<and> i < m \<longrightarrow> be_head e i \<noteq> None \<and> be_page e i \<noteq> None"
  shows "shrink_heads e [k..<num] (grown e k m s) = Ret s"
  using assms(3,6)
proof (induction "m - k" arbitrary: k)
  case 0
  then have "k = m" by simp
  then have g: "grown e k m s = s" by (simp add: grown_none)
  show ?case
  proof (cases "m < num")
    case True
    then have "[k..<num] = k # [Suc k..<num]" using \<open>k = m\<close> by (simp add: upt_conv_Cons)
    then show ?thesis using g assms(2,5) \<open>k = m\<close> True by simp
  next
    case False
    then show ?thesis using g assms(4) \<open>k = m\<close> by simp
  qed
next
  case (Suc d)
  then have k: "k < m" "k < BH_SLOTS" "[k..<num] = k # [Suc k..<num]" using assms(2,4) by (simp_all add: upt_conv_Cons)
  obtain b p where bp: "be_head e k = Some b" "be_page e k = Some p" using Suc.prems(2) k(1) by fastforce
  note first = grown_first [OF ok k(1) bp assms(5) [rule_format]]
  have rest: "shrink_heads e [Suc k..<num] (grown e (Suc k) m s) = Ret s"
    using Suc k(1) by simp
  have fp: "free_page e (be_address e (Some p)) ((grown e k m s)\<lparr>bh_cache := c\<rparr>) =
      Ret ((grown e k m s)\<lparr>bh_cache := c, bh_pages := bh_pages (grown e (Suc k) m s)\<rparr>)" for c
    unfolding free_page_def first(6) [symmetric] using first(3) by (simp add: bexI [of _ p])
  have eq: "(grown e k m s)\<lparr>bh_cache := bh_cache (grown e (Suc k) m s), bh_pages := bh_pages (grown e (Suc k) m s),
      bh_heads := bh_heads (grown e (Suc k) m s)\<rparr> = grown e (Suc k) m s" by simp
  have "shrink_heads e (k # [Suc k..<num]) (grown e k m s) = shrink_heads e [Suc k..<num]
      ((grown e k m s)\<lparr>bh_cache := bh_cache (grown e (Suc k) m s), bh_pages := bh_pages (grown e (Suc k) m s),
      bh_heads := bh_heads (grown e (Suc k) m s)\<rparr>)"
    using k(2) first(1,2) by (simp add: fp first(4,5))
  then show ?case by (simp only: k(3) eq rest)
qed

text \<open>
  Whatever the allocators answer, giving the buffers back after \<open>__grow_buffers\<close>, complete or not, leaves what
  was there before, provided the address of a page that could not be had is null.
\<close>

lemma old_grow_then_shrink:
  assumes "bh_env_ok e s" "be_address e None = 0" "num \<le> BH_SLOTS" "\<forall>i. bh_cache s i = None"
  shows "\<exists>err s'. old_grow_buffers e num s = Ret (err, s') \<and> old_shrink_buffers e num s' = Ret s \<and>
    (err \<longleftrightarrow> (\<exists>i < num. be_head e i = None \<or> be_page e i = None))"
proof -
  obtain m where m: "m \<le> num" "grow_heads e [0..<num] (grown e 0 0 s) = Ret (m < num, grown e 0 m s)"
    "\<forall>i. 0 \<le> i \<and> i < m \<longrightarrow> be_head e i \<noteq> None \<and> be_page e i \<noteq> None"
    "m < num \<longrightarrow> be_head e m = None \<or> be_page e m = None"
    using grow_heads_run [OF assms(1-3), of 0] by auto
  have "shrink_heads e [0..<num] (grown e 0 m s) = Ret s"
    by (rule shrink_heads_run [OF assms(1,3) _ m(1) assms(4) m(3)]) simp
  moreover have "m < num \<longleftrightarrow> (\<exists>i < num. be_head e i = None \<or> be_page e i = None)"
  proof
    assume "\<exists>i < num. be_head e i = None \<or> be_page e i = None"
    then obtain i where i: "i < num" "be_head e i = None \<or> be_page e i = None" by blast
    then have "\<not> i < m" using m(3) by auto
    then show "m < num" using i(1) by simp
  qed (use m(4) in blast)
  ultimately show ?thesis using m(2)
    by (simp add: old_grow_buffers_def old_shrink_buffers_def grown_none)
qed

text \<open>If that address is not null, the missing page goes unnoticed, and giving it back is a release of no page.\<close>

lemma old_grow_null_page:
  assumes "be_head e 0 = Some b" "be_page e 0 = None" "be_address e None \<noteq> 0" "\<And>p. be_address e (Some p) \<noteq> be_address e None"
  shows "\<exists>s'. old_grow_buffers e 1 s = Ret (False, s') \<and> old_shrink_buffers e 1 s' = Bug"
  using assms by (simp add: old_grow_buffers_def old_shrink_buffers_def BH_SLOTS_def free_page_def Let_def)

text \<open>
  The completion traps for a buffer head the stripe does not have. Otherwise the stripe is marked for handling,
  and yet the last reference puts it on the list of idle stripes, where the daemon never looks.
\<close>

lemma find_head_all: "find_head heads b n = length (take n heads) \<longleftrightarrow> b \<notin> set (take n heads)"
proof -
  have "length (takeWhile P xs) = length xs \<longleftrightarrow> (\<forall>x \<in> set xs. P x)" for P and xs :: "nat list"
    by (metis append_Nil2 append_eq_conv_conj takeWhile_eq_all_conv takeWhile_eq_take)
  from this [of "\<lambda>h. h \<noteq> b" "take n heads"] show ?thesis unfolding find_head_def by blast
qed

lemma old_end_write_outcome:
  assumes "sint (raid_disks conf) = int n" "n \<le> length heads"
  shows "old_end_write_request heads b st uptodate conf =
    (if b \<notin> set (take n heads) then Bug
     else if sh_count (heap conf st) = 1 \<and> (on_lru conf st \<or> active_stripes conf = 0) then Bug
     else let conf1 = upd_stripe st (\<lambda>sh. sh\<lparr>sh_state := set_bit STRIPE_HANDLE (sh_state sh), sh_count := sh_count sh - 1\<rparr>) conf
       in Ret (\<not> uptodate, if sh_count (heap conf st) = 1
         then conf1\<lparr>inactive_list := inactive_list conf @ [st], active_stripes := active_stripes conf - 1,
                stripe_wakeups := stripe_wakeups conf + 1\<rparr>
         else conf1))"
proof -
  define i where "i = find_head heads b n"
  have i: "int i = int n \<longleftrightarrow> b \<notin> set (take n heads)" "b \<in> set (take n heads) \<Longrightarrow> \<not> length heads \<le> i"
    using find_head_all [of heads b n] assms(2) length_takeWhile_le [of "\<lambda>h. h \<noteq> b" "take n heads"]
    by (auto simp: i_def find_head_def)
  have d: "old_end_write_request heads b st uptodate conf = (if int i = int n \<or> length heads \<le> i then Bug
      else bind_outcome (release_stripe_old st
               (upd_stripe st (\<lambda>sh. sh\<lparr>sh_state := set_bit STRIPE_HANDLE (sh_state sh)\<rparr>) conf)) (\<lambda>conf1.
             Ret (\<not> uptodate, conf1)))"
    using assms(1) by (simp add: old_end_write_request_def i_def Let_def)
  show ?thesis unfolding d using i
    by (auto simp: release_stripe_old_def atomic_add_count_def on_lru_def upd_stripe_def Let_def)
qed

end
