(* ===== verification/Spec2Isabelle.thy ===== *)
theory Spec2Isabelle
  imports Stripe_Alloc Array_Serves Raid5_Resync Jmd_Module Jmd_Mem_Thread Raid6_Galois Xor_Block Jradm Jrcpp Rosock Buffer_Heads
begin

text \<open>
  A verification development of JRAID, a software RAID-5 driver for the Linux kernel (\<^verbatim>\<open>src/src\<close>) with
  the experiments that come with it.

  \<^bold>\<open>The program.\<close> The array manager (\<^verbatim>\<open>jmd.c\<close>, module \<open>jmd\<close>) owns one array: a list of member devices with
  their superblocks, the superblock of the array, a gendisk and a sysfs file \<open>add\<close> through which the
  user names the members one by one. When the last one is added, \<open>add_store\<close> computes the capacity and calls
  \<open>do_jmd_run\<close>, which compares the superblocks (\<open>analyze_sbs\<close>), checks chunk size and level, computes the
  sizes and hands the array to a personality. The only personality is RAID-5 (\<^verbatim>\<open>jraid5.c\<close>, module \<open>jraid5\<close>).
  It keeps a cache of stripes (one page per member and row) in a hash table, with a list of idle and
  one of queued stripes; a request is split into pages, each is chained on its stripe, and a daemon
  (\<open>jraid5d\<close>) handles the queued stripes and submits the I/O. A second request path copies through pages
  of its own and bypasses the cache. Threads, superblock writes and resynchronisation belong to the
  manager. \<^verbatim>\<open>jmd_mem.c\<close> preallocates a cache of I/O blocks that nothing uses yet.

  \<^bold>\<open>The theories\<close>, in the order of their imports; the operations have the names of the C functions.
  \<^item> \<open>Prelude\<close>: C integers as words, outcomes (value, \<open>BUG()\<close> or trap, endless loop), error numbers, the
    descending loop, lemmas on words.
  \<^item> \<open>Jraid5_Types\<close> (\<^verbatim>\<open>jraid5.h\<close>): stripe heads, their devices, the configuration, the flag bits. Stripes
    are known by number and the configuration holds the store of them.
  \<^item> \<open>Raid5_Geometry\<close>: \<open>jraid5_compute_sector\<close> and \<open>compute_blocknr\<close> on 64-bit and 32-bit words, related to
    a placement on natural numbers (locale \<open>parity_layout\<close>, the four rotations) by a refinement;
    the map is injective, hits every data slot, and is inverted below \<open>2 ^ 31\<close> chunks.
  \<^item> \<open>Stripe_Hash\<close>: \<open>insert_hash\<close>, \<open>remove_hash\<close>, \<open>find_stripe\<close> and \<open>shrink_stripe_cache\<close> on the pointers of the
    chains. They refine a table of lists, and the locale \<open>stripe_index\<close> (look-up after insertion and
    removal) is interpreted on them.
  \<^item> \<open>Stripe_Cache\<close>: reference counts, the lists, recycling, \<open>get_active_stripe\<close>, and the invariant
    that all of them keep. \<open>Stripe_Alloc\<close>: building and tearing down the stripes, every page and
    stripe accounted for. \<open>Stripe_Bio\<close>: the sorted chains of bios and the copies between bios and
    pages. \<open>Stripe_Handle\<close>: \<open>handle_stripe\<close>, one pass.
  \<^item> \<open>Raid5_Requests\<close>: \<open>jraid5_make_request\<close>, the completions and the daemon, and the step relation \<open>rstep\<close>
    that interleaves them; the cache invariant holds in every reachable state.
  \<^item> \<open>Nonstripe_IO\<close>: the path that bypasses the cache, down to the bytes it leaves on a member.
  \<^item> \<open>Jmd_Types\<close> (\<^verbatim>\<open>jmd_p.h\<close>, \<^verbatim>\<open>jmd_k.h\<close>, \<^verbatim>\<open>jmd_u.h\<close>): superblocks, descriptors, member devices, arrays.
    \<open>Jmd_Rdev\<close>: importing and binding members, sizes, \<open>sync_sbs\<close>, \<open>add_new_disk\<close>. \<open>Jmd_Device\<close>: the same import call
    by call with the pages, devices and memory it takes, shown to refine the one of \<open>Jmd_Rdev\<close>.
    \<open>Jmd_Analyze\<close>: \<open>analyze_sbs\<close> and \<open>device_size_calculation\<close>. \<open>Jmd_Super\<close>: \<open>jmd_update_sb\<close> and the
    writes it submits. \<open>Jmd_Thread\<close>: threads, as functions and as a step relation of one thread and those
    that wake and stop it, and the table of personalities.
  \<^item> \<open>Raid5_Run\<close>: \<open>jraid5_run\<close> and \<open>jraid5_exit\<close>. \<open>Jmd_Run\<close>: \<open>do_jmd_run\<close> and \<open>add_store\<close> over any
    personality (locale \<open>raid_personality\<close>, interpreted on \<open>jraid5_run\<close>). \<open>Jmd_Assemble\<close>: an array from its first
    \<open>add_store\<close> until it runs; \<open>Array_Serves\<close>: its first request, down to the member, and that its
    cache starts in the invariant of \<open>Raid5_Requests\<close>. \<open>Jmd_Sync\<close>: \<open>jmd_do_sync\<close>,
    the body of the daemon's thread and \<open>jraid5_sync_request\<close>; \<open>Raid5_Resync\<close>: the first calling the last,
    which never goes over the array.
  \<^item> \<open>Jmd_Mem\<close>: the cache of I/O blocks, its state bits, and the lock of a block as a step relation.
    \<open>Kthread_Stop\<close>: what stopping a kernel thread needs (locale \<open>stoppable_thread\<close>); \<open>Jmd_Mem_Thread\<close>: the
    thread of the cache, which does not always have it. \<open>Jmd_Module\<close>: loading and unloading.
  \<^item> The experiments: \<open>Radix_Demo\<close> (\<^verbatim>\<open>attach/tpblkdev\<close>), a block device over the kernel's radix tree;
    \<open>Raid6_Galois\<close> (\<^verbatim>\<open>algorithm/raid6_pq\<close>), the tables of the field with 16 elements and a reconstruction with them;
    \<open>Xor_Block\<close> (\<^verbatim>\<open>xor.c\<close>), the parity routines and their calibration; \<open>Jradm\<close> (\<^verbatim>\<open>tool/jradm\<close>), the options of the
    command line tool; \<open>Jrcpp\<close> (\<^verbatim>\<open>attach/jrcpp\<close>), two modules that exchange a table of functions and a
    power-down message, and their threads (which have what \<open>stoppable_thread\<close> asks for); \<open>Rosock\<close>
    (\<^verbatim>\<open>attach/rosock\<close>), a sender and a receiver of one message, and the ioctl test.
  \<^item> \<open>Buffer_Heads\<close>: what \<^verbatim>\<open>jraid5.c\<close> kept of Linux 2.4; nothing calls it.

  \<^bold>\<open>How the model is made.\<close> State is passed explicitly in records that have the fields of the C structures.
  \<open>int\<close> and \<open>unsigned\<close> are 32-bit words, \<open>unsigned long\<close> and \<open>sector_t\<close> 64-bit words; counters that the code
  only counts up and down by one are integers. Lists of the kernel are lists of numbers, in order, except
  for the hash chains, which are modelled with their pointers. A dereference of a null pointer, an
  access out of an array, \<open>BUG()\<close>, \<open>panic\<close> and a division by zero are \<open>Bug\<close>, a loop or wait that never ends is \<open>Hang\<close> or
  \<open>None\<close>. What the kernel answers (allocators, opens and reads of devices, time, checksums) are arguments. Memory
  that is handed out and taken back is counted where a theorem speaks of leaks. Variables the code reads
  without setting them are arguments, so the theorems hold for every value.

  \<^bold>\<open>Bounds.\<close> They are those of the code: 27 descriptors in a superblock (\<open>MD_SB_DISKS\<close>), 1024 stripes
  (\<open>NR_STRIPES\<close>), 100 passes of \<open>jmd_update_sb\<close>, ten marks of \<open>jmd_do_sync\<close>, batches of sixteen blocks in the scans of
  the radix tree. Loops over lists and counters are structural recursions; those that may not end
  (the daemon, the look-up along a chain of pointers, the scans of the radix tree) are partial functions
  into \<open>option\<close> whose termination is proved where it holds. No definition has fuel.

  \<^bold>\<open>What is not modelled.\<close>
  \<^item> The stubs \<open>find_gendisk\<close> and \<open>match_dev_unit\<close>, which return a null pointer.
  \<^item> \<open>_submit_bio_wait\<close>, which nothing calls and which only waits for a completion.
  \<^item> What only prints or is a table for the kernel: \<open>print_bio_info\<close>, \<open>jmd_print_devices\<close>, \<open>mngt_show\<close>, sysfs attributes.
  \<^item> The structures of \<^verbatim>\<open>GC_func.h\<close>, \<^verbatim>\<open>CM_func.h\<close> and, but for the enumeration of options, \<^verbatim>\<open>jradm.h\<close>: no code reads or
    writes their fields.
\<close>

end
